(* ===== verification/Prelude.thy ===== *)
theory Prelude
  imports Main "HOL-Library.Word" "HOL-Library.Sublist"
begin

text \<open>
  Shared ground of the development: the types of bytes and strings, the errors of the
  program as values, the four ways a Go call can end, and the sequencing of calls
  through an explicit state.

  A Go call returns (\<open>Ret\<close>), returns a non-nil error (\<open>Fail\<close>), never returns because
  it waits for something that does not come (\<open>Hang\<close>: a read on a connection that stays
  open and silent), or panics (\<open>Panic\<close>: nil dereference, negative WaitGroup).
\<close>

named_theorems res_simps "sequencing of calls"
named_theorems stream_simps "reading from connections"
named_theorems fs_simps "file system steps"

section \<open>Bytes and strings\<close>

type_synonym byte = "8 word"
type_synonym bytes = "8 word list"

definition bytes_of :: "string \<Rightarrow> bytes" where
  "bytes_of s = map of_char s"

definition string_of :: "bytes \<Rightarrow> string" where
  "string_of bs = map (\<lambda>b. char_of (unat b)) bs"

lemma unat_of_char [simp]: "unat (of_char c :: byte) = of_char c"
proof -
  have "(of_char c :: byte) = of_nat (of_char c)" by (rule of_nat_of_char [symmetric])
  then show ?thesis by (simp only: unat_of_nat) simp
qed

lemma string_of_bytes_of [simp]: "string_of (bytes_of s) = s"
  by (induction s) (simp_all add: string_of_def bytes_of_def)

lemma length_bytes_of [simp]: "length (bytes_of s) = length s"
  by (simp add: bytes_of_def)

lemma bytes_of_inject [simp]: "bytes_of s = bytes_of t \<longleftrightarrow> s = t"
  by (metis string_of_bytes_of)

section \<open>Errors and outcomes\<close>

datatype error =
    EOF
  | ErrUnexpectedEOF
  | ErrNotExist
  | ENOTDIR
  | EISDIR
  | EINVAL
  | ENOTEMPTY
  | NetError string
  | ErrFileNotFound
  | Errorf string "string list"
  | Wrap string error

datatype 'a res = Ret 'a | Fail error | Hang | Panic string

definition andthen :: "'a res \<times> 's \<Rightarrow> ('a \<Rightarrow> 's \<Rightarrow> 'b res \<times> 's) \<Rightarrow> 'b res \<times> 's" where
  "andthen m k =
     (case m of
        (Ret x, s) \<Rightarrow> k x s
      | (Fail e, s) \<Rightarrow> (Fail e, s)
      | (Hang, s) \<Rightarrow> (Hang, s)
      | (Panic p, s) \<Rightarrow> (Panic p, s))"

definition wrapping :: "string \<Rightarrow> 'a res \<times> 's \<Rightarrow> 'a res \<times> 's" where
  "wrapping msg m = (case m of (Fail e, s) \<Rightarrow> (Fail (Wrap msg e), s) | _ \<Rightarrow> m)"

lemma andthen_Ret [simp, res_simps]: "andthen (Ret x, s) k = k x s"
  by (simp add: andthen_def)

lemma andthen_Fail [simp, res_simps]: "andthen (Fail e, s) k = (Fail e, s)"
  by (simp add: andthen_def)

lemma andthen_Hang [simp, res_simps]: "andthen (Hang, s) k = (Hang, s)"
  by (simp add: andthen_def)

lemma andthen_Panic [simp, res_simps]: "andthen (Panic p, s) k = (Panic p, s)"
  by (simp add: andthen_def)

lemma wrapping_simps [simp, res_simps]:
  "wrapping msg (Ret x, s) = (Ret x, s)"
  "wrapping msg (Fail e, s) = (Fail (Wrap msg e), s)"
  "wrapping msg (Hang, s) = (Hang, s)"
  "wrapping msg (Panic p, s) = (Panic p, s)"
  by (simp_all add: wrapping_def)

lemma andthen_RetE:
  assumes "andthen m k = (Ret y, t)"
  obtains x s where "m = (Ret x, s)" and "k x s = (Ret y, t)"
  using assms by (auto simp: andthen_def split: prod.splits res.splits)

text \<open>What every call of a sequence keeps, the sequence keeps.\<close>

lemma keeps_andthen:
  assumes "P (snd m)" and "\<And>x t. P t \<Longrightarrow> P (snd (k x t))"
  shows "P (snd (andthen m k))"
  using assms by (auto simp: andthen_def split: prod.split res.split)

lemma andthen_assoc:
  "andthen (andthen m k) l = andthen m (\<lambda>x s. andthen (k x s) l)"
  by (simp add: andthen_def split: prod.splits res.splits)

text \<open>The same sequencing for calls that change no state.\<close>

definition rbind :: "'a res \<Rightarrow> ('a \<Rightarrow> 'b res) \<Rightarrow> 'b res" where
  "rbind m k = (case m of Ret x \<Rightarrow> k x | Fail e \<Rightarrow> Fail e | Hang \<Rightarrow> Hang | Panic p \<Rightarrow> Panic p)"

lemma rbind_simps [simp, res_simps]:
  "rbind (Ret x) k = k x"
  "rbind (Fail e) k = Fail e"
  "rbind Hang k = Hang"
  "rbind (Panic p) k = Panic p"
  by (simp_all add: rbind_def)

definition of_sum :: "error + 'a \<Rightarrow> 'a res" where
  "of_sum x = (case x of Inl e \<Rightarrow> Fail e | Inr y \<Rightarrow> Ret y)"

lemma of_sum_simps [simp, res_simps]: "of_sum (Inl e) = Fail e" "of_sum (Inr y) = Ret y"
  by (simp_all add: of_sum_def)

text \<open>
  Outcomes are ordered by definedness: a call that hangs may still answer when more input
  arrives, any other outcome is final.
\<close>

instantiation res :: (type) order
begin

definition less_eq_res :: "'a res \<Rightarrow> 'a res \<Rightarrow> bool" where
  "less_eq_res x y \<longleftrightarrow> x = Hang \<or> x = y"

definition less_res :: "'a res \<Rightarrow> 'a res \<Rightarrow> bool" where
  "less_res x y \<longleftrightarrow> x = Hang \<and> y \<noteq> Hang"

instance
  by standard (auto simp: less_eq_res_def less_res_def)

end

lemma Hang_least [simp]: "Hang \<le> (x :: 'a res)"
  by (simp add: less_eq_res_def)

lemma answer_final: "x \<le> (y :: 'a res) \<Longrightarrow> x \<noteq> Hang \<Longrightarrow> y = x"
  by (simp add: less_eq_res_def)

section \<open>Lists\<close>

lemma take_append_ge [simp]: "n \<le> length xs \<Longrightarrow> take n (xs @ ys) = take n xs"
  by simp

lemma concat_replicate_Nil [simp]: "concat (replicate n []) = []"
  by (induction n) simp_all

end
