(* ===== verification/Streams.thy ===== *)
theory Streams
  imports Prelude
begin

text \<open>
  The readers of the program (\<open>net.Conn\<close>, \<open>*os.File\<close>, \<open>bytes.Reader\<close>, \<open>bytes.Buffer\<close>,
  \<open>io.LimitReader\<close>) as one kind of value: the segments that successive reads find
  available, and what comes after the last one. For a file or a buffer that is end of file;
  a TCP connection may also break, or stay open and silent, and then a read blocks.

  The calls of the standard library the program uses on them are modelled as the loops
  they are: \<open>Read\<close> (one segment at most), \<open>io.ReadFull\<close>, \<open>io.Copy\<close> and \<open>io.ReadAll\<close>, and the
  same under an \<open>io.LimitReader\<close>. The lemmas say that all but the single \<open>Read\<close> depend only
  on the bytes and not on how the network cut them into segments.
\<close>

datatype stream_end = AtEOF | Broken error | Open

record stream =
  segs :: "bytes list"
  fin :: stream_end

definition buffer :: "bytes \<Rightarrow> stream" where
  "buffer bs = \<lparr>segs = [bs], fin = AtEOF\<rparr>"

abbreviation content :: "stream \<Rightarrow> bytes" where
  "content st \<equiv> concat (segs st)"

section \<open>One read\<close>

fun read_segs :: "nat \<Rightarrow> bytes list \<Rightarrow> (bytes \<times> bytes list) option" where
  "read_segs k [] = None"
| "read_segs k ([] # ss) = read_segs k ss"
| "read_segs k ((b # bs) # ss) = Some (take k (b # bs), drop k (b # bs) # ss)"

definition ending :: "stream \<Rightarrow> 'a res \<times> stream" where
  "ending st =
     (case fin st of
        AtEOF \<Rightarrow> (Fail EOF, st)
      | Broken e \<Rightarrow> (Fail e, st)
      | Open \<Rightarrow> (Hang, st))"

definition read :: "nat \<Rightarrow> stream \<Rightarrow> bytes res \<times> stream" where
  "read k st =
     (case read_segs k (segs st) of
        Some (bs, ss) \<Rightarrow> (Ret bs, st\<lparr>segs := ss\<rparr>)
      | None \<Rightarrow> ending (st\<lparr>segs := []\<rparr>))"

lemma read_segs_None: "read_segs k ss = None \<longleftrightarrow> concat ss = []"
  by (induction k ss rule: read_segs.induct) auto

lemma read_segs_Some:
  assumes "read_segs k ss = Some (bs, ss')"
  shows "concat ss = bs @ concat ss'" and "length bs \<le> k" and "0 < k \<Longrightarrow> bs \<noteq> []"
  using assms by (induction k ss rule: read_segs.induct) auto

lemma read_segs_progress:
  assumes "read_segs k ss = Some (bs, ss')" and "0 < k"
  shows "length (concat ss') < length (concat ss)"
proof -
  from read_segs_Some(1) [OF assms(1)] read_segs_Some(3) [OF assms(1,2)]
  show ?thesis by simp
qed

lemma read_empty [stream_simps]:
  "content st = [] \<Longrightarrow> read k st = ending (st\<lparr>segs := []\<rparr>)"
  by (simp only: read_def read_segs_None [THEN iffD2] option.case)

lemma read_one [stream_simps]:
  assumes "content st = b # bs"
  obtains ss where "read 1 st = (Ret [b], st\<lparr>segs := ss\<rparr>)" and "concat ss = bs"
proof -
  obtain cs ss where r: "read_segs 1 (segs st) = Some (cs, ss)"
    using assms by (cases "read_segs 1 (segs st)") (auto simp: read_segs_None)
  from read_segs_Some [OF r] have cs: "length cs = 1" "concat (segs st) = cs @ concat ss"
    by (cases cs; simp)+
  then have "cs = [b]" and "concat ss = bs"
    using assms by (cases cs; simp)+
  then show thesis
    using r that by (simp add: read_def)
qed

section \<open>Reading loops\<close>

text \<open>
  \<open>fetch n st\<close> is the loop under \<open>io.ReadFull\<close> and \<open>io.LimitReader\<close>: read at most what
  is missing to \<open>n\<close> bytes, again until nothing is missing or the reader ends. It returns
  the bytes read and whether the reader ended first.
\<close>

function fetch :: "nat \<Rightarrow> bytes list \<Rightarrow> bytes \<times> nat \<times> bytes list" where
  "fetch n ss =
     (if n = 0 then ([], 0, ss)
      else case read_segs n ss of
             None \<Rightarrow> ([], n, [])
           | Some (bs, ss') \<Rightarrow>
               (case fetch (n - length bs) ss' of (rest, missing, ss'') \<Rightarrow> (bs @ rest, missing, ss'')))"
  by pat_completeness auto
termination
proof (relation "measure fst")
  fix n ss x bs ss'
  assume n: "n \<noteq> (0::nat)" and "read_segs n ss = Some x" and "(bs, ss') = x"
  then have r: "read_segs n ss = Some (bs, ss')" by simp
  have "bs \<noteq> []" using read_segs_Some(3) [OF r] n by simp
  then show "((n - length bs, ss'), n, ss) \<in> measure fst"
    using n by (cases bs) simp_all
qed simp

declare fetch.simps [simp del]

text \<open>The loop depends on the bytes only: the segmentation of the input is invisible.\<close>

lemma fetch_bytes:
  "fst (fetch n ss) = take n (concat ss)"
  "fst (snd (fetch n ss)) = n - length (concat ss)"
  "concat (snd (snd (fetch n ss))) = drop n (concat ss)"
proof (induction n ss rule: fetch.induct)
  case (1 n ss)
  have "fst (fetch n ss) = take n (concat ss) \<and>
      fst (snd (fetch n ss)) = n - length (concat ss) \<and>
      concat (snd (snd (fetch n ss))) = drop n (concat ss)"
  proof (cases "n = 0")
    case True
    then show ?thesis by (simp add: fetch.simps)
  next
    case False
    show ?thesis
    proof (cases "read_segs n ss")
      case None
      moreover from this have "concat ss = []" by (simp only: read_segs_None)
      ultimately show ?thesis using False by (simp add: fetch.simps del: concat_eq_Nil_conv)
    next
      case (Some p)
      then obtain bs ss' where r: "read_segs n ss = Some (bs, ss')" by (cases p) simp
      note IH = "1.IH" [OF False r refl]
      have "length bs \<le> n" and "concat ss = bs @ concat ss'"
        using read_segs_Some [OF r] by blast+
      moreover have "fetch n ss = (bs @ fst (fetch (n - length bs) ss'),
          snd (fetch (n - length bs) ss'))"
        using r False by (subst fetch.simps) (simp split: prod.split)
      ultimately show ?thesis using IH by simp
    qed
  qed
  then show "fst (fetch n ss) = take n (concat ss)"
    and "fst (snd (fetch n ss)) = n - length (concat ss)"
    and "concat (snd (snd (fetch n ss))) = drop n (concat ss)"
    by blast+
qed

text \<open>\<open>io.ReadFull\<close>: EOF when nothing was read, ErrUnexpectedEOF when the buffer is not full.\<close>

definition read_full :: "nat \<Rightarrow> stream \<Rightarrow> bytes res \<times> stream" where
  "read_full n st =
     (case fetch n (segs st) of
        (bs, missing, ss) \<Rightarrow>
          (let st' = st\<lparr>segs := ss\<rparr> in
           if missing = 0 then (Ret bs, st')
           else case fin st of
                  AtEOF \<Rightarrow> (Fail (if bs = [] then EOF else ErrUnexpectedEOF), st')
                | Broken e \<Rightarrow> (Fail e, st')
                | Open \<Rightarrow> (Hang, st')))"

text \<open>
  \<open>io.Copy\<close> or \<open>io.ReadAll\<close> from \<open>io.LimitReader(r, n)\<close>: the limit, or the end of the reader
  before it, ends the copy without an error. The limit is an int64; a negative one reads
  nothing.
\<close>

definition read_limit :: "int \<Rightarrow> stream \<Rightarrow> bytes res \<times> stream" where
  "read_limit n st =
     (case fetch (nat n) (segs st) of
        (bs, missing, ss) \<Rightarrow>
          (let st' = st\<lparr>segs := ss\<rparr> in
           if missing = 0 then (Ret bs, st')
           else case fin st of
                  AtEOF \<Rightarrow> (Ret bs, st')
                | Broken e \<Rightarrow> (Fail e, st')
                | Open \<Rightarrow> (Hang, st')))"

text \<open>
  \<open>io.Copy(dst, r)\<close> and \<open>io.ReadAll(r)\<close>: read a buffer at a time until the end of the
  reader. The size of the buffer (32 KiB in \<open>io.Copy\<close>) is a parameter of the loop.
\<close>

function drain :: "nat \<Rightarrow> bytes list \<Rightarrow> bytes" where
  "drain k ss =
     (if k = 0 then []
      else case read_segs k ss of
             None \<Rightarrow> []
           | Some (bs, ss') \<Rightarrow> bs @ drain k ss')"
  by pat_completeness auto
termination
  by (relation "measure (\<lambda>(k, ss). length (concat ss))")
    (auto dest: read_segs_progress)

declare drain.simps [simp del]

lemma drain_bytes [simp]: "0 < k \<Longrightarrow> drain k ss = concat ss"
proof (induction k ss rule: drain.induct)
  case (1 k ss)
  show ?case
  proof (cases "read_segs k ss")
    case None
    moreover from this have "concat ss = []" by (simp only: read_segs_None)
    ultimately show ?thesis by (simp add: drain.simps)
  next
    case (Some p)
    then obtain bs ss' where r: "read_segs k ss = Some (bs, ss')" by (cases p) simp
    then have "drain k ss' = concat ss'" using "1.IH" [OF _ r refl] "1.prems" by simp
    then show ?thesis
      using r "1.prems" read_segs_Some(1) [OF r] by (subst drain.simps) simp
  qed
qed

definition read_all :: "stream \<Rightarrow> bytes res \<times> stream" where
  "read_all st =
     (let st' = st\<lparr>segs := []\<rparr> in
      case fin st of
        AtEOF \<Rightarrow> (Ret (drain 32768 (segs st)), st')
      | Broken e \<Rightarrow> (Fail e, st')
      | Open \<Rightarrow> (Hang, st'))"

lemma fst_read_full:
  "fst (read_full n st) =
     (if n \<le> length (content st) then Ret (take n (content st))
      else case fin st of
             AtEOF \<Rightarrow> Fail (if content st = [] then EOF else ErrUnexpectedEOF)
           | Broken e \<Rightarrow> Fail e
           | Open \<Rightarrow> Hang)"
  using fetch_bytes [of n "segs st"]
  by (auto simp: read_full_def Let_def split: prod.split stream_end.split)

lemma snd_read_full:
  "content (snd (read_full n st)) = drop n (content st)"
  "fin (snd (read_full n st)) = fin st"
  using fetch_bytes [of n "segs st"]
  by (auto simp: read_full_def Let_def split: prod.split stream_end.split)

lemma fst_read_limit:
  "fst (read_limit n st) =
     (if nat n \<le> length (content st) then Ret (take (nat n) (content st))
      else case fin st of
             AtEOF \<Rightarrow> Ret (content st)
           | Broken e \<Rightarrow> Fail e
           | Open \<Rightarrow> Hang)"
  using fetch_bytes [of "nat n" "segs st"]
  by (auto simp: read_limit_def Let_def split: prod.split stream_end.split)

lemma snd_read_limit:
  "content (snd (read_limit n st)) = drop (nat n) (content st)"
  "fin (snd (read_limit n st)) = fin st"
  using fetch_bytes [of "nat n" "segs st"]
  by (auto simp: read_limit_def Let_def split: prod.split stream_end.split)

lemma read_all_EOF [stream_simps]:
  "fin st = AtEOF \<Longrightarrow> read_all st = (Ret (content st), st\<lparr>segs := []\<rparr>)"
  by (simp add: read_all_def)

lemma read_all_Open [stream_simps]:
  "fin st = Open \<Longrightarrow> read_all st = (Hang, st\<lparr>segs := []\<rparr>)"
  by (simp add: read_all_def)

lemma read_all_buffer [simp]: "read_all (buffer bs) = (Ret bs, (buffer bs)\<lparr>segs := []\<rparr>)"
  by (simp add: buffer_def read_all_def)

lemma content_buffer [simp]: "content (buffer bs) = bs"
  by (simp add: buffer_def)

lemma fin_buffer [simp]: "fin (buffer bs) = AtEOF"
  by (simp add: buffer_def)

section \<open>Late data\<close>

text \<open>
  An open connection may deliver more. What a reader has answered stays: the outcome on
  the longer input is the same or was \<open>Hang\<close>.
\<close>

definition deliver :: "bytes list \<Rightarrow> stream \<Rightarrow> stream" where
  "deliver ss st = st\<lparr>segs := segs st @ ss\<rparr>"

lemma content_deliver [simp]: "content (deliver ss st) = content st @ concat ss"
  by (simp add: deliver_def)

lemma fin_deliver [simp]: "fin (deliver ss st) = fin st"
  by (simp add: deliver_def)

lemma read_full_mono:
  "fin st = Open \<Longrightarrow> fst (read_full n st) \<le> fst (read_full n (deliver ss st))"
  by (auto simp: fst_read_full less_eq_res_def)

lemma read_limit_mono:
  "fin st = Open \<Longrightarrow> fst (read_limit n st) \<le> fst (read_limit n (deliver ss st))"
  by (auto simp: fst_read_limit less_eq_res_def)

end
