(* ===== verification/Files.thy ===== *)
theory Files
  imports Streams
begin

text \<open>
  The file system as the store uses it (\<open>os.Stat\<close>, \<open>os.Open\<close>, \<open>os.Create\<close>, \<open>os.MkdirAll\<close>,
  \<open>os.RemoveAll\<close>): a tree of directories and files, without links, permissions or a full
  disk. Paths are resolved component by component as the kernel does it, \<open>.\<close> and \<open>..\<close>
  included, because content ids come from the network and end up in paths.
\<close>

section \<open>Path strings\<close>

text \<open>\<open>strings.Split(s, sep)\<close> and \<open>strings.Join\<close> for a separator of one character.\<close>

fun split_on :: "char \<Rightarrow> string \<Rightarrow> string list" where
  "split_on c [] = [[]]"
| "split_on c (x # xs) =
     (if x = c then [] # split_on c xs
      else (case split_on c xs of [] \<Rightarrow> [[x]] | y # ys \<Rightarrow> (x # y) # ys))"

fun join_with :: "char \<Rightarrow> string list \<Rightarrow> string" where
  "join_with c [] = []"
| "join_with c [s] = s"
| "join_with c (s # ss) = s @ c # join_with c ss"

lemma split_on_nonempty [simp]: "split_on c s \<noteq> []"
  by (induction s) (simp_all split: list.split)

lemma split_on_single: "c \<notin> set s \<Longrightarrow> split_on c s = [s]"
  by (induction s) auto

lemma split_on_append: "split_on c (s @ c # t) = split_on c s @ split_on c t"
  by (induction s) (auto split: list.split)

lemma split_on_join:
  "ss \<noteq> [] \<Longrightarrow> \<forall>s \<in> set ss. c \<notin> set s \<Longrightarrow> split_on c (join_with c ss) = ss"
  by (induction c ss rule: join_with.induct) (simp_all add: split_on_single split_on_append)

section \<open>The tree\<close>

type_synonym path = "string list"

datatype node = Dir | File bytes

record disk =
  nodes :: "path \<Rightarrow> node option"
  cwd :: path

fun walk :: "(path \<Rightarrow> node option) \<Rightarrow> path \<Rightarrow> string list \<Rightarrow> error + path" where
  "walk f p [] = Inr p"
| "walk f p (c # cs) =
     (case f p of
        None \<Rightarrow> Inl ErrNotExist
      | Some (File _) \<Rightarrow> Inl ENOTDIR
      | Some Dir \<Rightarrow>
          walk f (if c = [] \<or> c = ''.'' then p else if c = ''..'' then butlast p else p @ [c]) cs)"

definition start :: "disk \<Rightarrow> string \<Rightarrow> path" where
  "start d name = (case name of [] \<Rightarrow> cwd d | c # _ \<Rightarrow> if c = CHR ''/'' then [] else cwd d)"

definition resolve :: "disk \<Rightarrow> string \<Rightarrow> error + path" where
  "resolve d name =
     (if name = [] then Inl ErrNotExist
      else walk (nodes d) (start d name) (split_on (CHR ''/'') name))"

definition os_stat :: "disk \<Rightarrow> string \<Rightarrow> error + node" where
  "os_stat d name =
     (case resolve d name of
        Inl e \<Rightarrow> Inl e
      | Inr p \<Rightarrow> (case nodes d p of None \<Rightarrow> Inl ErrNotExist | Some nd \<Rightarrow> Inr nd))"

text \<open>
  An opened directory can be read from only with an error; the size its \<open>Stat\<close> reports is
  that of a Linux directory of one block.
\<close>

definition os_open :: "disk \<Rightarrow> string \<Rightarrow> error + (nat \<times> stream)" where
  "os_open d name =
     (case os_stat d name of
        Inl e \<Rightarrow> Inl e
      | Inr Dir \<Rightarrow> Inr (4096, \<lparr>segs = [], fin = Broken EISDIR\<rparr>)
      | Inr (File bs) \<Rightarrow> Inr (length bs, buffer bs))"

text \<open>\<open>os.Create\<close>: truncate or create; the handle is the resolved path.\<close>

definition os_create :: "disk \<Rightarrow> string \<Rightarrow> path res \<times> disk" where
  "os_create d name =
     (case resolve d name of
        Inl e \<Rightarrow> (Fail e, d)
      | Inr p \<Rightarrow>
          (if nodes d p = Some Dir then (Fail EISDIR, d)
           else (Ret p, d\<lparr>nodes := (nodes d)(p \<mapsto> File [])\<rparr>)))"

text \<open>Writing through a handle of a file that was just created.\<close>

definition put_file :: "path \<Rightarrow> bytes \<Rightarrow> disk \<Rightarrow> disk" where
  "put_file p bs d = d\<lparr>nodes := (nodes d)(p \<mapsto> File bs)\<rparr>"

text \<open>\<open>os.MkdirAll\<close>: create what is missing from left to right.\<close>

fun mkdirs :: "(path \<Rightarrow> node option) \<Rightarrow> path \<Rightarrow> string list \<Rightarrow> unit res \<times> (path \<Rightarrow> node option)" where
  "mkdirs f p [] = (Ret (), f)"
| "mkdirs f p (c # cs) =
     (if c = [] \<or> c = ''.'' then mkdirs f p cs
      else if c = ''..'' then mkdirs f (butlast p) cs
      else case f (p @ [c]) of
             None \<Rightarrow> mkdirs (f(p @ [c] \<mapsto> Dir)) (p @ [c]) cs
           | Some Dir \<Rightarrow> mkdirs f (p @ [c]) cs
           | Some (File _) \<Rightarrow> (Fail ENOTDIR, f))"

definition os_mkdirAll :: "disk \<Rightarrow> string \<Rightarrow> unit res \<times> disk" where
  "os_mkdirAll d name =
     (case mkdirs (nodes d) (start d name) (split_on (CHR ''/'') name) of
        (r, f) \<Rightarrow> (r, d\<lparr>nodes := f\<rparr>))"

text \<open>
  \<open>os.RemoveAll\<close>: refuses a final dot, is silent about a missing path, otherwise removes
  everything below the path. A final dot-dot names a directory that cannot be unlinked
  through that name: its content goes, the directory stays, and an error is returned.
\<close>

definition remove_below :: "path \<Rightarrow> (path \<Rightarrow> node option) \<Rightarrow> path \<Rightarrow> node option" where
  "remove_below p f = (\<lambda>q. if prefix p q then None else f q)"

definition os_removeAll :: "disk \<Rightarrow> string \<Rightarrow> unit res \<times> disk" where
  "os_removeAll d name =
     (let cs = split_on (CHR ''/'') name in
      if name = [] then (Ret (), d)
      else if last cs = ''.'' then (Fail EINVAL, d)
      else case resolve d name of
             Inl ErrNotExist \<Rightarrow> (Ret (), d)
           | Inl e \<Rightarrow> (Fail e, d)
           | Inr p \<Rightarrow>
               (if last cs = ''..'' then
                  (Fail ENOTEMPTY,
                   d\<lparr>nodes := (remove_below p (nodes d))(p := nodes d p)\<rparr>)
                else (Ret (), d\<lparr>nodes := remove_below p (nodes d)\<rparr>)))"

section \<open>Well-formed trees\<close>

text \<open>The root and the working directory exist, and what exists lies in a directory.\<close>

definition wf_disk :: "disk \<Rightarrow> bool" where
  "wf_disk d \<longleftrightarrow>
     nodes d [] = Some Dir \<and> nodes d (cwd d) = Some Dir \<and>
     (\<forall>p c. nodes d (p @ [c]) \<noteq> None \<longrightarrow> nodes d p = Some Dir)"

definition plain :: "string \<Rightarrow> bool" where
  "plain c \<longleftrightarrow> c \<noteq> [] \<and> c \<noteq> ''.'' \<and> c \<noteq> ''..'' \<and> CHR ''/'' \<notin> set c"

lemma wf_disk_parent: "wf_disk d \<Longrightarrow> nodes d (p @ [c]) \<noteq> None \<Longrightarrow> nodes d p = Some Dir"
  unfolding wf_disk_def by blast

lemma wf_disk_above:
  assumes "wf_disk d" and "nodes d (p @ q) \<noteq> None" and "q \<noteq> []"
  shows "nodes d p = Some Dir"
  using assms(2,3)
proof (induction q rule: rev_induct)
  case Nil
  then show ?case by simp
next
  case (snoc c q)
  then have "nodes d (p @ q) = Some Dir"
    using wf_disk_parent [OF assms(1), of "p @ q" c] by simp
  with snoc.IH show ?case by (cases "q = []") simp_all
qed

lemma walk_append:
  "walk f p (cs @ cs') = (case walk f p cs of Inl e \<Rightarrow> Inl e | Inr q \<Rightarrow> walk f q cs')"
  by (induction f p cs rule: walk.induct) (auto split: option.split node.split)

text \<open>A walk over plain components reaches the place they name, if the way there exists.\<close>

lemma walk_plain:
  assumes "\<forall>c \<in> set cs. plain c" and "\<And>i. i < length cs \<Longrightarrow> f (p @ take i cs) = Some Dir"
  shows "walk f p cs = Inr (p @ cs)"
  using assms
proof (induction cs arbitrary: p)
  case Nil
  then show ?case by simp
next
  case (Cons c cs)
  have "f p = Some Dir" using Cons.prems(2) [of 0] by simp
  moreover have "walk f (p @ [c]) cs = Inr ((p @ [c]) @ cs)"
  proof (rule Cons.IH)
    show "\<forall>c \<in> set cs. plain c" using Cons.prems(1) by simp
    show "f ((p @ [c]) @ take i cs) = Some Dir" if "i < length cs" for i
      using Cons.prems(2) [of "Suc i"] that by simp
  qed
  ultimately show ?case using Cons.prems(1) by (simp add: plain_def)
qed

text \<open>A walk over plain components that does not reach its place finds nothing or a file.\<close>

lemma walk_plain_cases:
  assumes "wf_disk d" and "\<forall>c \<in> set cs. plain c"
  shows "walk (nodes d) p cs = Inr (p @ cs) \<or>
    (\<exists>e. walk (nodes d) p cs = Inl e \<and> nodes d (p @ cs) = None)"
  using assms(2)
proof (induction cs arbitrary: p)
  case Nil
  then show ?case by simp
next
  case (Cons c cs)
  have step: "(if c = [] \<or> c = ''.'' then p else if c = ''..'' then butlast p else p @ [c]) = p @ [c]"
    using Cons.prems by (simp add: plain_def)
  show ?case
  proof (cases "nodes d p = Some Dir")
    case True
    then show ?thesis using Cons.IH [of "p @ [c]"] Cons.prems step by simp
  next
    case False
    then have "nodes d (p @ c # cs) = None"
      using wf_disk_above [OF assms(1), of p "c # cs"] by blast
    with False show ?thesis by (auto split: option.split node.split)
  qed
qed

lemma os_create_wf:
  assumes "wf_disk d" and "os_create d name = (Ret p, d')" and "nodes d (butlast p) = Some Dir"
    and "p \<noteq> []"
  shows "wf_disk d'"
proof -
  have d': "d' = d\<lparr>nodes := (nodes d)(p \<mapsto> File [])\<rparr>" and nd: "nodes d p \<noteq> Some Dir"
    using assms(2) by (auto simp: os_create_def split: sum.splits if_splits)
  have keep: "nodes d' q = Some Dir" if "nodes d q = Some Dir" for q
    using that nd d' by (cases "q = p") simp_all
  have "nodes d' q = Some Dir" if "nodes d' (q @ [c]) \<noteq> None" for q c
  proof (cases "q @ [c] = p")
    case True
    then have "q = butlast p" by (metis butlast_snoc)
    then show ?thesis using assms(3) keep by simp
  next
    case False
    then show ?thesis using that d' wf_disk_parent [OF assms(1), of q c] keep by simp
  qed
  moreover have "nodes d' [] = Some Dir" "nodes d' (cwd d') = Some Dir"
    using assms(1) keep d' by (simp_all add: wf_disk_def)
  ultimately show ?thesis unfolding wf_disk_def by blast
qed

end
