(* ===== verification/Sha1.thy ===== *)
theory Sha1
  imports Prelude
begin

text \<open>
  The parts of \<open>crypto/sha1\<close>, \<open>encoding/hex\<close> and \<open>math/big\<close> that fix the program's names:
  the SHA-1 digest of a byte string, its lower-case hexadecimal form (content ids, file
  names) and the reading of big-endian bytes as a number (ring positions). All of it
  computes.
\<close>

unbundle bit_operations_syntax

type_synonym u32 = "32 word"
type_synonym sha_state = "u32 \<times> u32 \<times> u32 \<times> u32 \<times> u32"

section \<open>Padding and blocks\<close>

fun be_bytes :: "nat \<Rightarrow> nat \<Rightarrow> bytes" where
  "be_bytes 0 n = []"
| "be_bytes (Suc k) n = be_bytes k (n div 256) @ [of_nat n]"

lemma length_be_bytes [simp]: "length (be_bytes k n) = k"
  by (induction k arbitrary: n) simp_all

definition sha1_padding :: "nat \<Rightarrow> bytes" where
  "sha1_padding len =
     0x80 # replicate ((119 - len mod 64) mod 64) 0 @ be_bytes 8 (8 * len)"

lemma sha1_padding_blocks: "64 dvd len + length (sha1_padding len)"
proof -
  define q where "q = len div 64"
  define r where "r = len mod 64"
  have len: "len = 64 * q + r" and r: "r < 64" by (simp_all add: q_def r_def)
  have "r + ((119 - r) mod 64) + 9 = (if r \<le> 55 then 64 else 128)"
  proof (cases "r \<le> 55")
    case True
    then have "119 - r = 64 + (55 - r)" and "55 - r < 64" by simp_all
    then have "(119 - r) mod 64 = 55 - r" by (simp only: mod_add_self1 mod_less)
    then show ?thesis using True by simp
  next
    case False
    with r have "119 - r < 64" by simp
    then have "(119 - r) mod 64 = 119 - r" by (rule mod_less)
    then show ?thesis using False r by simp
  qed
  moreover have "length (sha1_padding len) = (119 - r) mod 64 + 9"
    by (simp add: sha1_padding_def r_def)
  ultimately have "len + length (sha1_padding len) = 64 * q + (if r \<le> 55 then 64 else 128)"
    using len by linarith
  then show ?thesis by (simp only: dvd_add_right_iff dvd_triv_left if_split) auto
qed

fun be_word :: "bytes \<Rightarrow> u32" where
  "be_word bs = foldl (\<lambda>w b. 256 * w + ucast b) 0 bs"

fun words_of :: "bytes \<Rightarrow> u32 list" where
  "words_of (a # b # c # d # rest) = be_word [a, b, c, d] # words_of rest"
| "words_of _ = []"

section \<open>Compression\<close>

definition rotl :: "nat \<Rightarrow> u32 \<Rightarrow> u32" where
  "rotl k w = push_bit k w OR drop_bit (32 - k) w"

text \<open>The message schedule is kept newest word first.\<close>

fun schedule :: "nat \<Rightarrow> u32 list \<Rightarrow> u32 list" where
  "schedule 0 ws = ws"
| "schedule (Suc n) ws =
     schedule n (rotl 1 (ws ! 2 XOR ws ! 7 XOR ws ! 13 XOR ws ! 15) # ws)"

fun sha1_fk :: "nat \<Rightarrow> u32 \<Rightarrow> u32 \<Rightarrow> u32 \<Rightarrow> u32" where
  "sha1_fk t b c d =
     (if t < 20 then ((b AND c) OR (NOT b AND d)) + 0x5A827999
      else if t < 40 then (b XOR c XOR d) + 0x6ED9EBA1
      else if t < 60 then ((b AND c) OR (b AND d) OR (c AND d)) + 0x8F1BBCDC
      else (b XOR c XOR d) + 0xCA62C1D6)"

fun sha1_rounds :: "nat \<Rightarrow> u32 list \<Rightarrow> sha_state \<Rightarrow> sha_state" where
  "sha1_rounds t [] s = s"
| "sha1_rounds t (w # ws) (a, b, c, d, e) =
     sha1_rounds (Suc t) ws (rotl 5 a + sha1_fk t b c d + e + w, a, rotl 30 b, c, d)"

fun sha1_block :: "sha_state \<Rightarrow> u32 list \<Rightarrow> sha_state" where
  "sha1_block (a, b, c, d, e) ws =
     (case sha1_rounds 0 (rev (schedule 64 (rev ws))) (a, b, c, d, e) of
        (a', b', c', d', e') \<Rightarrow> (a + a', b + b', c + c', d + d', e + e'))"

function sha1_blocks :: "sha_state \<Rightarrow> u32 list \<Rightarrow> sha_state" where
  "sha1_blocks s ws =
     (if length ws < 16 then s else sha1_blocks (sha1_block s (take 16 ws)) (drop 16 ws))"
  by pat_completeness auto
termination
  by (relation "measure (\<lambda>(s, ws). length ws)") auto

declare sha1_blocks.simps [simp del]

definition sha1_init :: sha_state where
  "sha1_init = (0x67452301, 0xEFCDAB89, 0x98BADCFE, 0x10325476, 0xC3D2E1F0)"

fun word_bytes :: "u32 \<Rightarrow> bytes" where
  "word_bytes w = [ucast (drop_bit 24 w), ucast (drop_bit 16 w), ucast (drop_bit 8 w), ucast w]"

fun sha1_digest :: "sha_state \<Rightarrow> bytes" where
  "sha1_digest (a, b, c, d, e) =
     word_bytes a @ word_bytes b @ word_bytes c @ word_bytes d @ word_bytes e"

definition sha1 :: "bytes \<Rightarrow> bytes" where
  "sha1 m = sha1_digest (sha1_blocks sha1_init (words_of (m @ sha1_padding (length m))))"

lemma length_sha1 [simp]: "length (sha1 m) = 20"
  by (cases "sha1_blocks sha1_init (words_of (m @ sha1_padding (length m)))")
    (simp add: sha1_def)

section \<open>Hexadecimal\<close>

definition hex_digit :: "nat \<Rightarrow> char" where
  "hex_digit n = ''0123456789abcdef'' ! (n mod 16)"

fun hex :: "bytes \<Rightarrow> string" where
  "hex [] = []"
| "hex (b # bs) = hex_digit (unat b div 16) # hex_digit (unat b mod 16) # hex bs"

lemma length_hex [simp]: "length (hex bs) = 2 * length bs"
  by (induction bs) simp_all

lemma hex_digit_set: "hex_digit n \<in> set ''0123456789abcdef''"
  unfolding hex_digit_def by (rule nth_mem) simp

lemma set_hex: "set (hex bs) \<subseteq> set ''0123456789abcdef''"
proof (induction bs)
  case Nil
  show ?case by simp
next
  case (Cons b bs)
  then show ?case
    using hex_digit_set [of "unat b div 16"] hex_digit_set [of "unat b mod 16"]
    by (simp only: hex.simps list.set insert_subset)
qed

section \<open>Big-endian numbers\<close>

text \<open>\<open>big.Int.SetBytes\<close> and \<open>big.Int.Bytes\<close> (no leading zero byte).\<close>

definition set_bytes :: "bytes \<Rightarrow> nat" where
  "set_bytes bs = foldl (\<lambda>n b. 256 * n + unat b) 0 bs"

fun int_bytes :: "nat \<Rightarrow> bytes" where
  "int_bytes n = (if n = 0 then [] else int_bytes (n div 256) @ [of_nat n])"

declare int_bytes.simps [simp del]

lemma set_bytes_snoc [simp]: "set_bytes (bs @ [b]) = 256 * set_bytes bs + unat b"
  by (simp add: set_bytes_def)

lemma set_bytes_Nil [simp]: "set_bytes [] = 0"
  by (simp add: set_bytes_def)

lemma set_bytes_int_bytes [simp]: "set_bytes (int_bytes n) = n"
proof (induction n rule: int_bytes.induct)
  case (1 n)
  show ?case
  proof (cases "n = 0")
    case True
    then show ?thesis by (simp add: int_bytes.simps)
  next
    case False
    then have "set_bytes (int_bytes (n div 256)) = n div 256" by (rule "1.IH")
    moreover have "unat (of_nat n :: byte) = n mod 256" by (simp add: unat_of_nat)
    ultimately show ?thesis using False by (subst int_bytes.simps) simp
  qed
qed

lemma set_bytes_bound: "set_bytes bs < 256 ^ length bs"
proof (induction bs rule: rev_induct)
  case Nil
  then show ?case by simp
next
  case (snoc b bs)
  have "unat b < 256" using unsigned_less [of b] by simp
  with snoc show ?case by simp
qed

end
