(* ===== verification/Crypto.thy ===== *)
theory Crypto
  imports Streams Sha1
begin

text \<open>
  Encryption of file contents: \<open>crypto.go\<close>, \<open>crypto/crypto_aes.go\<close> and
  \<open>crypto/crypto_chacha20.go\<close>, with the process-wide \<open>network\<close> configuration of
  \<open>server.go\<close> that selects the cipher.

  The two ciphers themselves are parameters (\<open>primitives\<close>): the AES block function of
  \<open>crypto/aes\<close> and the key stream of \<open>golang.org/x/crypto/chacha20\<close>. Nothing is assumed of
  them: counter mode and the stream writer only exclusive-or with what they produce, and
  the theorems hold for every choice.
\<close>

section \<open>Configuration and primitives\<close>

record network =
  EncType :: string
  EncKey :: bytes
  Nonce :: bytes
  Nodes :: "string list"
  Split :: bool

text \<open>The zero value of \<open>var network Network\<close>.\<close>

definition zero_network :: network where
  "zero_network = \<lparr>EncType = [], EncKey = [], Nonce = [], Nodes = [], Split = False\<rparr>"

record primitives =
  aes_block :: "bytes \<Rightarrow> bytes \<Rightarrow> bytes"
  chacha_stream :: "bytes \<Rightarrow> bytes \<Rightarrow> nat \<Rightarrow> byte"

section \<open>Writers and the copy loop\<close>

record writer =
  written :: bytes
  werr :: "error option"

definition sink :: writer where
  "sink = \<lparr>written = [], werr = None\<rparr>"

definition write_to :: "bytes \<Rightarrow> writer \<Rightarrow> unit res \<times> writer" where
  "write_to bs w =
     (case werr w of
        Some e \<Rightarrow> (Fail e, w)
      | None \<Rightarrow> (Ret (), w\<lparr>written := written w @ bs\<rparr>))"

text \<open>
  Read into a 32 KiB buffer, transform what was read, write it, count it, until the end of
  the reader: the loop of \<open>copyStreamAES\<close>, and of \<open>io.Copy\<close> into a \<open>cipher.StreamWriter\<close>
  (\<open>f\<close> is the key stream applied at a position) or into a plain writer (\<open>f\<close> the identity).
\<close>

function copy_loop ::
  "(nat \<Rightarrow> bytes \<Rightarrow> bytes) \<Rightarrow> nat \<Rightarrow> nat \<Rightarrow> bytes list \<Rightarrow> stream_end \<Rightarrow> writer \<Rightarrow> nat res \<times> writer" where
  "copy_loop f pos nw ss en w =
     (case read_segs 32768 ss of
        None \<Rightarrow>
          (case en of
             AtEOF \<Rightarrow> (Ret nw, w)
           | Broken e \<Rightarrow> (Fail e, w)
           | Open \<Rightarrow> (Hang, w))
      | Some (bs, ss') \<Rightarrow>
          (case write_to (f pos bs) w of
             (Ret u, w') \<Rightarrow> copy_loop f (pos + length bs) (nw + length bs) ss' en w'
           | (Fail e, w') \<Rightarrow> (Fail e, w')
           | (Hang, w') \<Rightarrow> (Hang, w')
           | (Panic p, w') \<Rightarrow> (Panic p, w')))"
  by pat_completeness auto
termination
  by (relation "measure (\<lambda>(f, pos, nw, ss, en, w). length (concat ss))")
    (auto dest: read_segs_progress)

declare copy_loop.simps [simp del]

definition keystream_xor :: "(nat \<Rightarrow> byte) \<Rightarrow> nat \<Rightarrow> bytes \<Rightarrow> bytes" where
  "keystream_xor ks pos bs = map2 (\<lambda>i b. b XOR ks i) [pos..<pos + length bs] bs"

definition ctr_stream :: "(bytes \<Rightarrow> bytes) \<Rightarrow> bytes \<Rightarrow> nat \<Rightarrow> byte" where
  "ctr_stream E iv i = E (be_bytes 16 (set_bytes iv + i div 16)) ! (i mod 16)"

section \<open>\<open>crypto_aes.go\<close>\<close>

definition aes_newCipher :: "bytes \<Rightarrow> error option" where
  "aes_newCipher key =
     (if length key = 16 \<or> length key = 24 \<or> length key = 32 then None
      else Some (Errorf ''crypto/aes: invalid key size'' []))"

definition copyStreamAES ::
  "(nat \<Rightarrow> byte) \<Rightarrow> nat \<Rightarrow> stream \<Rightarrow> writer \<Rightarrow> nat res \<times> writer" where
  "copyStreamAES ks blockSize src dst =
     copy_loop (keystream_xor ks) 0 blockSize (segs src) (fin src) dst"

definition DecryptAES :: "primitives \<Rightarrow> bytes \<Rightarrow> stream \<Rightarrow> writer \<Rightarrow> nat res \<times> writer" where
  "DecryptAES P key src dst =
     (case aes_newCipher key of
        Some e \<Rightarrow> (Fail e, dst)
      | None \<Rightarrow>
          (case read 16 src of
             (Ret bs, src') \<Rightarrow>
               (let iv = bs @ replicate (16 - length bs) 0
                in copyStreamAES (ctr_stream (aes_block P key) iv) 16 src' dst)
           | (Fail e, src') \<Rightarrow> (Fail e, dst)
           | (Hang, src') \<Rightarrow> (Hang, dst)
           | (Panic p, src') \<Rightarrow> (Panic p, dst)))"

definition EncryptAES ::
  "primitives \<Rightarrow> bytes \<Rightarrow> bytes \<Rightarrow> stream \<Rightarrow> writer \<Rightarrow> nat res \<times> writer" where
  "EncryptAES P iv key src dst =
     (case aes_newCipher key of
        Some e \<Rightarrow> (Fail e, dst)
      | None \<Rightarrow>
          andthen (write_to iv dst) (\<lambda>_ dst.
            copyStreamAES (ctr_stream (aes_block P key) iv) 16 src dst))"

section \<open>\<open>crypto_chacha20.go\<close>\<close>

definition newUnauthenticatedCipher :: "bytes \<Rightarrow> bytes \<Rightarrow> error option" where
  "newUnauthenticatedCipher key nonce =
     (if length key \<noteq> 32 then Some (Errorf ''chacha20: wrong key size'' [])
      else if length nonce = 24 \<or> length nonce = 12 then None
      else Some (Errorf ''chacha20: wrong nonce size'' []))"

definition ChaCha20Encrypt ::
  "primitives \<Rightarrow> bytes \<Rightarrow> bytes \<Rightarrow> stream \<Rightarrow> writer \<Rightarrow> nat res \<times> writer" where
  "ChaCha20Encrypt P key nonce src dst =
     (case newUnauthenticatedCipher key nonce of
        Some e \<Rightarrow> (Fail e, dst)
      | None \<Rightarrow>
          copy_loop (keystream_xor (chacha_stream P key nonce)) 0 0 (segs src) (fin src) dst)"

definition ChaCha20Decrypt ::
  "primitives \<Rightarrow> bytes \<Rightarrow> bytes \<Rightarrow> stream \<Rightarrow> writer \<Rightarrow> nat res \<times> writer" where
  "ChaCha20Decrypt P key nonce src dst =
     (case newUnauthenticatedCipher key nonce of
        Some e \<Rightarrow> (Fail e, dst)
      | None \<Rightarrow>
          copy_loop (keystream_xor (chacha_stream P key nonce)) 0 0 (segs src) (fin src) dst)"

text \<open>\<open>copyStream\<close>, which nothing calls, is the same loop written out.\<close>

definition copyStream :: "(nat \<Rightarrow> byte) \<Rightarrow> stream \<Rightarrow> writer \<Rightarrow> nat res \<times> writer" where
  "copyStream ks src dst = copy_loop (keystream_xor ks) 0 0 (segs src) (fin src) dst"

lemma ChaCha20_copyStream:
  "newUnauthenticatedCipher key nonce = None \<Longrightarrow>
    ChaCha20Encrypt P key nonce src dst = copyStream (chacha_stream P key nonce) src dst"
  by (simp add: ChaCha20Encrypt_def copyStream_def)

section \<open>\<open>crypto.go\<close>\<close>

text \<open>\<open>log.Fatal\<close> ends the process.\<close>

definition GenerateCID :: "stream \<Rightarrow> string res" where
  "GenerateCID r =
     (case read_all r of
        (Ret bs, _) \<Rightarrow> Ret (hex (sha1 bs))
      | (Fail e, _) \<Rightarrow> Panic ''log.Fatal''
      | (Hang, _) \<Rightarrow> Hang
      | (Panic p, _) \<Rightarrow> Panic p)"

definition io_copy :: "stream \<Rightarrow> writer \<Rightarrow> nat res \<times> writer" where
  "io_copy src dst = copy_loop (\<lambda>_ bs. bs) 0 0 (segs src) (fin src) dst"

definition encrypt ::
  "primitives \<Rightarrow> network \<Rightarrow> bytes \<Rightarrow> stream \<Rightarrow> writer \<Rightarrow> nat res \<times> writer" where
  "encrypt P net iv src dst =
     (if EncType net = ''AES'' then
        wrapping ''failed to encrypt data'' (EncryptAES P iv (EncKey net) src dst)
      else if EncType net = ''CC20'' then
        wrapping ''failed to encrypt data'' (ChaCha20Encrypt P (EncKey net) (Nonce net) src dst)
      else if EncType net = ''None'' then
        wrapping ''failed to encrypt data'' (io_copy src dst)
      else (Ret 0, dst))"

definition decrypt ::
  "primitives \<Rightarrow> network \<Rightarrow> stream \<Rightarrow> writer \<Rightarrow> nat res \<times> writer" where
  "decrypt P net src dst =
     (if EncType net = ''AES'' then
        wrapping ''failed to decrypt data'' (DecryptAES P (EncKey net) src dst)
      else if EncType net = ''CC20'' then
        wrapping ''failed to decrypt data'' (ChaCha20Decrypt P (EncKey net) (Nonce net) src dst)
      else if EncType net = ''None'' then
        wrapping ''failed to decrypt data'' (io_copy src dst)
      else (Ret 0, dst))"

section \<open>What the loop writes\<close>

text \<open>A transformation applied piece by piece agrees with itself applied at once.\<close>

definition piecewise :: "(nat \<Rightarrow> bytes \<Rightarrow> bytes) \<Rightarrow> bool" where
  "piecewise f \<longleftrightarrow> (\<forall>pos as bs. f pos (as @ bs) = f pos as @ f (pos + length as) bs) \<and>
     (\<forall>pos. f pos [] = [])"

lemma length_keystream_xor [simp]: "length (keystream_xor ks pos bs) = length bs"
  by (simp add: keystream_xor_def)

lemma keystream_xor_Nil [simp]: "keystream_xor ks pos [] = []"
  by (simp add: keystream_xor_def)

lemma keystream_xor_Cons [simp]:
  "keystream_xor ks pos (b # bs) = (b XOR ks pos) # keystream_xor ks (Suc pos) bs"
  by (simp add: keystream_xor_def upt_conv_Cons del: upt_Suc)

lemma keystream_xor_append:
  "keystream_xor ks pos (as @ bs) = keystream_xor ks pos as @ keystream_xor ks (pos + length as) bs"
  by (induction as arbitrary: pos) simp_all

lemma keystream_xor_involution [simp]:
  "keystream_xor ks pos (keystream_xor ks pos bs) = bs"
  by (induction bs arbitrary: pos) (simp_all add: ac_simps)

lemma piecewise_xor [simp]: "piecewise (keystream_xor ks)"
  by (simp add: piecewise_def keystream_xor_append)

lemma piecewise_identity [simp]: "piecewise (\<lambda>_ bs. bs)"
  by (simp add: piecewise_def)

lemma write_ok [simp]:
  "werr w = None \<Longrightarrow> write_to bs w = (Ret (), w\<lparr>written := written w @ bs\<rparr>)"
  by (simp add: write_to_def)

lemma write_broken [simp]: "werr w = Some e \<Longrightarrow> write_to bs w = (Fail e, w)"
  by (simp add: write_to_def)

lemma copy_loop_step:
  assumes "read_segs 32768 ss = Some (bs, ss')" and "werr w = None"
  shows "copy_loop f pos nw ss en w =
    copy_loop f (pos + length bs) (nw + length bs) ss' en (w\<lparr>written := written w @ f pos bs\<rparr>)"
  using assms by (subst copy_loop.simps) simp

lemma copy_loop_EOF:
  assumes "piecewise f" and "werr w = None"
  shows "copy_loop f pos nw ss AtEOF w =
    (Ret (nw + length (concat ss)), w\<lparr>written := written w @ f pos (concat ss)\<rparr>)"
  using assms(2)
proof (induction "length (concat ss)" arbitrary: pos nw ss w rule: less_induct)
  case less
  show ?case
  proof (cases "read_segs 32768 ss")
    case None
    moreover from this have "concat ss = []" by (simp only: read_segs_None)
    ultimately show ?thesis
      using assms(1) by (simp add: copy_loop.simps piecewise_def del: concat_eq_Nil_conv)
  next
    case (Some p)
    then obtain bs ss' where r: "read_segs 32768 ss = Some (bs, ss')" by (cases p) simp
    let ?w = "w\<lparr>written := written w @ f pos bs\<rparr>"
    have "length (concat ss') < length (concat ss)" using read_segs_progress [OF r] by simp
    then have "copy_loop f (pos + length bs) (nw + length bs) ss' AtEOF ?w =
        (Ret (nw + length bs + length (concat ss')),
         ?w\<lparr>written := written ?w @ f (pos + length bs) (concat ss')\<rparr>)"
      by (rule less.hyps) (simp add: less.prems)
    with read_segs_Some(1) [OF r] copy_loop_step [OF r less.prems] assms(1)
    show ?thesis by (simp add: piecewise_def)
  qed
qed

text \<open>On a connection that stays open the copy never ends, on a broken one it fails.\<close>

lemma copy_loop_not_EOF:
  assumes "werr w = None" and "en \<noteq> AtEOF"
  shows "fst (copy_loop f pos nw ss en w) = (case en of Broken e \<Rightarrow> Fail e | _ \<Rightarrow> Hang)"
  using assms(1)
proof (induction "length (concat ss)" arbitrary: pos nw ss w rule: less_induct)
  case less
  show ?case
  proof (cases "read_segs 32768 ss")
    case None
    then show ?thesis using assms(2) by (simp add: copy_loop.simps split: stream_end.split)
  next
    case (Some p)
    then obtain bs ss' where r: "read_segs 32768 ss = Some (bs, ss')" by (cases p) simp
    have "length (concat ss') < length (concat ss)" using read_segs_progress [OF r] by simp
    then show ?thesis
      using less.hyps less.prems by (simp add: copy_loop_step [OF r])
  qed
qed

section \<open>Whole files\<close>

text \<open>
  \<open>usable net\<close>: the configuration selects a cipher and holds a key (and nonce) of a length
  the cipher takes. \<open>cipher_text\<close> is the specification: what encryption turns a file into.
\<close>

definition usable :: "network \<Rightarrow> bool" where
  "usable net \<longleftrightarrow>
     (EncType net = ''AES'' \<and> length (EncKey net) \<in> {16, 24, 32}) \<or>
     (EncType net = ''CC20'' \<and> length (EncKey net) = 32 \<and> length (Nonce net) \<in> {12, 24}) \<or>
     EncType net = ''None''"

definition cipher_text :: "primitives \<Rightarrow> network \<Rightarrow> bytes \<Rightarrow> bytes \<Rightarrow> bytes" where
  "cipher_text P net iv d =
     (if EncType net = ''AES'' then
        iv @ keystream_xor (ctr_stream (aes_block P (EncKey net)) iv) 0 d
      else if EncType net = ''CC20'' then
        keystream_xor (chacha_stream P (EncKey net) (Nonce net)) 0 d
      else d)"

definition cipher_count :: "network \<Rightarrow> bytes \<Rightarrow> nat" where
  "cipher_count net d = (if EncType net = ''AES'' then 16 + length d else length d)"

lemma length_cipher_text:
  "length iv = 16 \<Longrightarrow> length (cipher_text P net iv d) = cipher_count net d"
  by (simp add: cipher_text_def cipher_count_def)

lemma usable_cases:
  assumes "usable net"
  obtains "EncType net = ''AES''" "aes_newCipher (EncKey net) = None"
  | "EncType net = ''CC20''" "newUnauthenticatedCipher (EncKey net) (Nonce net) = None"
  | "EncType net = ''None''"
  using assms by (auto simp: usable_def aes_newCipher_def newUnauthenticatedCipher_def)

lemma encrypt_file:
  assumes "usable net" and "fin src = AtEOF" and "werr w = None"
  shows "encrypt P net iv src w =
    (Ret (cipher_count net (content src)),
     w\<lparr>written := written w @ cipher_text P net iv (content src)\<rparr>)"
  using assms(1)
proof (cases rule: usable_cases)
  case 1
  then show ?thesis
    using assms by (simp add: encrypt_def EncryptAES_def copyStreamAES_def copy_loop_EOF
        cipher_text_def cipher_count_def)
next
  case 2
  then show ?thesis
    using assms by (simp add: encrypt_def ChaCha20Encrypt_def copy_loop_EOF
        cipher_text_def cipher_count_def)
next
  case 3
  then show ?thesis
    using assms by (simp add: encrypt_def io_copy_def copy_loop_EOF
        cipher_text_def cipher_count_def)
qed

lemma read_16:
  assumes "length iv = 16"
  shows "read 16 (buffer (iv @ c)) = (Ret iv, (buffer (iv @ c))\<lparr>segs := [c]\<rparr>)"
proof (cases iv)
  case Nil
  with assms show ?thesis by simp
next
  case (Cons b bs)
  with assms show ?thesis by (simp add: read_def buffer_def)
qed

lemma decrypt_file:
  assumes "usable net" and "length iv = 16" and "werr w = None"
  shows "decrypt P net (buffer (cipher_text P net iv d)) w =
    (Ret (cipher_count net d), w\<lparr>written := written w @ d\<rparr>)"
  using assms(1)
proof (cases rule: usable_cases)
  case 1
  then show ?thesis
    using assms by (simp add: decrypt_def DecryptAES_def copyStreamAES_def copy_loop_EOF
        cipher_text_def cipher_count_def read_16)
next
  case 2
  then show ?thesis
    using assms by (simp add: decrypt_def ChaCha20Decrypt_def copy_loop_EOF
        cipher_text_def cipher_count_def)
next
  case 3
  then show ?thesis
    using assms by (simp add: decrypt_def io_copy_def copy_loop_EOF
        cipher_text_def cipher_count_def)
qed

lemma unknown_type:
  assumes "EncType net \<notin> {''AES'', ''CC20'', ''None''}"
  shows "encrypt P net iv src w = (Ret 0, w)" and "decrypt P net src w = (Ret 0, w)"
  using assms by (simp_all add: encrypt_def decrypt_def)

section \<open>The interface of the store to the cipher\<close>

text \<open>
  What the rest of the program relies on: in a good configuration a file encrypts, and the
  result decrypts to the file, whatever the initialisation vector.
\<close>

locale codec =
  fixes good :: "'c \<Rightarrow> bool"
    and ivok :: "'i \<Rightarrow> bool"
    and enc :: "'c \<Rightarrow> 'i \<Rightarrow> 'd \<Rightarrow> 'd res"
    and dec :: "'c \<Rightarrow> 'd \<Rightarrow> 'd res"
  assumes enc_total: "good c \<Longrightarrow> ivok i \<Longrightarrow> \<exists>e. enc c i d = Ret e"
    and dec_enc: "good c \<Longrightarrow> ivok i \<Longrightarrow> enc c i d = Ret e \<Longrightarrow> dec c e = Ret d"
begin

text \<open>No two files share a cipher text, even under different vectors.\<close>

lemma enc_inject:
  assumes "good c" "ivok i" "ivok j" and "enc c i x = enc c j y"
  shows "x = y"
proof -
  obtain e where e: "enc c i x = Ret e" using enc_total [OF assms(1,2)] by blast
  with assms(4) have "enc c j y = Ret e" by simp
  with e show ?thesis using dec_enc [OF assms(1,2) e] dec_enc [OF assms(1,3)] by fastforce
qed

text \<open>A file encrypted twice needs two decryptions: one gives the inner cipher text.\<close>

lemma two_layers:
  assumes "good c" "ivok i" "ivok j" and "enc c i x = Ret e" and "enc c j e = Ret f"
  shows "dec c f = Ret e" and "dec c e = Ret x"
  using assms by (simp_all add: dec_enc)

end

definition encrypt_bytes :: "primitives \<Rightarrow> network \<Rightarrow> bytes \<Rightarrow> bytes \<Rightarrow> bytes res" where
  "encrypt_bytes P net iv d =
     (case encrypt P net iv (buffer d) sink of
        (Ret n, w) \<Rightarrow> Ret (written w) | (Fail e, w) \<Rightarrow> Fail e | (Hang, w) \<Rightarrow> Hang | (Panic p, w) \<Rightarrow> Panic p)"

definition decrypt_bytes :: "primitives \<Rightarrow> network \<Rightarrow> bytes \<Rightarrow> bytes res" where
  "decrypt_bytes P net d =
     (case decrypt P net (buffer d) sink of
        (Ret n, w) \<Rightarrow> Ret (written w) | (Fail e, w) \<Rightarrow> Fail e | (Hang, w) \<Rightarrow> Hang | (Panic p, w) \<Rightarrow> Panic p)"

lemma werr_sink [simp]: "werr sink = None" and written_sink [simp]: "written sink = []"
  by (simp_all add: sink_def)

lemma encrypt_bytes_usable:
  "usable net \<Longrightarrow> encrypt_bytes P net iv d = Ret (cipher_text P net iv d)"
  by (simp add: encrypt_bytes_def encrypt_file)

lemma decrypt_bytes_usable:
  "usable net \<Longrightarrow> length iv = 16 \<Longrightarrow> decrypt_bytes P net (cipher_text P net iv d) = Ret d"
  by (simp add: decrypt_bytes_def decrypt_file)

interpretation cipher: codec usable "\<lambda>iv. length iv = 16" "encrypt_bytes P" "decrypt_bytes P" for P
  by unfold_locales (auto simp: encrypt_bytes_usable decrypt_bytes_usable)

end
