(* ===== verification/Store.thy ===== *)
theory Store
  imports Files Crypto
begin

text \<open>
  The on-disk store of \<open>store.go\<close>: content addressed paths, writing with and without
  encryption, the metadata file beside each file, reading back, deletion.

  Every content id has a directory below the root; the path transformation spreads the
  file below that, and the metadata file lies beside it:
  \<open>root/id/PathName/FileName\<close> and \<open>root/id/PathName/metadata\<close>.
\<close>

section \<open>Path keys\<close>

record pathkey =
  PathName :: string
  FileName :: string

definition CASPathTransformFunc :: "string \<Rightarrow> pathkey" where
  "CASPathTransformFunc key =
     (let hashStr = hex (sha1 (bytes_of key));
          blockSize = 5;
          sliceLen = length hashStr div blockSize;
          paths = map (\<lambda>i. take blockSize (drop (i * blockSize) hashStr)) [0..<sliceLen]
      in \<lparr>PathName = join_with (CHR ''/'') paths, FileName = hashStr\<rparr>)"

definition DefaultPathTransformFunc :: "string \<Rightarrow> pathkey" where
  "DefaultPathTransformFunc key = \<lparr>PathName = key, FileName = key\<rparr>"

definition FullPathName :: "pathkey \<Rightarrow> string" where
  "FullPathName p = PathName p @ ''/'' @ FileName p"

definition FirstPathName :: "pathkey \<Rightarrow> string" where
  "FirstPathName p =
     (let paths = split_on (CHR ''/'') (PathName p)
      in if length paths = 0 then [] else paths ! 0)"

section \<open>State and library parameters\<close>

record metadata =
  CID :: string
  FileID :: string
  MetaFileName :: string
  Part :: int
  TotalParts :: int

text \<open>The zero value \<open>Metadata{}\<close>.\<close>

definition zero_metadata :: metadata where
  "zero_metadata = \<lparr>CID = [], FileID = [], MetaFileName = [], Part = 0, TotalParts = 0\<rparr>"

text \<open>
  What the store calls outside the repository: the ciphers, and \<open>encoding/gob\<close> on a
  \<open>Metadata\<close> value.
\<close>

record store_lib =
  prims :: primitives
  gob_meta :: "metadata \<Rightarrow> bytes"
  ungob_meta :: "bytes \<Rightarrow> error + metadata"

record store =
  Root :: string
  PathTransform :: "string \<Rightarrow> pathkey"

definition DefaultRootNameFolder :: string where
  "DefaultRootNameFolder = ''rootStore''"

definition NewStore :: "string \<Rightarrow> (string \<Rightarrow> pathkey) option \<Rightarrow> store" where
  "NewStore root transform =
     \<lparr>Root = (if length root = 0 then DefaultRootNameFolder else root),
      PathTransform = (case transform of None \<Rightarrow> DefaultPathTransformFunc | Some f \<Rightarrow> f)\<rparr>"

section \<open>Operations\<close>

definition fullPathWithRoot :: "store \<Rightarrow> string \<Rightarrow> string" where
  "fullPathWithRoot s ident =
     Root s @ ''/'' @ ident @ ''/'' @ FullPathName (PathTransform s ident)"

definition metadataPath :: "store \<Rightarrow> string \<Rightarrow> string" where
  "metadataPath s ident =
     Root s @ ''/'' @ ident @ ''/'' @ PathName (PathTransform s ident) @ ''/metadata''"

definition Clear :: "store \<Rightarrow> disk \<Rightarrow> unit res \<times> disk" where
  "Clear s d = os_removeAll d (Root s)"

definition Has :: "store \<Rightarrow> disk \<Rightarrow> string \<Rightarrow> bool" where
  "Has s d ident =
     (case os_stat d (fullPathWithRoot s ident) of
        Inl e \<Rightarrow> e \<noteq> ErrNotExist
      | Inr _ \<Rightarrow> True)"

definition Delete :: "store \<Rightarrow> string \<Rightarrow> disk \<Rightarrow> unit res \<times> disk" where
  "Delete s ident d = os_removeAll d (Root s @ ''/'' @ ident)"

definition readStream :: "store \<Rightarrow> disk \<Rightarrow> string \<Rightarrow> (nat \<times> stream) res" where
  "readStream s d ident = of_sum (os_open d (fullPathWithRoot s ident))"

definition Read :: "store \<Rightarrow> disk \<Rightarrow> string \<Rightarrow> (nat \<times> stream) res" where
  "Read s d ident = readStream s d ident"

text \<open>The reader's text goes into a buffer, the count is what \<open>decrypt\<close> reports.\<close>

definition decrypt_to_buffer ::
  "store_lib \<Rightarrow> network \<Rightarrow> stream \<Rightarrow> (nat \<times> bytes) res" where
  "decrypt_to_buffer L net r =
     (case decrypt (prims L) net r sink of
        (Ret n, w) \<Rightarrow> Ret (n, written w)
      | (Fail e, w) \<Rightarrow> Fail e
      | (Hang, w) \<Rightarrow> Hang
      | (Panic p, w) \<Rightarrow> Panic p)"

definition readMetadata :: "store_lib \<Rightarrow> network \<Rightarrow> store \<Rightarrow> disk \<Rightarrow> string \<Rightarrow> metadata res" where
  "readMetadata L net s d ident =
     rbind (of_sum (os_open d (metadataPath s ident))) (\<lambda>(size, metadataFile).
     rbind (decrypt_to_buffer L net metadataFile) (\<lambda>(n, metadataBuffer).
     of_sum (ungob_meta L metadataBuffer)))"

definition ReadDecrypt ::
  "store_lib \<Rightarrow> network \<Rightarrow> store \<Rightarrow> disk \<Rightarrow> string \<Rightarrow> (nat \<times> bytes \<times> metadata) res" where
  "ReadDecrypt L net s d ident =
     rbind (readStream s d ident) (\<lambda>(size, r).
     rbind (decrypt_to_buffer L net r) (\<lambda>(n, fileBuffer).
     rbind (readMetadata L net s d ident) (\<lambda>metadata.
     Ret (n, fileBuffer, metadata))))"

text \<open>A writer whose text becomes the content of the file behind a handle.\<close>

definition into_file :: "path \<Rightarrow> disk \<Rightarrow> 'a res \<times> writer \<Rightarrow> 'a res \<times> disk" where
  "into_file p d rw = (case rw of (r, w) \<Rightarrow> (r, put_file p (written w) d))"

definition openFileForWriting :: "store \<Rightarrow> string \<Rightarrow> disk \<Rightarrow> path res \<times> disk" where
  "openFileForWriting s ident d =
     andthen (os_mkdirAll d (Root s @ ''/'' @ ident @ ''/'' @ PathName (PathTransform s ident)))
       (\<lambda>_ d. os_create d (fullPathWithRoot s ident))"

definition writeStream :: "store \<Rightarrow> string \<Rightarrow> stream \<Rightarrow> disk \<Rightarrow> nat res \<times> disk" where
  "writeStream s ident r d =
     andthen (openFileForWriting s ident d) (\<lambda>f d. into_file f d (io_copy r sink))"

definition writeMetadata ::
  "store_lib \<Rightarrow> network \<Rightarrow> bytes \<Rightarrow> store \<Rightarrow> string \<Rightarrow> string \<Rightarrow> int \<Rightarrow> int \<Rightarrow> disk \<Rightarrow> unit res \<times> disk" where
  "writeMetadata L net iv s ident key part totalParts d =
     andthen (os_create d (metadataPath s ident)) (\<lambda>metadataFile d.
       (let md = \<lparr>CID = ident, FileID = FileName (PathTransform s ident),
                  MetaFileName = key, Part = part, TotalParts = totalParts\<rparr>
        in andthen (into_file metadataFile d
             (encrypt (prims L) net iv (buffer (gob_meta L md)) sink))
             (\<lambda>n d. (Ret (), d))))"

definition Write ::
  "store_lib \<Rightarrow> network \<Rightarrow> bytes \<Rightarrow> store \<Rightarrow> string \<Rightarrow> string \<Rightarrow> stream \<Rightarrow> int \<Rightarrow> int \<Rightarrow> disk
    \<Rightarrow> nat res \<times> disk" where
  "Write L net iv s ident key r part totalParts d =
     andthen (writeStream s ident r d) (\<lambda>n d.
     andthen (writeMetadata L net iv s ident key part totalParts d) (\<lambda>_ d.
     (Ret n, d)))"

definition WriteEncrypt ::
  "store_lib \<Rightarrow> network \<Rightarrow> bytes \<Rightarrow> bytes \<Rightarrow> store \<Rightarrow> string \<Rightarrow> string \<Rightarrow> stream \<Rightarrow> int \<Rightarrow> int \<Rightarrow> disk
    \<Rightarrow> nat res \<times> disk" where
  "WriteEncrypt L net iv iv' s ident key r part totalParts d =
     andthen (openFileForWriting s ident d) (\<lambda>f d.
     andthen (into_file f d (encrypt (prims L) net iv r sink)) (\<lambda>n d.
     andthen (writeMetadata L net iv' s ident key part totalParts d) (\<lambda>_ d.
     (Ret n, d))))"

end
