(* ===== verification/Store_Laws.thy ===== *)
theory Store_Laws
  imports Store
begin

text \<open>
  What the store promises. A place for every content id, the shape of a store's part of the
  disk as an invariant, and the effect of writing on it; from these the laws of a store
  (read back what was written, other ids untouched, deletion) for any path transformation
  that has the shape the code's one has. The interface \<open>path_transform\<close> is interpreted on
  \<open>CASPathTransformFunc\<close>.
\<close>

section \<open>Places\<close>

definition base :: "store \<Rightarrow> disk \<Rightarrow> path" where
  "base s d = cwd d @ [Root s]"

definition parts_of :: "pathkey \<Rightarrow> string list" where
  "parts_of p = split_on (CHR ''/'') (PathName p)"

definition dir_of :: "store \<Rightarrow> disk \<Rightarrow> string \<Rightarrow> path" where
  "dir_of s d ident = base s d @ ident # parts_of (PathTransform s ident)"

definition data_at :: "store \<Rightarrow> disk \<Rightarrow> string \<Rightarrow> path" where
  "data_at s d ident = dir_of s d ident @ [FileName (PathTransform s ident)]"

definition meta_at :: "store \<Rightarrow> disk \<Rightarrow> string \<Rightarrow> path" where
  "meta_at s d ident = dir_of s d ident @ [''metadata'']"

text \<open>
  The part of the disk below the root: directories at the upper levels, files exactly at
  the level the path transformation puts them on.
\<close>

definition store_inv :: "nat \<Rightarrow> store \<Rightarrow> disk \<Rightarrow> bool" where
  "store_inv k s d \<longleftrightarrow>
     wf_disk d \<and> plain (Root s) \<and>
     (\<forall>q bs. nodes d (base s d @ q) = Some (File bs) \<longrightarrow> length q = k + 2) \<and>
     (\<forall>q. nodes d (base s d @ q) = Some Dir \<longrightarrow> length q < k + 2)"

lemma store_inv_wf: "store_inv k s d \<Longrightarrow> wf_disk d"
  and store_inv_root: "store_inv k s d \<Longrightarrow> plain (Root s)"
  and store_inv_file: "store_inv k s d \<Longrightarrow> nodes d (base s d @ q) = Some (File bs) \<Longrightarrow> length q = k + 2"
  and store_inv_dir: "store_inv k s d \<Longrightarrow> nodes d (base s d @ q) = Some Dir \<Longrightarrow> length q < k + 2"
  by (simp_all add: store_inv_def)

lemma start_plain: "plain c \<Longrightarrow> start d (c @ rest) = cwd d"
  by (cases c) (auto simp: plain_def start_def)

lemma resolve_plain:
  assumes "plain c"
  shows "resolve d (c @ CHR ''/'' # rest) =
    walk (nodes d) (cwd d) (c # split_on (CHR ''/'') rest)"
proof -
  have "split_on (CHR ''/'') c = [c]" and "c \<noteq> []"
    using assms by (simp_all add: plain_def split_on_single)
  then show ?thesis
    by (simp add: resolve_def start_plain [OF assms] split_on_append)
qed

section \<open>Creating directories\<close>

text \<open>Making the directories of a plain path with no file in the way.\<close>

definition with_dirs :: "path \<Rightarrow> string list \<Rightarrow> (path \<Rightarrow> node option) \<Rightarrow> path \<Rightarrow> node option" where
  "with_dirs p cs f = (\<lambda>q. if \<exists>i<length cs. q = p @ take (Suc i) cs then Some Dir else f q)"

lemma mkdirs_plain:
  assumes "\<forall>c \<in> set cs. plain c" and "\<And>i bs. f (p @ take i cs) \<noteq> Some (File bs)"
  shows "mkdirs f p cs = (Ret (), with_dirs p cs f)"
  using assms
proof (induction cs arbitrary: f p)
  case Nil
  then show ?case by (simp add: with_dirs_def)
next
  case (Cons c cs)
  define g where "g = f(p @ [c] \<mapsto> Dir)"
  have c: "c \<noteq> []" "c \<noteq> ''.''" "c \<noteq> ''..''" using Cons.prems(1) by (simp_all add: plain_def)
  have nf: "f ((p @ [c]) @ take i cs) \<noteq> Some (File bs)" for i bs
    using Cons.prems(2) [of "Suc i"] by simp
  have eq: "mkdirs f p (c # cs) = mkdirs g (p @ [c]) cs"
  proof (cases "f (p @ [c])")
    case None
    then show ?thesis using c by (simp add: g_def)
  next
    case (Some nd)
    then have "nd = Dir" using nf [of 0] by (cases nd) auto
    then show ?thesis using c Some by (simp add: g_def fun_upd_idem)
  qed
  have "mkdirs g (p @ [c]) cs = (Ret (), with_dirs (p @ [c]) cs g)"
  proof (rule Cons.IH)
    show "\<forall>c \<in> set cs. plain c" using Cons.prems(1) by simp
    show "g ((p @ [c]) @ take i cs) \<noteq> Some (File bs)" for i bs
      using nf [of i bs] by (simp add: g_def)
  qed
  moreover have "with_dirs (p @ [c]) cs g = with_dirs p (c # cs) f"
  proof
    fix q
    show "with_dirs (p @ [c]) cs g q = with_dirs p (c # cs) f q"
      by (auto simp: with_dirs_def Ex_less_Suc2 g_def)
  qed
  ultimately show ?case using eq by simp
qed

lemma with_dirs_other:
  "\<not> prefix q (p @ cs) \<Longrightarrow> with_dirs p cs f q = f q"
  by (auto simp: with_dirs_def prefix_def) (metis append.assoc append_take_drop_id)

lemma with_dirs_Dir [simp]: "f q = Some Dir \<Longrightarrow> with_dirs p cs f q = Some Dir"
  by (simp add: with_dirs_def)

lemma with_dirs_on:
  assumes "f p = Some Dir" and "i \<le> length cs"
  shows "with_dirs p cs f (p @ take i cs) = Some Dir"
proof (cases i)
  case 0
  then show ?thesis using assms(1) by simp
next
  case (Suc j)
  then have "\<exists>i<length cs. p @ take (Suc j) cs = p @ take (Suc i) cs"
    using assms(2) by (intro exI [of _ j]) simp
  then show ?thesis unfolding with_dirs_def Suc by (rule if_P)
qed

lemma with_dirs_File: "with_dirs p cs f q = Some (File bs) \<Longrightarrow> f q = Some (File bs)"
  by (simp add: with_dirs_def split: if_splits)

lemma with_dirs_cases:
  "with_dirs p cs f q = Some nd \<Longrightarrow> f q = Some nd \<or> (nd = Dir \<and> (\<exists>i<length cs. q = p @ take (Suc i) cs))"
  by (auto simp: with_dirs_def split: if_splits)

lemma with_dirs_wf:
  assumes "wf_disk d" and "nodes d p = Some Dir"
  shows "wf_disk (d\<lparr>nodes := with_dirs p cs (nodes d)\<rparr>)"
proof -
  have "with_dirs p cs (nodes d) q = Some Dir" if q: "with_dirs p cs (nodes d) (q @ [c]) \<noteq> None" for q c
  proof (cases "\<exists>i<length cs. q @ [c] = p @ take (Suc i) cs")
    case True
    then obtain j where j: "j < length cs" "q @ [c] = p @ take (Suc j) cs" by auto
    then have "q = p @ take j cs" by (simp add: take_Suc_conv_app_nth)
    then show ?thesis using with_dirs_on [where f = "nodes d", OF assms(2), of j cs] j(1) by simp
  next
    case False
    then have "with_dirs p cs (nodes d) (q @ [c]) = nodes d (q @ [c])"
      unfolding with_dirs_def by (rule if_not_P)
    then show ?thesis using q wf_disk_parent [OF assms(1), of q c] by simp
  qed
  moreover have "nodes d [] = Some Dir" "nodes d (cwd d) = Some Dir"
    using assms(1) by (simp_all add: wf_disk_def)
  ultimately show ?thesis by (simp add: wf_disk_def)
qed

section \<open>Writing one entry\<close>

definition entry_path :: "store \<Rightarrow> string \<Rightarrow> string list" where
  "entry_path s ident = Root s # ident # parts_of (PathTransform s ident)"

definition prepared :: "store \<Rightarrow> string \<Rightarrow> disk \<Rightarrow> disk" where
  "prepared s ident d = d\<lparr>nodes := with_dirs (cwd d) (entry_path s ident) (nodes d)\<rparr>"

text \<open>The disk after an entry was written: its directories, its two files, nothing else.\<close>

definition stored :: "store \<Rightarrow> string \<Rightarrow> bytes \<Rightarrow> bytes \<Rightarrow> disk \<Rightarrow> disk" where
  "stored s ident c m d =
     put_file (meta_at s d ident) m (put_file (data_at s d ident) c (prepared s ident d))"

lemma cwd_simps [simp]:
  "cwd (put_file p bs d) = cwd d" "cwd (prepared s ident d) = cwd d" "cwd (stored s ident c m d) = cwd d"
  by (simp_all add: put_file_def prepared_def stored_def)

lemma place_cwd:
  assumes "cwd d' = cwd d"
  shows "base s d' = base s d" "dir_of s d' ident = dir_of s d ident"
    "data_at s d' ident = data_at s d ident" "meta_at s d' ident = meta_at s d ident"
  using assms by (simp_all add: base_def dir_of_def data_at_def meta_at_def)

lemma place_put [simp]:
  "base s (put_file p bs d) = base s d" "dir_of s (put_file p bs d) ident = dir_of s d ident"
  "data_at s (put_file p bs d) ident = data_at s d ident"
  "meta_at s (put_file p bs d) ident = meta_at s d ident"
  "base s (prepared s' i d) = base s d" "dir_of s (prepared s' i d) ident = dir_of s d ident"
  "data_at s (prepared s' i d) ident = data_at s d ident"
  "meta_at s (prepared s' i d) ident = meta_at s d ident"
  "base s (stored s' i c m d) = base s d" "dir_of s (stored s' i c m d) ident = dir_of s d ident"
  "data_at s (stored s' i c m d) ident = data_at s d ident"
  "meta_at s (stored s' i c m d) ident = meta_at s d ident"
  by (rule place_cwd; simp)+

lemma nodes_put_file [simp]:
  "nodes (put_file p bs d) = (nodes d)(p \<mapsto> File bs)"
  by (simp add: put_file_def)

lemma put_put_file [simp]: "put_file p bs (put_file p bs' d) = put_file p bs d"
  by (simp add: put_file_def)

lemma dir_of_entry: "dir_of s d ident = cwd d @ entry_path s ident"
  by (simp add: dir_of_def base_def entry_path_def)

text \<open>The disk after an entry was deleted.\<close>

definition removed :: "store \<Rightarrow> string \<Rightarrow> disk \<Rightarrow> disk" where
  "removed s i d = d\<lparr>nodes := remove_below (base s d @ [i]) (nodes d)\<rparr>"

text \<open>The metadata record written beside a file.\<close>

definition metadata_for :: "store \<Rightarrow> string \<Rightarrow> string \<Rightarrow> int \<Rightarrow> int \<Rightarrow> metadata" where
  "metadata_for s ident key part tot =
     \<lparr>CID = ident, FileID = FileName (PathTransform s ident), MetaFileName = key,
      Part = part, TotalParts = tot\<rparr>"

locale path_transform =
  fixes T :: "string \<Rightarrow> pathkey" and k :: nat
  assumes parts_length: "length (parts_of (T x)) = k"
    and parts_plain: "c \<in> set (parts_of (T x)) \<Longrightarrow> plain c"
    and file_plain: "plain (FileName (T x))"
    and file_not_meta: "FileName (T x) \<noteq> ''metadata''"
begin

lemma entry_plain:
  assumes "PathTransform s = T" and "plain (Root s)" and "plain ident"
  shows "\<forall>c \<in> set (entry_path s ident). plain c"
  using assms parts_plain by (auto simp: entry_path_def)

lemma no_file_above:
  assumes "PathTransform s = T" and inv: "store_inv k s d"
  shows "nodes d (cwd d @ take i (entry_path s ident)) \<noteq> Some (File bs)"
proof (cases i)
  case 0
  then show ?thesis using store_inv_wf [OF inv] by (simp add: wf_disk_def)
next
  case (Suc j)
  show ?thesis
  proof
    assume "nodes d (cwd d @ take i (entry_path s ident)) = Some (File bs)"
    then have "nodes d (base s d @ take j (ident # parts_of (T ident))) = Some (File bs)"
      using Suc assms(1) by (simp add: entry_path_def base_def)
    then have "length (take j (ident # parts_of (T ident))) = k + 2"
      by (rule store_inv_file [OF inv])
    then show False by (simp add: parts_length min_def split: if_splits)
  qed
qed

lemma entry_string:
  "Root s @ ''/'' @ ident @ ''/'' @ PathName (PathTransform s ident) =
     Root s @ CHR ''/'' # ident @ CHR ''/'' # PathName (PathTransform s ident)"
  by simp

lemma mkdirAll_entry:
  assumes T: "PathTransform s = T" and inv: "store_inv k s d" and "plain ident"
  shows "os_mkdirAll d (Root s @ ''/'' @ ident @ ''/'' @ PathName (PathTransform s ident)) =
    (Ret (), prepared s ident d)"
proof -
  have sp: "split_on (CHR ''/'') (Root s @ ''/'' @ ident @ ''/'' @ PathName (PathTransform s ident)) =
      entry_path s ident"
    using store_inv_root [OF inv] assms(3)
    by (simp add: split_on_append split_on_single entry_path_def parts_of_def plain_def)
  have st: "start d (Root s @ ''/'' @ ident @ ''/'' @ PathName (PathTransform s ident)) = cwd d"
    by (rule start_plain [OF store_inv_root [OF inv]])
  have "mkdirs (nodes d) (cwd d) (entry_path s ident) =
      (Ret (), with_dirs (cwd d) (entry_path s ident) (nodes d))"
  proof (rule mkdirs_plain)
    show "\<forall>c \<in> set (entry_path s ident). plain c"
      using T store_inv_root [OF inv] assms(3) by (rule entry_plain)
    show "nodes d (cwd d @ take i (entry_path s ident)) \<noteq> Some (File bs)" for i bs
      using T inv by (rule no_file_above)
  qed
  then show ?thesis by (simp only: os_mkdirAll_def sp st prepared_def prod.case)
qed

lemma prepared_dir:
  assumes "store_inv k s d"
  shows "nodes (prepared s ident d) (dir_of s d ident) = Some Dir"
  using with_dirs_on [where f = "nodes d" and p = "cwd d" and cs = "entry_path s ident"
      and i = "length (entry_path s ident)"] store_inv_wf [OF assms]
  by (simp add: prepared_def dir_of_entry wf_disk_def)

lemma prepared_inv:
  assumes T: "PathTransform s = T" and inv: "store_inv k s d"
  shows "store_inv k s (prepared s ident d)"
proof -
  have wf: "wf_disk (prepared s ident d)"
    unfolding prepared_def
    by (rule with_dirs_wf [OF store_inv_wf [OF inv]])
      (use store_inv_wf [OF inv] in \<open>simp add: wf_disk_def\<close>)
  have "length q = k + 2" if "nodes (prepared s ident d) (base s d @ q) = Some (File bs)" for q bs
    using that store_inv_file [OF inv] by (auto simp: prepared_def dest: with_dirs_File)
  moreover have "length q < k + 2" if q: "nodes (prepared s ident d) (base s d @ q) = Some Dir" for q
  proof -
    have "nodes d (base s d @ q) = Some Dir \<or>
        (\<exists>i<length (entry_path s ident). base s d @ q = cwd d @ take (Suc i) (entry_path s ident))"
      using q with_dirs_cases [of "cwd d" "entry_path s ident" "nodes d" "base s d @ q" Dir]
      by (auto simp: prepared_def)
    then show ?thesis
    proof
      assume "nodes d (base s d @ q) = Some Dir"
      then show ?thesis by (rule store_inv_dir [OF inv])
    next
      assume "\<exists>i<length (entry_path s ident). base s d @ q = cwd d @ take (Suc i) (entry_path s ident)"
      then obtain i where "q = take i (ident # parts_of (T ident))"
        using T by (auto simp: base_def entry_path_def)
      then show ?thesis by (simp add: parts_length)
    qed
  qed
  ultimately show ?thesis
    using wf store_inv_root [OF inv] by (simp add: store_inv_def)
qed

text \<open>Creating a file in a directory of an entry, and what stays true.\<close>

lemma create_in_entry:
  assumes T: "PathTransform s = T" and inv: "store_inv k s d" and "plain ident" and "plain n"
    and dir: "nodes d (dir_of s d ident) = Some Dir"
  shows "os_create d (Root s @ ''/'' @ ident @ ''/'' @ PathName (PathTransform s ident) @ ''/'' @ n) =
    (Ret (dir_of s d ident @ [n]), put_file (dir_of s d ident @ [n]) [] d)"
proof -
  have root: "plain (Root s)" using inv by (rule store_inv_root)
  have sp: "split_on (CHR ''/'')
        (ident @ CHR ''/'' # PathName (PathTransform s ident) @ CHR ''/'' # n) =
      ident # parts_of (PathTransform s ident) @ [n]"
    using assms(3,4) by (simp add: split_on_append split_on_single parts_of_def plain_def)
  have "walk (nodes d) (cwd d) (entry_path s ident @ [n]) = Inr (cwd d @ entry_path s ident @ [n])"
  proof (rule walk_plain)
    show "\<forall>c \<in> set (entry_path s ident @ [n]). plain c"
      using entry_plain [OF T root assms(3)] assms(4) by simp
    fix i assume "i < length (entry_path s ident @ [n])"
    then have i: "i \<le> length (entry_path s ident)" by simp
    show "nodes d (cwd d @ take i (entry_path s ident @ [n])) = Some Dir"
    proof (cases "i = length (entry_path s ident)")
      case True
      then show ?thesis using dir by (simp add: dir_of_entry)
    next
      case False
      have "dir_of s d ident = (cwd d @ take i (entry_path s ident)) @ drop i (entry_path s ident)"
        by (simp add: dir_of_entry)
      then show ?thesis
        using wf_disk_above [OF store_inv_wf [OF inv], of "cwd d @ take i (entry_path s ident)"
            "drop i (entry_path s ident)"] dir False i by simp
    qed
  qed
  then have "resolve d (Root s @ CHR ''/'' # ident @ ''/'' @ PathName (PathTransform s ident) @ ''/'' @ n) =
      Inr (dir_of s d ident @ [n])"
    by (simp add: resolve_plain [OF root] sp entry_path_def dir_of_entry del: walk.simps)
  moreover have "nodes d (dir_of s d ident @ [n]) \<noteq> Some Dir"
    using store_inv_dir [OF inv, of "ident # parts_of (T ident) @ [n]"] T
    by (auto simp: dir_of_def parts_length)
  ultimately show ?thesis by (simp add: os_create_def put_file_def)
qed

lemma put_in_entry_inv:
  assumes T: "PathTransform s = T" and inv: "store_inv k s d"
    and dir: "nodes d (dir_of s d ident) = Some Dir"
  shows "store_inv k s (put_file (dir_of s d ident @ [n]) bs d)"
proof -
  let ?p = "dir_of s d ident @ [n]"
  have nd: "nodes d ?p \<noteq> Some Dir"
    using store_inv_dir [OF inv, of "ident # parts_of (T ident) @ [n]"] T
    by (auto simp: dir_of_def parts_length)
  have keep: "nodes (put_file ?p bs d) q = Some Dir \<longleftrightarrow> nodes d q = Some Dir" for q
    using nd by auto
  have "nodes (put_file ?p bs d) q = Some Dir" if "nodes (put_file ?p bs d) (q @ [c]) \<noteq> None" for q c
    using that dir keep wf_disk_parent [OF store_inv_wf [OF inv], of q c] by (auto split: if_splits)
  then have "wf_disk (put_file ?p bs d)"
    using store_inv_wf [OF inv] keep by (simp add: wf_disk_def del: nodes_put_file)
  moreover have "length q = k + 2" if "nodes (put_file ?p bs d) (base s d @ q) = Some (File cs)" for q cs
  proof (cases "base s d @ q = ?p")
    case True
    then have "q = ident # parts_of (T ident) @ [n]" using T by (simp add: dir_of_def)
    then show ?thesis by (simp add: parts_length)
  next
    case False
    then show ?thesis using that store_inv_file [OF inv] by simp
  qed
  ultimately show ?thesis
    using keep inv by (simp add: store_inv_def del: nodes_put_file)
qed

lemma put_in_entry_dir:
  "nodes d (dir_of s d ident) = Some Dir \<Longrightarrow>
     nodes (put_file (dir_of s d ident @ [n]) bs d) (dir_of s d ident) = Some Dir"
  by simp

lemma stored_inv:
  assumes "PathTransform s = T" and "store_inv k s d"
  shows "store_inv k s (stored s ident c m d)"
proof -
  let ?d1 = "prepared s ident d"
  let ?d2 = "put_file (data_at s d ident) c ?d1"
  have dir1: "nodes ?d1 (dir_of s ?d1 ident) = Some Dir"
    using prepared_dir [OF assms(2)] by simp
  have inv2: "store_inv k s ?d2"
    using put_in_entry_inv [OF assms(1) prepared_inv [OF assms] dir1] by (simp add: data_at_def)
  have "nodes ?d2 (dir_of s ?d2 ident) = Some Dir" using dir1 by (simp add: data_at_def)
  from put_in_entry_inv [OF assms(1) inv2 this] show ?thesis
    by (simp add: stored_def meta_at_def)
qed

section \<open>Effects of the operations\<close>

lemma open_effect:
  assumes "PathTransform s = T" and "store_inv k s d" and "plain ident"
  shows "openFileForWriting s ident d =
    (Ret (data_at s d ident), put_file (data_at s d ident) [] (prepared s ident d))"
  using create_in_entry [OF assms(1) prepared_inv [OF assms(1,2)] assms(3) file_plain,
      of ident ident] prepared_dir [OF assms(2), of ident] assms(1)
    mkdirAll_entry [OF assms]
  by (simp add: openFileForWriting_def fullPathWithRoot_def FullPathName_def data_at_def)

lemma writeMetadata_effect:
  assumes "PathTransform s = T" and "store_inv k s d" and "plain ident"
    and "nodes d (dir_of s d ident) = Some Dir"
    and "encrypt (prims L) net iv (buffer (gob_meta L (metadata_for s ident key part tot))) sink =
      (Ret n, w)"
  shows "writeMetadata L net iv s ident key part tot d =
    (Ret (), put_file (meta_at s d ident) (written w) d)"
  using create_in_entry [OF assms(1,2,3) _ assms(4), of "''metadata''"] assms(5)
  by (simp add: writeMetadata_def metadataPath_def metadata_for_def [symmetric] into_file_def
      meta_at_def plain_def)

lemma WriteEncrypt_effect:
  assumes "PathTransform s = T" and "store_inv k s d" and "plain ident"
    and "encrypt (prims L) net iv r sink = (Ret n, w)"
    and "encrypt (prims L) net iv' (buffer (gob_meta L (metadata_for s ident key part tot))) sink =
      (Ret n', w')"
  shows "WriteEncrypt L net iv iv' s ident key r part tot d =
    (Ret n, stored s ident (written w) (written w') d)"
proof -
  let ?d = "put_file (data_at s d ident) (written w) (prepared s ident d)"
  have dir: "nodes (prepared s ident d) (dir_of s (prepared s ident d) ident) = Some Dir"
    using prepared_dir [OF assms(2)] by simp
  have "store_inv k s ?d"
    using put_in_entry_inv [OF assms(1) prepared_inv [OF assms(1,2)] dir] by (simp add: data_at_def)
  moreover have "nodes ?d (dir_of s ?d ident) = Some Dir" using dir by (simp add: data_at_def)
  ultimately have "writeMetadata L net iv' s ident key part tot ?d =
      (Ret (), put_file (meta_at s ?d ident) (written w') ?d)"
    by (rule writeMetadata_effect [OF assms(1) _ assms(3) _ assms(5)])
  then show ?thesis
    by (simp add: WriteEncrypt_def open_effect [OF assms(1,2,3)] assms(4) into_file_def stored_def)
qed

text \<open>Looking an entry's file up finds it or nothing: no file is in the way.\<close>

lemma walk_no_file:
  assumes "wf_disk d" and "\<forall>c \<in> set cs. plain c"
    and "\<And>i bs. i < length cs \<Longrightarrow> nodes d (p @ take i cs) \<noteq> Some (File bs)"
  shows "walk (nodes d) p cs = Inr (p @ cs) \<or>
    walk (nodes d) p cs = Inl ErrNotExist \<and> nodes d (p @ cs) = None"
  using assms(2,3)
proof (induction cs arbitrary: p)
  case Nil
  then show ?case by simp
next
  case (Cons c cs)
  have step: "(if c = [] \<or> c = ''.'' then p else if c = ''..'' then butlast p else p @ [c]) = p @ [c]"
    using Cons.prems(1) by (simp add: plain_def)
  have rest: "nodes d ((p @ [c]) @ take i cs) \<noteq> Some (File bs)" if "i < length cs" for i bs
    using Cons.prems(2) [of "Suc i" bs] that by simp
  consider "nodes d p = Some Dir" | "nodes d p = None"
    using Cons.prems(2) [of 0] by (cases "nodes d p") (auto intro: node.exhaust)
  then show ?case
  proof cases
    case 1
    then show ?thesis using Cons.IH [of "p @ [c]"] Cons.prems(1) rest step by simp
  next
    case 2
    then have "nodes d (p @ c # cs) = None"
      using wf_disk_above [OF assms(1), of p "c # cs"] by fastforce
    with 2 show ?thesis by simp
  qed
qed

lemma stat_entry:
  assumes T: "PathTransform s = T" and inv: "store_inv k s d" and "plain ident" and "plain n"
  shows "os_stat d (Root s @ ''/'' @ ident @ ''/'' @ PathName (PathTransform s ident) @ ''/'' @ n) =
    (case nodes d (dir_of s d ident @ [n]) of None \<Rightarrow> Inl ErrNotExist | Some nd \<Rightarrow> Inr nd)"
proof -
  let ?cs = "entry_path s ident @ [n]"
  have root: "plain (Root s)" using inv by (rule store_inv_root)
  have sp: "split_on (CHR ''/'')
        (ident @ CHR ''/'' # PathName (PathTransform s ident) @ CHR ''/'' # n) =
      ident # parts_of (PathTransform s ident) @ [n]"
    using assms(3,4) by (simp add: split_on_append split_on_single parts_of_def plain_def)
  have res: "resolve d (Root s @ ''/'' @ ident @ ''/'' @ PathName (PathTransform s ident) @ ''/'' @ n) =
      walk (nodes d) (cwd d) ?cs"
    by (simp add: resolve_plain [OF root] sp entry_path_def del: walk.simps)
  have "walk (nodes d) (cwd d) ?cs = Inr (cwd d @ ?cs) \<or>
      walk (nodes d) (cwd d) ?cs = Inl ErrNotExist \<and> nodes d (cwd d @ ?cs) = None"
  proof (rule walk_no_file [OF store_inv_wf [OF inv]])
    show "\<forall>c \<in> set ?cs. plain c" using entry_plain [OF T root assms(3)] assms(4) by simp
    show "nodes d (cwd d @ take i ?cs) \<noteq> Some (File bs)" if "i < length ?cs" for i bs
      using no_file_above [OF T inv, of i ident bs] that by (simp del: not_None_eq)
  qed
  then show ?thesis
    unfolding os_stat_def res by (auto simp: dir_of_entry split: option.split)
qed

lemma Has_iff:
  assumes "PathTransform s = T" and "store_inv k s d" and "plain ident"
  shows "Has s d ident \<longleftrightarrow> nodes d (data_at s d ident) \<noteq> None"
  using stat_entry [OF assms file_plain, of ident] assms(1)
  by (simp add: Has_def fullPathWithRoot_def FullPathName_def data_at_def split: option.split)

lemma open_entry:
  assumes "PathTransform s = T" and "store_inv k s d" and "plain ident" and "plain n"
    and "nodes d (dir_of s d ident @ [n]) = Some (File bs)"
  shows "os_open d (Root s @ ''/'' @ ident @ ''/'' @ PathName (PathTransform s ident) @ ''/'' @ n) =
    Inr (length bs, buffer bs)"
  using stat_entry [OF assms(1-4)] assms(5) by (simp add: os_open_def)

lemma readStream_entry:
  assumes "PathTransform s = T" and "store_inv k s d" and "plain ident"
    and "nodes d (data_at s d ident) = Some (File c)"
  shows "readStream s d ident = Ret (length c, buffer c)"
  using open_entry [OF assms(1-3) file_plain [of ident]] assms(1,4)
  by (simp add: readStream_def fullPathWithRoot_def FullPathName_def data_at_def)

lemma readStream_missing:
  assumes "PathTransform s = T" and "store_inv k s d" and "plain ident"
    and "nodes d (data_at s d ident) = None"
  shows "readStream s d ident = Fail ErrNotExist"
  using stat_entry [OF assms(1-3) file_plain [of ident]] assms(1,4)
  by (simp add: readStream_def os_open_def fullPathWithRoot_def FullPathName_def data_at_def)

lemma readMetadata_entry:
  assumes "PathTransform s = T" and "store_inv k s d" and "plain ident"
    and "nodes d (meta_at s d ident) = Some (File m)"
  shows "readMetadata L net s d ident =
    rbind (decrypt_to_buffer L net (buffer m)) (\<lambda>(n, b). of_sum (ungob_meta L b))"
  using open_entry [OF assms(1-3), of "''metadata''" m] assms(4)
  by (simp add: readMetadata_def metadataPath_def meta_at_def plain_def)

section \<open>Reading back, other entries, deletion\<close>

lemma data_not_meta: "PathTransform s = T \<Longrightarrow> data_at s d i \<noteq> meta_at s d j"
proof
  assume T: "PathTransform s = T" and "data_at s d i = meta_at s d j"
  then have "last (data_at s d i) = last (meta_at s d j)" by simp
  then show False using T file_not_meta by (simp add: data_at_def meta_at_def)
qed

lemma stored_data [simp]:
  "PathTransform s = T \<Longrightarrow> nodes (stored s i c m d) (data_at s d i) = Some (File c)"
  using data_not_meta by (simp add: stored_def)

lemma stored_meta [simp]: "nodes (stored s i c m d) (meta_at s d i) = Some (File m)"
  by (simp add: stored_def)

lemma entry_places_distinct:
  assumes "i \<noteq> j"
  shows "dir_of s d i @ q \<noteq> dir_of s d j @ q'"
  using assms by (simp add: dir_of_def)

lemma prepared_other:
  assumes "i \<noteq> j"
  shows "nodes (prepared s i d) (dir_of s d j @ q) = nodes d (dir_of s d j @ q)"
proof -
  have "\<not> prefix (dir_of s d j @ q) (cwd d @ entry_path s i)"
    using assms by (auto simp: dir_of_entry entry_path_def prefix_def)
  then show ?thesis by (simp add: prepared_def with_dirs_other)
qed

lemma stored_other:
  assumes "i \<noteq> j"
  shows "nodes (stored s i c m d) (data_at s d j) = nodes d (data_at s d j)"
    "nodes (stored s i c m d) (meta_at s d j) = nodes d (meta_at s d j)"
  using entry_places_distinct [OF assms, of s d "[]" "[]"] prepared_other [OF assms]
  by (simp_all add: stored_def data_at_def meta_at_def)

lemma removed_places:
  "nodes (removed s i d) (dir_of s d i @ q) = None"
  "i \<noteq> j \<Longrightarrow> nodes (removed s i d) (dir_of s d j @ q) = nodes d (dir_of s d j @ q)"
proof -
  show "nodes (removed s i d) (dir_of s d i @ q) = None"
    by (simp add: removed_def remove_below_def dir_of_def)
  show "nodes (removed s i d) (dir_of s d j @ q) = nodes d (dir_of s d j @ q)" if "i \<noteq> j"
    using that by (simp add: removed_def remove_below_def dir_of_def)
qed

lemma Delete_effect:
  assumes inv: "store_inv k s d" and i: "plain i"
  shows "Delete s i d = (Ret (), removed s i d)"
proof -
  have wf: "wf_disk d" using inv by (rule store_inv_wf)
  have root: "plain (Root s)" using inv by (rule store_inv_root)
  have sp: "split_on (CHR ''/'') (Root s @ ''/'' @ i) = [Root s, i]"
    using root i by (simp add: split_on_append split_on_single plain_def)
  have dot: "i \<noteq> ''.''" "i \<noteq> ''..''" "Root s @ ''/'' @ i \<noteq> []" using i by (simp_all add: plain_def)
  have res: "resolve d (Root s @ ''/'' @ i) = walk (nodes d) (cwd d) [Root s, i]"
    using resolve_plain [OF root, of d i] i
    by (simp add: split_on_single plain_def del: walk.simps)
  have nf: "nodes d (cwd d @ take n [Root s, i]) \<noteq> Some (File bs)" if "n < 2" for n bs
  proof (cases n)
    case 0
    then show ?thesis using wf by (simp add: wf_disk_def)
  next
    case (Suc n')
    then show ?thesis using that store_inv_file [OF inv, of "[]" bs] by (auto simp: base_def)
  qed
  have "walk (nodes d) (cwd d) [Root s, i] = Inr (cwd d @ [Root s, i]) \<or>
      walk (nodes d) (cwd d) [Root s, i] = Inl ErrNotExist \<and> nodes d (cwd d @ [Root s, i]) = None"
  proof (rule walk_no_file [OF wf])
    show "\<forall>c \<in> set [Root s, i]. plain c" using root i by simp
    show "nodes d (cwd d @ take n [Root s, i]) \<noteq> Some (File bs)" if "n < length [Root s, i]" for n bs
      using nf that by simp
  qed
  then show ?thesis
  proof
    assume "walk (nodes d) (cwd d) [Root s, i] = Inr (cwd d @ [Root s, i])"
    then show ?thesis
      using res sp dot
      by (simp add: Delete_def os_removeAll_def removed_def base_def Let_def del: walk.simps)
  next
    assume w: "walk (nodes d) (cwd d) [Root s, i] = Inl ErrNotExist \<and> nodes d (cwd d @ [Root s, i]) = None"
    have "nodes d q = None" if "prefix (cwd d @ [Root s, i]) q" for q
      using that w wf_disk_above [OF wf, of "cwd d @ [Root s, i]"] by (fastforce simp: prefix_def)
    then have "removed s i d = d"
      by (simp add: removed_def remove_below_def base_def fun_eq_iff)
    then show ?thesis
      using w res sp dot by (simp add: Delete_def os_removeAll_def Let_def del: walk.simps)
  qed
qed

lemma removed_inv:
  assumes inv: "store_inv k s d"
  shows "store_inv k s (removed s i d)"
proof -
  have gone: "nodes (removed s i d) q = (if prefix (base s d @ [i]) q then None else nodes d q)" for q
    by (simp add: removed_def remove_below_def)
  have "nodes (removed s i d) q = Some Dir" if q: "nodes (removed s i d) (q @ [c]) \<noteq> None" for q c
  proof -
    have "\<not> prefix (base s d @ [i]) (q @ [c])" and e: "nodes d (q @ [c]) \<noteq> None"
      using q by (auto simp: gone split: if_splits)
    then have "\<not> prefix (base s d @ [i]) q" by (auto simp: prefix_snoc)
    then show ?thesis
      using wf_disk_parent [OF store_inv_wf [OF inv] e] by (simp add: gone)
  qed
  moreover have "nodes (removed s i d) [] = Some Dir" "nodes (removed s i d) (cwd d) = Some Dir"
    using store_inv_wf [OF inv] by (auto simp: gone wf_disk_def base_def dest: prefix_length_le)
  ultimately have "wf_disk (removed s i d)"
    by (simp add: wf_disk_def) (simp add: removed_def)
  moreover have "base s (removed s i d) = base s d" by (simp add: base_def removed_def)
  ultimately show ?thesis
    using inv by (auto simp: store_inv_def gone split: if_splits)
qed

lemma ReadDecrypt_entry:
  assumes "PathTransform s = T" and "store_inv k s d" and "plain ident" and "usable net"
    and "length iv = 16" and "length iv' = 16"
    and "nodes d (data_at s d ident) = Some (File (cipher_text (prims L) net iv c))"
    and "nodes d (meta_at s d ident) = Some (File (cipher_text (prims L) net iv' (gob_meta L md)))"
    and "ungob_meta L (gob_meta L md) = Inr md"
  shows "ReadDecrypt L net s d ident = Ret (cipher_count net c, c, md)"
  using readStream_entry [OF assms(1-3,7)] readMetadata_entry [OF assms(1-3,8)] assms(9)
  by (simp add: ReadDecrypt_def decrypt_to_buffer_def decrypt_file assms(4-6))

end

section \<open>The code's path transformation\<close>

lemma hex_plain: "CHR ''/'' \<notin> set (hex bs)" "CHR ''.'' \<notin> set (hex bs)"
  using set_hex [of bs] by auto

lemma plain_hex_part:
  assumes "w \<noteq> []" and "set w \<subseteq> set (hex bs)"
  shows "plain w"
  using assms hex_plain [of bs] by (auto simp: plain_def)

lemma CAS_parts:
  "parts_of (CASPathTransformFunc key) =
     map (\<lambda>i. take 5 (drop (i * 5) (hex (sha1 (bytes_of key))))) [0..<8]"
proof -
  let ?h = "hex (sha1 (bytes_of key))"
  have "\<forall>w \<in> set (map (\<lambda>i. take 5 (drop (i * 5) ?h)) [0..<8]). CHR ''/'' \<notin> set w"
    using hex_plain(1) by (auto dest!: in_set_takeD in_set_dropD)
  then show ?thesis
    unfolding parts_of_def CASPathTransformFunc_def Let_def
    by (simp del: upt_rec_numeral) (rule split_on_join; simp del: upt_rec_numeral)
qed

lemma CAS_parts_length: "length (parts_of (CASPathTransformFunc key)) = 8"
  by (simp add: CAS_parts del: upt_rec_numeral)

lemma CAS_parts_plain: "w \<in> set (parts_of (CASPathTransformFunc key)) \<Longrightarrow> plain w"
  by (rule plain_hex_part [of _ "sha1 (bytes_of key)"])
    (auto simp: CAS_parts simp del: upt_rec_numeral dest!: in_set_takeD in_set_dropD)

lemma CAS_file: "FileName (CASPathTransformFunc key) = hex (sha1 (bytes_of key))"
  by (simp add: CASPathTransformFunc_def Let_def)

interpretation cas: path_transform CASPathTransformFunc 8
proof unfold_locales
  fix x c
  show "length (parts_of (CASPathTransformFunc x)) = 8" by (rule CAS_parts_length)
  show "c \<in> set (parts_of (CASPathTransformFunc x)) \<Longrightarrow> plain c" by (rule CAS_parts_plain)
  have len: "length (FileName (CASPathTransformFunc x)) = 40" by (simp add: CAS_file)
  show "plain (FileName (CASPathTransformFunc x))"
  proof (rule plain_hex_part)
    show "FileName (CASPathTransformFunc x) \<noteq> []" using len by fastforce
    show "set (FileName (CASPathTransformFunc x)) \<subseteq> set (hex (sha1 (bytes_of x)))"
      by (simp add: CAS_file)
  qed
  show "FileName (CASPathTransformFunc x) \<noteq> ''metadata''" using len by auto
qed

end
