(* ===== verification/Store_Spec.thy ===== *)
theory Store_Spec
  imports Store_Laws
begin

text \<open>
  The contract of the store as its clients see it: a map from content ids to entries. The
  interface \<open>kv_store\<close> states the laws of such a map over an implementation with an
  invariant; its client lemma is the refinement of any run of operations. The interpretation
  discharges the laws for the store of the code, on encrypted entries.

  \<open>lib_ok\<close> is what the code relies on of \<open>encoding/gob\<close>: a decoder returns the metadata an
  encoder wrote, and the end-of-file error on no input.
\<close>

definition lib_ok :: "store_lib \<Rightarrow> bool" where
  "lib_ok L \<longleftrightarrow> (\<forall>md. ungob_meta L (gob_meta L md) = Inr md) \<and> ungob_meta L [] = Inl EOF"

lemma lib_ok_meta: "lib_ok L \<Longrightarrow> ungob_meta L (gob_meta L md) = Inr md"
  and lib_ok_empty: "lib_ok L \<Longrightarrow> ungob_meta L [] = Inl EOF"
  by (simp_all add: lib_ok_def)

section \<open>The interface\<close>

text \<open>One operation of a run: write an entry under an id, or delete the id.\<close>

definition kv_step ::
  "('k \<Rightarrow> 'w \<Rightarrow> 'd \<Rightarrow> 'd) \<Rightarrow> ('k \<Rightarrow> 'd \<Rightarrow> 'd) \<Rightarrow> 'k \<times> 'w option \<Rightarrow> 'd \<Rightarrow> 'd" where
  "kv_step put del op = (case snd op of Some w \<Rightarrow> put (fst op) w | None \<Rightarrow> del (fst op))"

definition kv_spec :: "('w \<Rightarrow> 'v) \<Rightarrow> 'k \<times> 'w option \<Rightarrow> ('k \<Rightarrow> 'v option) \<Rightarrow> 'k \<Rightarrow> 'v option" where
  "kv_spec val op m = m(fst op := map_option val (snd op))"

locale kv_store =
  fixes I :: "'d \<Rightarrow> bool"
    and ok :: "'k \<Rightarrow> bool"
    and okv :: "'w \<Rightarrow> bool"
    and val :: "'w \<Rightarrow> 'v"
    and put :: "'k \<Rightarrow> 'w \<Rightarrow> 'd \<Rightarrow> 'd"
    and del :: "'k \<Rightarrow> 'd \<Rightarrow> 'd"
    and get :: "'d \<Rightarrow> 'k \<Rightarrow> 'v option"
  assumes put_I: "I d \<Longrightarrow> ok i \<Longrightarrow> okv w \<Longrightarrow> I (put i w d)"
    and del_I: "I d \<Longrightarrow> ok i \<Longrightarrow> I (del i d)"
    and get_put: "I d \<Longrightarrow> ok i \<Longrightarrow> okv w \<Longrightarrow> ok j \<Longrightarrow>
      get (put i w d) j = (if j = i then Some (val w) else get d j)"
    and get_del: "I d \<Longrightarrow> ok i \<Longrightarrow> ok j \<Longrightarrow>
      get (del i d) j = (if j = i then None else get d j)"
begin

lemma step_refines:
  assumes "I d" and "ok (fst op) \<and> pred_option okv (snd op)"
  shows "I (kv_step put del op d)"
    and "ok j \<Longrightarrow> get (kv_step put del op d) j = kv_spec val op (get d) j"
  using assms by (cases "snd op"; simp add: kv_step_def kv_spec_def put_I del_I get_put get_del)+

lemma run_refines:
  assumes "I d" and "\<forall>op \<in> set ops. ok (fst op) \<and> pred_option okv (snd op)"
    and "\<And>j. ok j \<Longrightarrow> get d j = m j"
  shows "I (fold (kv_step put del) ops d)"
    and "ok j \<Longrightarrow> get (fold (kv_step put del) ops d) j = fold (kv_spec val) ops m j"
proof -
  have "I (fold (kv_step put del) ops d) \<and>
      (\<forall>j. ok j \<longrightarrow> get (fold (kv_step put del) ops d) j = fold (kv_spec val) ops m j)"
    using assms
  proof (induction ops arbitrary: d m)
    case Nil
    then show ?case by simp
  next
    case (Cons op ops)
    have op: "ok (fst op) \<and> pred_option okv (snd op)" using Cons.prems(2) by simp
    have "get (kv_step put del op d) j = kv_spec val op m j" if "ok j" for j
      using step_refines(2) [OF Cons.prems(1) op that] Cons.prems(3) [OF that]
      by (simp add: kv_spec_def)
    then show ?case
      using Cons.IH [OF step_refines(1) [OF Cons.prems(1) op]] Cons.prems(2) by simp
  qed
  then show "I (fold (kv_step put del) ops d)"
    and "ok j \<Longrightarrow> get (fold (kv_step put del) ops d) j = fold (kv_spec val) ops m j"
    by blast+
qed

end

section \<open>Entries of the code's store\<close>

text \<open>
  An entry: what is written (data, file name, part numbers) and the initialisation vectors
  the two encryptions draw. \<open>entry_value\<close> is what a reader should see of it.
\<close>

record entry =
  edata :: bytes
  ekey :: string
  epart :: int
  etotal :: int
  eiv :: bytes
  eiv' :: bytes

definition entry_value :: "entry \<Rightarrow> bytes \<times> string \<times> int \<times> int" where
  "entry_value w = (edata w, ekey w, epart w, etotal w)"

definition put_entry :: "store_lib \<Rightarrow> network \<Rightarrow> store \<Rightarrow> string \<Rightarrow> entry \<Rightarrow> disk \<Rightarrow> disk" where
  "put_entry L net s ident w d =
     snd (WriteEncrypt L net (eiv w) (eiv' w) s ident (ekey w) (buffer (edata w)) (epart w) (etotal w) d)"

definition del_entry :: "store \<Rightarrow> string \<Rightarrow> disk \<Rightarrow> disk" where
  "del_entry s ident d = snd (Delete s ident d)"

definition view_entry ::
  "store_lib \<Rightarrow> network \<Rightarrow> store \<Rightarrow> disk \<Rightarrow> string \<Rightarrow> (bytes \<times> string \<times> int \<times> int) option" where
  "view_entry L net s d ident =
     (case ReadDecrypt L net s d ident of
        Ret (n, c, md) \<Rightarrow> Some (c, MetaFileName md, Part md, TotalParts md)
      | _ \<Rightarrow> None)"

definition good_store :: "store_lib \<Rightarrow> network \<Rightarrow> store \<Rightarrow> disk \<Rightarrow> bool" where
  "good_store L net s d \<longleftrightarrow>
     lib_ok L \<and> usable net \<and> PathTransform s = CASPathTransformFunc \<and> store_inv 8 s d"

definition good_entry :: "entry \<Rightarrow> bool" where
  "good_entry w \<longleftrightarrow> length (eiv w) = 16 \<and> length (eiv' w) = 16"

lemma good_storeD:
  assumes "good_store L net s d"
  shows "lib_ok L" "usable net" "PathTransform s = CASPathTransformFunc" "store_inv 8 s d"
  using assms by (simp_all add: good_store_def)

lemma WriteEncrypt_good:
  assumes "good_store L net s d" and "plain ident"
  shows "WriteEncrypt L net iv iv' s ident key (buffer c) part tot d =
    (Ret (cipher_count net c),
     stored s ident (cipher_text (prims L) net iv c)
       (cipher_text (prims L) net iv' (gob_meta L (metadata_for s ident key part tot))) d)"
proof -
  have "encrypt (prims L) net v (buffer b) sink =
      (Ret (cipher_count net b), sink\<lparr>written := cipher_text (prims L) net v b\<rparr>)" for v b
    using good_storeD(2) [OF assms(1)] by (simp add: encrypt_file)
  from cas.WriteEncrypt_effect [OF good_storeD(3,4) [OF assms(1)] assms(2) this this]
  show ?thesis by simp
qed

lemma ReadDecrypt_same:
  assumes "PathTransform s = CASPathTransformFunc" "store_inv 8 s d" "store_inv 8 s d'" "plain j"
    and "nodes d' (data_at s d' j) = nodes d (data_at s d j)"
    and "nodes d' (meta_at s d' j) = nodes d (meta_at s d j)"
  shows "ReadDecrypt L net s d' j = ReadDecrypt L net s d j"
proof -
  have "plain ''metadata''" by (simp add: plain_def)
  note st = cas.stat_entry [OF assms(1) _ assms(4) cas.file_plain [of j]]
    cas.stat_entry [OF assms(1) _ assms(4) this]
  have "readStream s d' j = readStream s d j"
    using st(1) [OF assms(2)] st(1) [OF assms(3)] assms(1,5)
    by (simp add: readStream_def os_open_def fullPathWithRoot_def FullPathName_def data_at_def)
  moreover have "readMetadata L net s d' j = readMetadata L net s d j"
    using st(2) [OF assms(2)] st(2) [OF assms(3)] assms(6)
    by (simp add: readMetadata_def os_open_def metadataPath_def meta_at_def)
  ultimately show ?thesis by (simp add: ReadDecrypt_def)
qed

lemma ReadDecrypt_stored:
  assumes g: "good_store L net s d" and "plain ident" and "length iv = 16" "length iv' = 16"
  shows "ReadDecrypt L net s
      (stored s ident (cipher_text (prims L) net iv c)
        (cipher_text (prims L) net iv' (gob_meta L md)) d) ident = Ret (cipher_count net c, c, md)"
  by (rule cas.ReadDecrypt_entry [OF good_storeD(3) [OF g] cas.stored_inv [OF good_storeD(3,4) [OF g]]
        assms(2) good_storeD(2) [OF g] assms(3,4)])
    (use good_storeD [OF g] lib_ok_meta in simp_all)

text \<open>With a cipher type that is not known, a write leaves two empty files.\<close>

lemma unset_cipher_effect:
  assumes "EncType net \<notin> {''AES'', ''CC20'', ''None''}" and "lib_ok L"
    and "PathTransform s = CASPathTransformFunc" and "store_inv 8 s d" and "plain ident"
  defines "d' \<equiv> stored s ident [] [] d"
  shows "WriteEncrypt L net iv iv' s ident key r part tot d = (Ret 0, d')"
    and "Has s d' ident" and "nodes d' (data_at s d' ident) = Some (File [])"
    and "ReadDecrypt L net s d' ident = Fail EOF"
proof -
  have inv: "store_inv 8 s d'" unfolding d'_def by (rule cas.stored_inv [OF assms(3,4)])
  show "WriteEncrypt L net iv iv' s ident key r part tot d = (Ret 0, d')"
    using cas.WriteEncrypt_effect [OF assms(3-5) unknown_type(1) unknown_type(1), OF assms(1,1)]
    by (simp add: d'_def)
  show data: "nodes d' (data_at s d' ident) = Some (File [])" using assms(3) by (simp add: d'_def)
  then show "Has s d' ident" using cas.Has_iff [OF assms(3) inv assms(5)] by simp
  have "readStream s d' ident = Ret (0, buffer [])"
    using cas.readStream_entry [OF assms(3) inv assms(5) data] by simp
  moreover have "nodes d' (meta_at s d' ident) = Some (File [])" by (simp add: d'_def)
  from cas.readMetadata_entry [OF assms(3) inv assms(5) this, of L net]
  have "readMetadata L net s d' ident = Fail EOF"
    using assms(2) by (simp add: decrypt_to_buffer_def unknown_type(2) [OF assms(1)] lib_ok_empty sink_def)
  ultimately show "ReadDecrypt L net s d' ident = Fail EOF"
    by (simp add: ReadDecrypt_def decrypt_to_buffer_def unknown_type(2) [OF assms(1)])
qed

lemma ReadDecrypt_missing:
  assumes "PathTransform s = CASPathTransformFunc" "store_inv 8 s d" "plain ident"
    and "nodes d (data_at s d ident) = None"
  shows "ReadDecrypt L net s d ident = Fail ErrNotExist"
  using cas.readStream_missing [OF assms] by (simp add: ReadDecrypt_def)

lemma put_entry_good: "good_store L net s d \<Longrightarrow> plain i \<Longrightarrow> good_store L net s (put_entry L net s i w d)"
  by (simp add: put_entry_def WriteEncrypt_good)
    (simp add: good_store_def cas.stored_inv)

lemma del_entry_eq: "good_store L net s d \<Longrightarrow> plain i \<Longrightarrow> del_entry s i d = removed s i d"
  by (simp add: del_entry_def cas.Delete_effect good_storeD(4))

lemma del_entry_good: "good_store L net s d \<Longrightarrow> plain i \<Longrightarrow> good_store L net s (del_entry s i d)"
  by (simp add: del_entry_eq) (simp add: good_store_def cas.removed_inv)

lemma view_put:
  assumes g: "good_store L net s d" and "plain i" "good_entry w" "plain j"
  shows "view_entry L net s (put_entry L net s i w d) j =
    (if j = i then Some (entry_value w) else view_entry L net s d j)"
proof (cases "j = i")
  case True
  then show ?thesis
    using assms
    by (simp add: view_entry_def put_entry_def WriteEncrypt_good ReadDecrypt_stored good_entry_def
        entry_value_def metadata_for_def)
next
  case False
  have inv: "store_inv 8 s (put_entry L net s i w d)"
    using put_entry_good [OF g assms(2)] by (rule good_storeD(4))
  have "ReadDecrypt L net s (put_entry L net s i w d) j = ReadDecrypt L net s d j"
    by (rule ReadDecrypt_same [OF good_storeD(3,4) [OF g] inv assms(4)])
      (use False in \<open>simp_all add: put_entry_def WriteEncrypt_good [OF g assms(2)] cas.stored_other\<close>)
  then show ?thesis using False by (simp add: view_entry_def)
qed

lemma removed_cwd [simp]: "cwd (removed s i d) = cwd d"
  by (simp add: removed_def)

lemma view_del:
  assumes g: "good_store L net s d" and "plain i" "plain j"
  shows "view_entry L net s (del_entry s i d) j = (if j = i then None else view_entry L net s d j)"
proof -
  have eq: "del_entry s i d = removed s i d" using del_entry_eq [OF g assms(2)] .
  have inv: "store_inv 8 s (removed s i d)" using cas.removed_inv [OF good_storeD(4) [OF g]] .
  note places = place_cwd [OF removed_cwd [of s i d]]
  show ?thesis
  proof (cases "j = i")
    case True
    then have "ReadDecrypt L net s (removed s i d) j = Fail ErrNotExist"
      using ReadDecrypt_missing [OF good_storeD(3) [OF g] inv assms(3)]
      by (simp add: places data_at_def cas.removed_places(1))
    then show ?thesis using True eq by (simp add: view_entry_def)
  next
    case False
    have "ReadDecrypt L net s (removed s i d) j = ReadDecrypt L net s d j"
      by (rule ReadDecrypt_same [OF good_storeD(3,4) [OF g] inv assms(3)])
        (use False in \<open>simp_all add: places data_at_def meta_at_def cas.removed_places(2)\<close>)
    then show ?thesis using False eq by (simp add: view_entry_def)
  qed
qed

interpretation entries: kv_store "good_store L net s" plain good_entry entry_value
    "put_entry L net s" "del_entry s" "view_entry L net s" for L net s
  by unfold_locales (simp_all add: put_entry_good del_entry_good view_put view_del)

end
