(* ===== verification/Instances.thy ===== *)
theory Instances
  imports Store_Spec
begin

text \<open>
  Concrete values for the examples: a codec for metadata that satisfies \<open>lib_ok\<close> (the real
  encoding is gob's; any faithful codec will do), simple ciphers, an empty disk, and the
  configurations a node can run with.
\<close>

section \<open>A codec\<close>

fun put_string :: "string \<Rightarrow> bytes" where
  "put_string [] = [0]"
| "put_string (c # cs) = 1 # of_char c # put_string cs"

fun get_string :: "bytes \<Rightarrow> (string \<times> bytes) option" where
  "get_string [] = None"
| "get_string (t # bs) =
     (if t = 0 then Some ([], bs)
      else case bs of
             [] \<Rightarrow> None
           | b # bs' \<Rightarrow> map_option (\<lambda>(cs, r). (char_of (unat b) # cs, r)) (get_string bs'))"

definition put_int :: "int \<Rightarrow> bytes" where
  "put_int i = (if 0 \<le> i then 0 else 1) # replicate (nat \<bar>i\<bar>) 1 @ [0]"

fun get_nat :: "bytes \<Rightarrow> (nat \<times> bytes) option" where
  "get_nat [] = None"
| "get_nat (t # bs) =
     (if t = 0 then Some (0, bs) else map_option (\<lambda>(n, r). (Suc n, r)) (get_nat bs))"

fun get_int :: "bytes \<Rightarrow> (int \<times> bytes) option" where
  "get_int [] = None"
| "get_int (t # bs) = map_option (\<lambda>(n, r). (if t = 0 then int n else - int n, r)) (get_nat bs)"

definition put_meta :: "metadata \<Rightarrow> bytes" where
  "put_meta m =
     put_string (CID m) @ put_string (FileID m) @ put_string (MetaFileName m) @
     put_int (Part m) @ put_int (TotalParts m)"

definition get_meta :: "bytes \<Rightarrow> error + metadata" where
  "get_meta bs =
     (case Option.bind (get_string bs) (\<lambda>(a, bs).
           Option.bind (get_string bs) (\<lambda>(b, bs).
           Option.bind (get_string bs) (\<lambda>(c, bs).
           Option.bind (get_int bs) (\<lambda>(p, bs).
           Option.bind (get_int bs) (\<lambda>(q, bs).
             Some \<lparr>CID = a, FileID = b, MetaFileName = c, Part = p, TotalParts = q\<rparr>))))) of
        None \<Rightarrow> Inl EOF
      | Some m \<Rightarrow> Inr m)"

lemma get_put_string [simp]: "get_string (put_string cs @ r) = Some (cs, r)"
  by (induction cs) simp_all

lemma get_nat_replicate [simp]: "get_nat (replicate n 1 @ 0 # r) = Some (n, r)"
  by (induction n) simp_all

lemma get_put_int [simp]: "get_int (put_int i @ r) = Some (i, r)"
  by (simp add: put_int_def)

lemma get_put_int_end [simp]: "get_int (put_int i) = Some (i, [])"
  using get_put_int [of i "[]"] by (simp del: get_put_int)

lemma get_put_meta [simp]: "get_meta (put_meta m) = Inr m"
  by (simp add: get_meta_def put_meta_def)

lemma get_meta_empty [simp]: "get_meta [] = Inl EOF"
  by (simp add: get_meta_def)

section \<open>A library, a disk, a store\<close>

definition demo_prims :: primitives where
  "demo_prims = \<lparr>aes_block = (\<lambda>key block. block), chacha_stream = (\<lambda>key nonce i. of_nat (i + 7))\<rparr>"

definition demo_lib :: store_lib where
  "demo_lib = \<lparr>prims = demo_prims, gob_meta = put_meta, ungob_meta = get_meta\<rparr>"

lemma demo_lib_ok: "lib_ok demo_lib"
  by (simp add: lib_ok_def demo_lib_def)

definition demo_disk :: disk where
  "demo_disk = \<lparr>nodes = (\<lambda>p. if p = [] then Some Dir else None), cwd = []\<rparr>"

definition demo_store :: store where
  "demo_store = NewStore ''127.0.0.1:3000_mesh_network'' (Some CASPathTransformFunc)"

definition aes_network :: network where
  "aes_network =
     \<lparr>EncType = ''AES'', EncKey = replicate 32 1, Nonce = replicate 12 2,
      Nodes = [''127.0.0.1:3000''], Split = False\<rparr>"

definition cc20_network :: network where
  "cc20_network = aes_network\<lparr>EncType := ''CC20''\<rparr>"

lemma demo_usable: "usable aes_network" "usable cc20_network"
  by (simp_all add: usable_def aes_network_def cc20_network_def)

lemma demo_types [simp]: "EncType aes_network = ''AES''" "EncType cc20_network = ''CC20''"
  by (simp_all add: aes_network_def cc20_network_def)

lemma demo_count [simp]:
  "cipher_count aes_network d = 16 + length d" "cipher_count cc20_network d = length d"
  by (simp_all add: cipher_count_def)

lemma demo_store_transform: "PathTransform demo_store = CASPathTransformFunc"
  by (simp add: demo_store_def NewStore_def)

lemma demo_wf: "wf_disk demo_disk"
  by (simp add: wf_disk_def demo_disk_def)

lemma demo_store_root: "Root demo_store = ''127.0.0.1:3000_mesh_network''"
  by (simp add: demo_store_def NewStore_def)

lemma demo_store_inv: "store_inv 8 demo_store demo_disk"
  using demo_wf by (simp add: store_inv_def base_def demo_store_root plain_def) (simp add: demo_disk_def)

lemma demo_good: "good_store demo_lib aes_network demo_store demo_disk"
  "good_store demo_lib cc20_network demo_store demo_disk"
  by (simp_all add: good_store_def demo_lib_ok demo_usable demo_store_transform demo_store_inv)

definition demo_iv :: bytes where
  "demo_iv = replicate 16 9"

lemma length_demo_iv [simp]: "length demo_iv = 16"
  by (simp add: demo_iv_def)

end
