(* ===== verification/Store_Props.thy ===== *)
theory Store_Props
  imports Instances
begin

text \<open>
  The properties of the ciphers and of the store, each with an example at the values of
  \<open>Instances\<close>.
\<close>

section \<open>Encryption\<close>

text \<open>C16: what \<open>encrypt\<close> writes for a file, \<open>decrypt\<close> turns back into the file, for each of
  the three cipher types, every key of a legal length, every initialisation vector and
  every cipher.\<close>

theorem encrypt_decrypt_roundtrip:
  assumes "usable net" and "length iv = 16"
  shows "encrypt P net iv (buffer d) sink =
      (Ret (cipher_count net d), sink\<lparr>written := cipher_text P net iv d\<rparr>) \<and>
    decrypt P net (buffer (written (snd (encrypt P net iv (buffer d) sink)))) sink =
      (Ret (cipher_count net d), sink\<lparr>written := d\<rparr>)"
  using assms by (simp add: encrypt_file decrypt_file)

theorem encrypt_decrypt_roundtrip_witness:
  "decrypt demo_prims aes_network
     (buffer (written (snd (encrypt demo_prims aes_network demo_iv (buffer [1, 2, 3]) sink)))) sink =
   (Ret 19, sink\<lparr>written := [1, 2, 3]\<rparr>)"
  using encrypt_decrypt_roundtrip [OF demo_usable(1) length_demo_iv, of demo_prims "[1, 2, 3]",
      THEN conjunct2]
  by simp

text \<open>The result of encrypting does not depend on how reads cut the input into pieces: the
  32 KiB loops of \<open>copyStreamAES\<close> and \<open>io.Copy\<close> carry the key stream position across
  reads.\<close>

theorem encrypt_segmentation:
  assumes "fin src = AtEOF" and "werr w = None"
  shows "encrypt P net iv src w = encrypt P net iv (buffer (content src)) w"
proof -
  have "copy_loop f 0 n (segs src) (fin src) v =
      copy_loop f 0 n (segs (buffer (content src))) (fin (buffer (content src))) v"
    if "piecewise f" "werr v = None" for f n v
    using that assms by (simp add: copy_loop_EOF buffer_def)
  with assms(2) show ?thesis
    by (simp add: encrypt_def EncryptAES_def copyStreamAES_def ChaCha20Encrypt_def io_copy_def
        split: option.split)
qed

theorem encrypt_segmentation_witness:
  "encrypt demo_prims cc20_network demo_iv \<lparr>segs = [[1], [2, 3]], fin = AtEOF\<rparr> sink =
   encrypt demo_prims cc20_network demo_iv (buffer [1, 2, 3]) sink"
  using encrypt_segmentation [of "\<lparr>segs = [[1], [2, 3]], fin = AtEOF\<rparr>" sink] by simp

text \<open>Under CC20 the key and nonce are the same for every file, so encrypting a second
  time undoes the first: the result is the plain file.\<close>

theorem cc20_twice_is_plain:
  assumes "usable net" and "EncType net = ''CC20''"
  shows "encrypt_bytes P net iv d = Ret c \<Longrightarrow> encrypt_bytes P net iv' c = Ret d"
  using assms by (auto simp: encrypt_bytes_usable cipher_text_def)

theorem cc20_twice_is_plain_witness:
  "\<exists>c. encrypt_bytes demo_prims cc20_network demo_iv [1, 2, 3] = Ret c \<and>
     encrypt_bytes demo_prims cc20_network demo_iv c = Ret [1, 2, 3]"
proof -
  obtain c where c: "encrypt_bytes demo_prims cc20_network demo_iv [1, 2, 3] = Ret c"
    using cipher.enc_total [OF demo_usable(2) length_demo_iv] by blast
  with cc20_twice_is_plain [OF demo_usable(2) demo_types(2) c] show ?thesis by blast
qed

section \<open>The store\<close>

text \<open>The content addressed path of a key is the digest's forty hexadecimal digits as file
  name, below eight directories of five digits each that spell the same digest.\<close>

theorem CAS_path_shape:
  "length (FileName (CASPathTransformFunc key)) = 40 \<and>
   split_on (CHR ''/'') (PathName (CASPathTransformFunc key)) =
     map (\<lambda>i. take 5 (drop (i * 5) (FileName (CASPathTransformFunc key)))) [0..<8] \<and>
   concat (split_on (CHR ''/'') (PathName (CASPathTransformFunc key))) =
     FileName (CASPathTransformFunc key)"
proof -
  let ?h = "hex (sha1 (bytes_of key))"
  have parts: "split_on (CHR ''/'') (PathName (CASPathTransformFunc key)) =
      map (\<lambda>i. take 5 (drop (i * 5) ?h)) [0..<8]"
    using CAS_parts by (simp add: parts_of_def)
  have "concat (map (\<lambda>i. take 5 (drop (i * 5) xs)) [0..<n]) = take (n * 5) xs"
    for n and xs :: string
  proof (induction n)
    case 0
    then show ?case by simp
  next
    case (Suc n)
    then show ?case by (simp add: take_add [of "n * 5" 5, symmetric] add.commute)
  qed
  then have "concat (map (\<lambda>i. take 5 (drop (i * 5) ?h)) [0..<8]) = ?h" by simp
  then show ?thesis using parts by (simp only: CAS_file) simp
qed

text \<open>\<open>WriteEncrypt\<close> succeeds on a store in good shape and keeps it so; afterwards the store
  has the file, and \<open>ReadDecrypt\<close> returns its text and the metadata that was passed.\<close>

theorem write_then_read:
  assumes "good_store L net s d" and "plain ident" and "length iv = 16" and "length iv' = 16"
  shows "\<exists>d'. WriteEncrypt L net iv iv' s ident key (buffer c) part tot d = (Ret (cipher_count net c), d') \<and>
    good_store L net s d' \<and> Has s d' ident \<and>
    ReadDecrypt L net s d' ident = Ret (cipher_count net c, c, metadata_for s ident key part tot)"
proof (intro exI conjI)
  note g = good_storeD [OF assms(1)]
  let ?d = "stored s ident (cipher_text (prims L) net iv c)
       (cipher_text (prims L) net iv' (gob_meta L (metadata_for s ident key part tot))) d"
  show "WriteEncrypt L net iv iv' s ident key (buffer c) part tot d = (Ret (cipher_count net c), ?d)"
    by (rule WriteEncrypt_good [OF assms(1,2)])
  show inv: "good_store L net s ?d" using g by (simp add: good_store_def cas.stored_inv)
  show "Has s ?d ident" using cas.Has_iff [OF g(3) good_storeD(4) [OF inv] assms(2)] g(3) by simp
  show "ReadDecrypt L net s ?d ident = Ret (cipher_count net c, c, metadata_for s ident key part tot)"
    by (rule ReadDecrypt_stored [OF assms])
qed

theorem write_then_read_witness:
  "\<exists>d'. WriteEncrypt demo_lib aes_network demo_iv demo_iv demo_store ''cid1'' ''a.txt'' (buffer [7, 8])
      0 0 demo_disk = (Ret 18, d') \<and> Has demo_store d' ''cid1''"
proof -
  have "plain ''cid1''" by (simp add: plain_def)
  from write_then_read [OF demo_good(1) this length_demo_iv length_demo_iv, of "''a.txt''" "[7, 8]" 0 0]
  show ?thesis by auto
qed

text \<open>C6: any run of writes and deletions implements a map: reading an id after the run gives
  what the last operation on that id left, whatever happened to other ids in between.\<close>

theorem store_refines_map:
  assumes "good_store L net s d"
    and "\<forall>op \<in> set ops. plain (fst op) \<and> pred_option good_entry (snd op)"
    and "plain ident"
  shows "view_entry L net s (fold (kv_step (put_entry L net s) (del_entry s)) ops d) ident =
    fold (kv_spec entry_value) ops (view_entry L net s d) ident"
  by (rule entries.run_refines(2) [OF assms(1,2) refl assms(3)])

theorem store_refines_map_witness:
  "view_entry demo_lib aes_network demo_store
     (fold (kv_step (put_entry demo_lib aes_network demo_store) (del_entry demo_store))
       [(''x'', Some \<lparr>edata = [1], ekey = ''f'', epart = 0, etotal = 0, eiv = demo_iv, eiv' = demo_iv\<rparr>),
        (''y'', Some \<lparr>edata = [2], ekey = ''g'', epart = 0, etotal = 0, eiv = demo_iv, eiv' = demo_iv\<rparr>),
        (''y'', None)] demo_disk) ''x'' = Some ([1], ''f'', 0, 0)"
proof -
  let ?ops = "[(''x'', Some \<lparr>edata = [1], ekey = ''f'', epart = 0, etotal = 0, eiv = demo_iv, eiv' = demo_iv\<rparr>),
    (''y'', Some \<lparr>edata = [2], ekey = ''g'', epart = 0, etotal = 0, eiv = demo_iv, eiv' = demo_iv\<rparr>),
    (''y'', None)]"
  have ops: "\<forall>op \<in> set ?ops. plain (fst op) \<and> pred_option good_entry (snd op)"
    by (simp add: plain_def good_entry_def)
  have x: "plain ''x''" by (simp add: plain_def)
  show ?thesis
    using store_refines_map [OF demo_good(1) ops x] by (simp add: kv_spec_def entry_value_def)
qed

text \<open>\<open>Delete\<close> of an id always succeeds, removes the file and leaves the store in good shape
  and every other id as it was.\<close>

theorem delete_removes:
  assumes "PathTransform s = CASPathTransformFunc" and "store_inv 8 s d"
    and "plain i" and "plain j" and "i \<noteq> j"
  shows "\<exists>d'. Delete s i d = (Ret (), d') \<and> store_inv 8 s d' \<and> \<not> Has s d' i \<and>
    (Has s d' j \<longleftrightarrow> Has s d j) \<and> ReadDecrypt L net s d' j = ReadDecrypt L net s d j"
proof (intro exI conjI)
  note places = place_cwd [OF removed_cwd [of s i d]]
  show "Delete s i d = (Ret (), removed s i d)" by (rule cas.Delete_effect [OF assms(2,3)])
  show inv: "store_inv 8 s (removed s i d)" by (rule cas.removed_inv [OF assms(2)])
  show "\<not> Has s (removed s i d) i"
    by (simp add: cas.Has_iff [OF assms(1) inv assms(3)] places data_at_def cas.removed_places(1))
  show "Has s (removed s i d) j \<longleftrightarrow> Has s d j"
    using assms(5) by (simp add: cas.Has_iff [OF assms(1) inv assms(4)]
        cas.Has_iff [OF assms(1,2,4)] places data_at_def cas.removed_places(2))
  show "ReadDecrypt L net s (removed s i d) j = ReadDecrypt L net s d j"
    by (rule ReadDecrypt_same [OF assms(1,2) inv assms(4)])
      (use assms(5) in \<open>simp_all add: places data_at_def meta_at_def cas.removed_places(2)\<close>)
qed

theorem delete_removes_witness:
  "\<exists>d'. Delete demo_store ''x'' demo_disk = (Ret (), d') \<and> \<not> Has demo_store d' ''x''"
proof -
  have p: "plain ''x''" "plain ''y''" by (simp_all add: plain_def)
  have "''x'' \<noteq> ''y''" by simp
  from delete_removes [OF demo_store_transform demo_store_inv p this]
  show ?thesis by blast
qed

text \<open>With an encryption type other than the three known ones, which is what the zero
  \<open>network\<close> has, \<open>WriteEncrypt\<close> reports success and writes an empty file with an empty
  metadata file; every later \<open>ReadDecrypt\<close> of the id fails with the end-of-file error.\<close>

theorem unset_cipher_loses_data:
  assumes "EncType net \<notin> {''AES'', ''CC20'', ''None''}" and "lib_ok L"
    and "PathTransform s = CASPathTransformFunc" and "store_inv 8 s d" and "plain ident"
  shows "\<exists>d'. WriteEncrypt L net iv iv' s ident key r part tot d = (Ret 0, d') \<and>
    Has s d' ident \<and> nodes d' (data_at s d' ident) = Some (File []) \<and>
    ReadDecrypt L net s d' ident = Fail EOF"
  using unset_cipher_effect [OF assms] by blast

theorem unset_cipher_loses_data_witness:
  "\<exists>d'. WriteEncrypt demo_lib zero_network demo_iv demo_iv demo_store ''cid1'' ''a.txt'' (buffer [7, 8])
      0 0 demo_disk = (Ret 0, d') \<and> ReadDecrypt demo_lib zero_network demo_store d' ''cid1'' = Fail EOF"
proof -
  have z: "EncType zero_network \<notin> {''AES'', ''CC20'', ''None''}" by (simp add: zero_network_def)
  have "plain ''cid1''" by (simp add: plain_def)
  from unset_cipher_loses_data [OF z demo_lib_ok demo_store_transform demo_store_inv this,
      of demo_iv demo_iv "''a.txt''" "buffer [7, 8]" 0 0]
  show ?thesis by blast
qed

text \<open>C40: content ids are not checked, so an id that climbs out of the root deletes what lies
  beside it: \<open>Delete\<close> of \<open>../x\<close> removes the directory \<open>x\<close> next to the store, for
  instance the store of another node.\<close>

theorem delete_escapes_root:
  assumes "wf_disk d" and "plain (Root s)" and "nodes d (cwd d @ [Root s]) = Some Dir" and "plain x"
    and "nodes d (cwd d @ [x]) = Some nd"
  shows "\<exists>d'. Delete s (''../'' @ x) d = (Ret (), d') \<and>
    (\<forall>q. nodes d' (cwd d @ x # q) = None) \<and>
    (\<forall>y q. y \<noteq> x \<longrightarrow> nodes d' (cwd d @ y # q) = nodes d (cwd d @ y # q))"
proof (intro exI conjI)
  let ?d = "d\<lparr>nodes := remove_below (cwd d @ [x]) (nodes d)\<rparr>"
  have sp: "split_on (CHR ''/'') (Root s @ ''/'' @ ''../'' @ x) = [Root s, ''..'', x]"
    using assms(2,4) by (simp add: split_on_append split_on_single plain_def)
  have x: "x \<noteq> ''.''" "x \<noteq> ''..''" "x \<noteq> []" using assms(4) by (simp_all add: plain_def)
  have root: "Root s \<noteq> []" "Root s \<noteq> ''.''" "Root s \<noteq> ''..''" using assms(2) by (simp_all add: plain_def)
  have "start d (Root s @ ''/'' @ ''../'' @ x) = cwd d" by (rule start_plain [OF assms(2)])
  then have "resolve d (Root s @ ''/'' @ ''../'' @ x) = Inr (cwd d @ [x])"
    using sp root x assms(1,3) unfolding resolve_def by (simp add: wf_disk_def)
  then show "Delete s (''../'' @ x) d = (Ret (), ?d)"
    using sp x by (simp add: Delete_def os_removeAll_def Let_def)
  show "\<forall>q. nodes ?d (cwd d @ x # q) = None"
    by (simp add: remove_below_def)
  show "\<forall>y q. y \<noteq> x \<longrightarrow> nodes ?d (cwd d @ y # q) = nodes d (cwd d @ y # q)"
    by (simp add: remove_below_def)
qed

definition two_stores :: disk where
  "two_stores =
     \<lparr>nodes = map_of [([], Dir), ([Root demo_store], Dir), ([''other''], Dir),
        ([''other'', ''f''], File [1])], cwd = []\<rparr>"

theorem delete_escapes_root_witness:
  "\<exists>d'. Delete demo_store ''../other'' two_stores = (Ret (), d') \<and> nodes d' [''other'', ''f''] = None"
proof -
  have w: "wf_disk two_stores"
    by (auto simp: wf_disk_def two_stores_def split: if_splits)
  have r: "plain (Root demo_store)" "plain ''other''" by (simp_all add: demo_store_root plain_def)
  have n: "nodes two_stores (cwd two_stores @ [Root demo_store]) = Some Dir"
    "nodes two_stores (cwd two_stores @ [''other'']) = Some Dir"
    by (simp_all add: two_stores_def demo_store_root)
  from delete_escapes_root [OF w r(1) n(1) r(2) n(2)]
  obtain d' where "Delete demo_store (''../'' @ ''other'') two_stores = (Ret (), d')"
    and "\<forall>q. nodes d' (cwd two_stores @ ''other'' # q) = None" by blast
  then show ?thesis by (intro exI [of _ d']) (simp add: two_stores_def)
qed

end
