(* ===== verification/Wire.thy ===== *)
theory Wire
  imports Streams
begin

text \<open>
  The transport (\<open>p2p/\<close>): the RPC value and its two kinds of frame, the decoder, a TCP peer
  with its wait group, and the read loop of a connection (\<open>handleConn\<close>) as a step relation.

  The loop runs beside the message handlers, which read from the same connection: the
  relation has a step for a handler that reads, so that every interleaving is a run. The
  channel of the transport holds at most 1024 RPCs and is shared by its connections.
\<close>

section \<open>Frames\<close>

definition IncomingMessage :: byte where "IncomingMessage = 1"

definition IncomingStream :: byte where "IncomingStream = 2"

record RPC =
  From :: string
  Payload :: bytes
  Stream :: bool

definition zero_RPC :: RPC where
  "zero_RPC = \<lparr>From = [], Payload = [], Stream = False\<rparr>"

text \<open>
  \<open>DefaultDecoder.Decode\<close>: an error of the first read is not reported, the message stays as
  it was; the payload is what one read of at most 2048 bytes returns.
\<close>

definition Decode :: "stream \<Rightarrow> RPC \<Rightarrow> RPC res \<times> stream" where
  "Decode r msg =
     (case read 1 r of
        (Ret peekBuf, r1) \<Rightarrow>
          if hd peekBuf = IncomingStream then (Ret (msg\<lparr>Stream := True\<rparr>), r1)
          else andthen (read 2048 r1) (\<lambda>buf r2. (Ret (msg\<lparr>Payload := buf\<rparr>), r2))
      | (Fail e, r1) \<Rightarrow> (Ret msg, r1)
      | (Hang, r1) \<Rightarrow> (Hang, r1)
      | (Panic p, r1) \<Rightarrow> (Panic p, r1))"

section \<open>Peers\<close>

text \<open>
  A peer: the addresses of its connection, what can be read from it, what was written to it
  (one element per \<open>Write\<close>), the error writes return once the connection is broken, and the
  counter of its wait group.
\<close>

record peer =
  LocalAddr :: string
  RemoteAddr :: string
  outbound :: bool
  inp :: stream
  outp :: "bytes list"
  broken :: "error option"
  wg :: nat

definition NewTCPPeer :: "string \<Rightarrow> string \<Rightarrow> stream \<Rightarrow> bool \<Rightarrow> peer" where
  "NewTCPPeer l r i out =
     \<lparr>LocalAddr = l, RemoteAddr = r, outbound = out, inp = i, outp = [], broken = None, wg = 0\<rparr>"

definition conn_write :: "bytes \<Rightarrow> peer \<Rightarrow> nat res \<times> peer" where
  "conn_write b p =
     (case broken p of
        None \<Rightarrow> (Ret (length b), p\<lparr>outp := outp p @ [b]\<rparr>)
      | Some e \<Rightarrow> (Fail e, p))"

definition Send :: "bytes \<Rightarrow> peer \<Rightarrow> unit res \<times> peer" where
  "Send b p = andthen (conn_write b p) (\<lambda>_ p1. (Ret (), p1))"

definition CloseStream :: "peer \<Rightarrow> unit res \<times> peer" where
  "CloseStream p =
     (if wg p = 0 then (Panic ''sync: negative WaitGroup counter'', p)
      else (Ret (), p\<lparr>wg := wg p - 1\<rparr>))"

text \<open>What one read of a handler does to the peer.\<close>

definition conn_read :: "nat \<Rightarrow> peer \<Rightarrow> bytes res \<times> peer" where
  "conn_read k p = (case read k (inp p) of (r, i) \<Rightarrow> (r, p\<lparr>inp := i\<rparr>))"

section \<open>The read loop\<close>

text \<open>
  The loop is at its first read, or has read a byte that announces no stream and is at its
  second read, or holds an RPC for which it waits for room on the channel, or waits for a stream
  to be closed. \<open>taken\<close> collects what handlers read, \<open>put\<close> the RPCs the loop has put on the
  channel, \<open>arrived\<close> the segments the network has delivered.
\<close>

datatype loop_phase = Reading | Peeked | Holding RPC | InStream

record conn =
  cpeer :: peer
  phase :: loop_phase
  taken :: bytes
  put :: "RPC list"
  arrived :: "bytes list"

record conn_state = conn +
  rpcch :: "RPC list"

definition rpcch_cap :: nat where
  "rpcch_cap = 1024"

abbreviation set_inp :: "stream \<Rightarrow> conn_state \<Rightarrow> conn_state" where
  "set_inp i c \<equiv> c\<lparr>cpeer := (cpeer c)\<lparr>inp := i\<rparr>\<rparr>"

text \<open>
  The loop of \<open>handleConn\<close>, one read at a time: the byte that announces a stream or a message,
  or an error, for which \<open>Decode\<close> returns nil and the RPC stays empty; the payload, or an
  error, after which the loop decodes again; the send to the channel; the end of a stream.
\<close>

inductive loop_step :: "conn_state \<Rightarrow> conn_state \<Rightarrow> bool" where
  peek_stream: "\<lbrakk>phase c = Reading; read 1 (inp (cpeer c)) = (Ret [IncomingStream], i)\<rbrakk> \<Longrightarrow>
    loop_step c (c\<lparr>cpeer := (cpeer c)\<lparr>inp := i, wg := Suc (wg (cpeer c))\<rparr>, phase := InStream\<rparr>)"
| peek: "\<lbrakk>phase c = Reading; read 1 (inp (cpeer c)) = (Ret [t], i); t \<noteq> IncomingStream\<rbrakk> \<Longrightarrow>
    loop_step c ((set_inp i c)\<lparr>phase := Peeked\<rparr>)"
| peek_fails: "\<lbrakk>phase c = Reading; read 1 (inp (cpeer c)) = (Fail e, i)\<rbrakk> \<Longrightarrow>
    loop_step c ((set_inp i c)\<lparr>phase := Holding (zero_RPC\<lparr>From := RemoteAddr (cpeer c)\<rparr>)\<rparr>)"
| payload: "\<lbrakk>phase c = Peeked; read 2048 (inp (cpeer c)) = (Ret buf, i)\<rbrakk> \<Longrightarrow>
    loop_step c ((set_inp i c)\<lparr>phase := Holding (zero_RPC\<lparr>From := RemoteAddr (cpeer c), Payload := buf\<rparr>)\<rparr>)"
| payload_fails: "\<lbrakk>phase c = Peeked; read 2048 (inp (cpeer c)) = (Fail e, i)\<rbrakk> \<Longrightarrow>
    loop_step c ((set_inp i c)\<lparr>phase := Reading\<rparr>)"
| puts: "\<lbrakk>phase c = Holding rpc; length (rpcch c) < rpcch_cap\<rbrakk> \<Longrightarrow>
    loop_step c (c\<lparr>phase := Reading, put := put c @ [rpc], rpcch := rpcch c @ [rpc]\<rparr>)"
| resume: "\<lbrakk>phase c = InStream; wg (cpeer c) = 0\<rbrakk> \<Longrightarrow> loop_step c (c\<lparr>phase := Reading\<rparr>)"

text \<open>
  Beside the loop, at any moment: a handler reads, or closes the stream; the server takes an
  RPC off the channel; other connections put one on it; the network delivers a segment, or the
  connection ends.
\<close>

inductive conn_step :: "conn_state \<Rightarrow> conn_state \<Rightarrow> bool" where
  loops: "loop_step c c' \<Longrightarrow> conn_step c c'"
| handler_read: "conn_read k (cpeer c) = (Ret bs, p) \<Longrightarrow>
    conn_step c (c\<lparr>cpeer := p, taken := taken c @ bs\<rparr>)"
| handler_close: "CloseStream (cpeer c) = (Ret (), p) \<Longrightarrow> conn_step c (c\<lparr>cpeer := p\<rparr>)"
| consume: "rpcch c = rpc # rest \<Longrightarrow> conn_step c (c\<lparr>rpcch := rest\<rparr>)"
| others: "length (rpcch c) < rpcch_cap \<Longrightarrow> conn_step c (c\<lparr>rpcch := rpcch c @ [rpc]\<rparr>)"
| arrive: "fin (inp (cpeer c)) = Open \<Longrightarrow>
    conn_step c ((set_inp (deliver [bs] (inp (cpeer c))) c)\<lparr>arrived := arrived c @ [bs]\<rparr>)"
| ends: "fin (inp (cpeer c)) = Open \<Longrightarrow> conn_step c (set_inp ((inp (cpeer c))\<lparr>fin := en\<rparr>) c)"

inductive_cases conn_stepE: "conn_step c c'"

abbreviation conn_steps :: "conn_state \<Rightarrow> conn_state \<Rightarrow> bool" where
  "conn_steps \<equiv> conn_step\<^sup>*\<^sup>*"

definition open_conn :: "peer \<Rightarrow> conn_state" where
  "open_conn p = \<lparr>cpeer = p, phase = Reading, taken = [], put = [], arrived = segs (inp p), rpcch = []\<rparr>"

lemma open_conn_simps [simp]:
  "cpeer (open_conn p) = p" "phase (open_conn p) = Reading" "taken (open_conn p) = []" "put (open_conn p) = []"
  "arrived (open_conn p) = segs (inp p)" "rpcch (open_conn p) = []"
  by (simp_all add: open_conn_def)

lemma read_1_length: "read 1 i = (Ret bs, i') \<Longrightarrow> length bs = 1"
proof (cases "read_segs 1 (segs i)")
  case (Some x)
  assume "read 1 i = (Ret bs, i')"
  then have r: "read_segs 1 (segs i) = Some (bs, segs i')" using Some by (cases x) (auto simp: read_def)
  from read_segs_Some(2,3) [OF r] show ?thesis by (cases bs) simp_all
qed (simp add: read_def ending_def split: stream_end.splits)

section \<open>The loop by itself\<close>

text \<open>
  A run of \<open>loop_runs\<close> consists of steps of the read loop alone: no handler reads in between, and
  nothing else is put on the channel. The loop is deterministic, so a statement that it comes to some
  state by itself is one about all it does.
\<close>

abbreviation loop_runs :: "conn_state \<Rightarrow> conn_state \<Rightarrow> bool" where
  "loop_runs \<equiv> loop_step\<^sup>*\<^sup>*"

lemma loop_step_det: "loop_step c c1 \<Longrightarrow> loop_step c c2 \<Longrightarrow> c2 = c1"
  by (induction rule: loop_step.induct) (auto elim!: loop_step.cases)

lemma loop_runs_linear:
  assumes "loop_runs c c1" and "loop_runs c c2"
  shows "loop_runs c1 c2 \<or> loop_runs c2 c1"
  using assms
proof (induction rule: converse_rtranclp_induct)
  case (step c c')
  from step.prems show ?case
  proof (cases rule: converse_rtranclpE)
    case base
    with step.hyps show ?thesis by (auto intro: converse_rtranclp_into_rtranclp)
  next
    case (step d)
    with loop_step_det step.hyps(1) have "loop_runs c' c2" by blast
    then show ?thesis by (rule step.IH)
  qed
qed simp

lemma loop_runs_conn: "loop_runs c c' \<Longrightarrow> conn_steps c c'"
  by (induction rule: rtranclp_induct) (auto intro: conn_step.loops rtranclp.rtrancl_into_rtrancl)

lemma at_rest: "loop_runs c d \<Longrightarrow> \<nexists>c'. loop_step c c' \<Longrightarrow> d = c"
  by (erule converse_rtranclpE) blast+

text \<open>The loop rests while a stream is open, and while an open connection has nothing to read.\<close>

lemma rests_in_stream: "phase c = InStream \<Longrightarrow> 0 < wg (cpeer c) \<Longrightarrow> \<not> loop_step c d"
  by (auto elim: loop_step.cases)

lemma rests_without_input:
  "phase c = Reading \<Longrightarrow> content (inp (cpeer c)) = [] \<Longrightarrow> fin (inp (cpeer c)) = Open \<Longrightarrow> \<not> loop_step c d"
  by (auto elim!: loop_step.cases simp: read_empty ending_def simp del: concat_eq_Nil_conv)

text \<open>The steps of the loop are \<open>Decode\<close> and what follows it.\<close>

lemma decode_stream_run:
  assumes "phase c = Reading" and "Decode (inp (cpeer c)) zero_RPC = (Ret rpc, i)" and "Stream rpc"
  shows "loop_step c (c\<lparr>cpeer := (cpeer c)\<lparr>inp := i, wg := Suc (wg (cpeer c))\<rparr>, phase := InStream\<rparr>)"
proof -
  obtain r j where r: "read 1 (inp (cpeer c)) = (r, j)" by (cases "read 1 (inp (cpeer c))")
  have "r = Ret [IncomingStream] \<and> j = i"
  proof (cases r)
    case (Ret bs)
    then obtain b where "bs = [b]" using r read_1_length by (metis length_0_conv length_Suc_conv One_nat_def)
    then show ?thesis
      using assms(2,3) r Ret by (auto simp: Decode_def andthen_def zero_RPC_def split: if_splits prod.splits res.splits)
  qed (use assms(2,3) r in \<open>auto simp: Decode_def zero_RPC_def\<close>)
  then show ?thesis using r assms(1) by (intro loop_step.peek_stream) auto
qed

lemma decode_hold:
  assumes "phase c = Reading" and "Decode (inp (cpeer c)) zero_RPC = (Ret rpc, i)" and "\<not> Stream rpc"
  shows "loop_runs c ((set_inp i c)\<lparr>phase := Holding (rpc\<lparr>From := RemoteAddr (cpeer c)\<rparr>)\<rparr>)"
proof -
  obtain r j where r: "read 1 (inp (cpeer c)) = (r, j)" by (cases "read 1 (inp (cpeer c))")
  show ?thesis
  proof (cases r)
    case (Ret bs)
    then obtain b where b: "bs = [b]" using r read_1_length by (metis length_0_conv length_Suc_conv One_nat_def)
    then have t: "b \<noteq> IncomingStream" using assms(2,3) r Ret by (auto simp: Decode_def)
    then obtain buf where buf: "read 2048 j = (Ret buf, i)" "rpc = zero_RPC\<lparr>Payload := buf\<rparr>"
      using assms(2) r Ret b by (auto simp: Decode_def andthen_def split: prod.splits res.splits)
    have "loop_step c ((set_inp j c)\<lparr>phase := Peeked\<rparr>)"
      using assms(1) r Ret b t by (intro loop_step.peek) simp_all
    moreover have "loop_step ((set_inp j c)\<lparr>phase := Peeked\<rparr>)
        ((set_inp i c)\<lparr>phase := Holding (rpc\<lparr>From := RemoteAddr (cpeer c)\<rparr>)\<rparr>)"
      using loop_step.payload [of "(set_inp j c)\<lparr>phase := Peeked\<rparr>" buf i] buf by (simp add: zero_RPC_def)
    ultimately show ?thesis
      by (meson rtranclp.rtrancl_into_rtrancl rtranclp.rtrancl_refl)
  next
    case (Fail e)
    then have "rpc = zero_RPC" "j = i" using assms(2) r by (auto simp: Decode_def)
    then show ?thesis using loop_step.peek_fails [OF assms(1), of e i] r Fail by auto
  qed (use assms(2) r in \<open>auto simp: Decode_def\<close>)
qed

lemma decode_run:
  assumes "phase c = Reading" and "Decode (inp (cpeer c)) zero_RPC = (Ret rpc, i)" and "\<not> Stream rpc"
    and "length (rpcch c) < rpcch_cap"
  defines "m \<equiv> rpc\<lparr>From := RemoteAddr (cpeer c)\<rparr>"
  shows "loop_runs c ((set_inp i c)\<lparr>phase := Reading, put := put c @ [m], rpcch := rpcch c @ [m]\<rparr>)"
proof -
  have "loop_step ((set_inp i c)\<lparr>phase := Holding m\<rparr>)
      ((set_inp i c)\<lparr>phase := Reading, put := put c @ [m], rpcch := rpcch c @ [m]\<rparr>)"
    using loop_step.puts [of "(set_inp i c)\<lparr>phase := Holding m\<rparr>" m] assms(4) by simp
  then show ?thesis using decode_hold [OF assms(1-3)] unfolding m_def
    by (meson rtranclp.rtrancl_into_rtrancl)
qed

section \<open>Decoding\<close>

lemma read_one_seg [stream_simps]: "read (Suc k) \<lparr>segs = (b # bs) # ss, fin = e\<rparr> =
    (Ret (b # take k bs), \<lparr>segs = drop k bs # ss, fin = e\<rparr>)"
  by (simp add: read_def)

lemma read_skip [stream_simps]: "read k \<lparr>segs = [] # ss, fin = e\<rparr> = read k \<lparr>segs = ss, fin = e\<rparr>"
  by (simp add: read_def split: option.split prod.split)

lemma read_numeral_seg [stream_simps]: "0 < k \<Longrightarrow> read k \<lparr>segs = (b # bs) # ss, fin = e\<rparr> =
    (Ret (take k (b # bs)), \<lparr>segs = drop k (b # bs) # ss, fin = e\<rparr>)"
  by (simp add: read_def)

lemma Decode_stream:
  "Decode \<lparr>segs = (IncomingStream # bs) # ss, fin = e\<rparr> msg = (Ret (msg\<lparr>Stream := True\<rparr>), \<lparr>segs = bs # ss, fin = e\<rparr>)"
  by (simp add: Decode_def stream_simps)

lemma Decode_frame:
  assumes "t \<noteq> IncomingStream" and "p \<noteq> []"
  shows "Decode \<lparr>segs = [t] # p # ss, fin = e\<rparr> msg =
      (Ret (msg\<lparr>Payload := take 2048 p\<rparr>), \<lparr>segs = drop 2048 p # ss, fin = e\<rparr>)"
    and "Decode \<lparr>segs = (t # p) # ss, fin = e\<rparr> msg =
      (Ret (msg\<lparr>Payload := take 2048 p\<rparr>), \<lparr>segs = drop 2048 p # ss, fin = e\<rparr>)"
  using assms by (cases p; simp add: Decode_def stream_simps)+

lemma Decode_skip: "Decode \<lparr>segs = [] # ss, fin = e\<rparr> msg = Decode \<lparr>segs = ss, fin = e\<rparr> msg"
  by (simp add: Decode_def stream_simps)

lemma Decode_end: "content i = [] \<Longrightarrow> fin i = AtEOF \<or> fin i = Broken e \<Longrightarrow>
    Decode i msg = (Ret msg, i\<lparr>segs := []\<rparr>)"
  by (auto simp: Decode_def read_empty ending_def simp del: concat_eq_Nil_conv)

section \<open>Properties\<close>

text \<open>The two ways the two writes of a message may arrive: as two segments or joined in one.\<close>

definition frame :: "bool \<times> bytes \<Rightarrow> bytes list" where
  "frame f = (if fst f then [[IncomingMessage], snd f] else [IncomingMessage # snd f])"

lemma IncomingMessage_not_stream [simp]: "IncomingMessage \<noteq> IncomingStream"
  by (simp add: IncomingMessage_def IncomingStream_def)

lemma Decode_frame_step:
  assumes "snd f \<noteq> []" and "length (snd f) \<le> 2048"
  shows "Decode \<lparr>segs = frame f @ ss, fin = e\<rparr> zero_RPC =
    (Ret (zero_RPC\<lparr>Payload := snd f\<rparr>), \<lparr>segs = [] # ss, fin = e\<rparr>)"
  using assms by (simp add: frame_def Decode_frame)

lemma frames_run:
  assumes "\<forall>f \<in> set fs. snd f \<noteq> [] \<and> length (snd f) \<le> 2048"
    and "phase c = Reading" and "length (rpcch c) + length fs \<le> rpcch_cap"
    and "inp (cpeer c) = \<lparr>segs = pre @ concat (map frame fs), fin = e\<rparr>" and "pre = [] \<or> pre = [[]]"
  shows "\<exists>c'. loop_runs c c' \<and> phase c' = Reading \<and> content (inp (cpeer c')) = [] \<and> fin (inp (cpeer c')) = e \<and>
    taken c' = taken c \<and>
    rpcch c' = rpcch c @ map (\<lambda>f. \<lparr>From = RemoteAddr (cpeer c), Payload = snd f, Stream = False\<rparr>) fs"
  using assms
proof (induction fs arbitrary: c pre)
  case Nil
  then have "content (inp (cpeer c)) = []" "fin (inp (cpeer c)) = e" by auto
  then show ?case using Nil.prems(2) by (intro exI [of _ c]) (simp del: concat_eq_Nil_conv)
next
  case (Cons f fs)
  let ?rpc = "\<lparr>From = RemoteAddr (cpeer c), Payload = snd f, Stream = False\<rparr>"
  let ?i = "\<lparr>segs = [] # concat (map frame fs), fin = e\<rparr>"
  let ?c = "(set_inp ?i c)\<lparr>phase := Reading, put := put c @ [?rpc], rpcch := rpcch c @ [?rpc]\<rparr>"
  have "Decode (inp (cpeer c)) zero_RPC = (Ret (zero_RPC\<lparr>Payload := snd f\<rparr>), ?i)"
    using Cons.prems(1,4,5) Decode_frame_step [of f] by (auto simp: Decode_skip)
  from decode_run [OF Cons.prems(2) this] have step: "loop_runs c ?c" using Cons.prems(3) by (simp add: zero_RPC_def)
  have "\<exists>c'. loop_runs ?c c' \<and> phase c' = Reading \<and> content (inp (cpeer c')) = [] \<and> fin (inp (cpeer c')) = e \<and>
    taken c' = taken ?c \<and>
    rpcch c' = rpcch ?c @ map (\<lambda>f. \<lparr>From = RemoteAddr (cpeer ?c), Payload = snd f, Stream = False\<rparr>) fs"
    by (rule Cons.IH [where pre = "[[]]"]) (use Cons.prems in auto)
  then show ?case using step by (auto intro: rtranclp_trans)
qed

text \<open>C26: up to 1024 messages of at most 2048 bytes, each arriving as its own one or two segments, are put on
  an empty channel by the read loop by itself, complete and in order, marked with the address of the connection.
  Every run of the loop alone comes to this point or has passed it, and if the connection is still open the loop
  then waits for more.\<close>

theorem messages_in_order:
  assumes "\<forall>f \<in> set fs. snd f \<noteq> [] \<and> length (snd f) \<le> 2048" and "length fs \<le> 1024"
    and "inp p = \<lparr>segs = concat (map frame fs), fin = e\<rparr>"
  shows "\<exists>c. loop_runs (open_conn p) c \<and> phase c = Reading \<and> content (inp (cpeer c)) = [] \<and>
    rpcch c = map (\<lambda>f. \<lparr>From = RemoteAddr p, Payload = snd f, Stream = False\<rparr>) fs \<and>
    (\<forall>d. loop_runs (open_conn p) d \<longrightarrow> loop_runs d c \<or> loop_runs c d) \<and>
    (e = Open \<longrightarrow> (\<nexists>d. loop_step c d))"
proof -
  obtain c where c: "loop_runs (open_conn p) c" "phase c = Reading" "content (inp (cpeer c)) = []" "fin (inp (cpeer c)) = e"
    "rpcch c = map (\<lambda>f. \<lparr>From = RemoteAddr p, Payload = snd f, Stream = False\<rparr>) fs"
    using frames_run [OF assms(1), of "open_conn p" "[]" e] assms(2,3) by (auto simp: rpcch_cap_def simp del: concat_eq_Nil_conv)
  then show ?thesis using loop_runs_linear [OF _ c(1)] rests_without_input [OF c(2,3)]
    by (intro exI [of _ c]) (simp del: concat_eq_Nil_conv)
qed

theorem messages_in_order_witness:
  "\<exists>c. loop_runs (open_conn (NewTCPPeer ''l'' ''r'' \<lparr>segs = [[1], [7, 8], [1, 9]], fin = Open\<rparr> False)) c \<and>
    rpcch c = [\<lparr>From = ''r'', Payload = [7, 8], Stream = False\<rparr>, \<lparr>From = ''r'', Payload = [9], Stream = False\<rparr>] \<and>
    (\<nexists>d. loop_step c d)"
proof -
  let ?fs = "[(True, [7, 8]), (False, [9])]"
  let ?p = "NewTCPPeer ''l'' ''r'' \<lparr>segs = [[1], [7, 8], [1, 9]], fin = Open\<rparr> False"
  have "\<forall>f \<in> set ?fs. snd f \<noteq> [] \<and> length (snd f) \<le> 2048" "length ?fs \<le> 1024"
    "inp ?p = \<lparr>segs = concat (map frame ?fs), fin = Open\<rparr>"
    by (simp_all add: frame_def IncomingMessage_def NewTCPPeer_def)
  from messages_in_order [OF this] show ?thesis by (auto simp: NewTCPPeer_def)
qed

text \<open>One segment makes one RPC of at most 2048 bytes, whatever messages it holds: of a longer
  message only the first 2048 bytes are delivered and the rest is read as the next frame, and
  of two messages joined by the network the second is delivered as the tail of the first.\<close>

theorem segment_is_one_message:
  assumes "phase c = Reading" and "length (rpcch c) < rpcch_cap" and "t \<noteq> IncomingStream" and "bs \<noteq> []"
    and "inp (cpeer c) = \<lparr>segs = [(t # bs)], fin = Open\<rparr>"
  shows "\<exists>c'. loop_runs c c' \<and> content (inp (cpeer c')) = drop 2048 bs \<and>
    rpcch c' = rpcch c @ [\<lparr>From = RemoteAddr (cpeer c), Payload = take 2048 bs, Stream = False\<rparr>]"
proof -
  have "Decode (inp (cpeer c)) zero_RPC =
      (Ret (zero_RPC\<lparr>Payload := take 2048 bs\<rparr>), \<lparr>segs = [drop 2048 bs], fin = Open\<rparr>)"
    using Decode_frame(2) [OF assms(3,4), of "[]"] assms(5) by simp
  from decode_run [OF assms(1) this _ assms(2)] show ?thesis
    by (force simp: zero_RPC_def)
qed

theorem segment_is_one_message_witness:
  "\<exists>c. loop_runs (open_conn (NewTCPPeer ''l'' ''r'' \<lparr>segs = [[1, 7, 1, 8]], fin = Open\<rparr> False)) c \<and>
    rpcch c = [\<lparr>From = ''r'', Payload = [7, 1, 8], Stream = False\<rparr>]"
proof -
  let ?c = "open_conn (NewTCPPeer ''l'' ''r'' \<lparr>segs = [[1, 7, 1, 8]], fin = Open\<rparr> False)"
  have c: "phase ?c = Reading" "length (rpcch ?c) < rpcch_cap"
    "inp (cpeer ?c) = \<lparr>segs = [(1 # [7, 1, 8])], fin = Open\<rparr>" "(1 :: byte) \<noteq> IncomingStream"
    "[7, 1, 8 :: byte] \<noteq> []"
    by (simp_all add: rpcch_cap_def NewTCPPeer_def IncomingStream_def)
  from segment_is_one_message [OF c(1,2,4,5,3)] show ?thesis
    by (auto simp: NewTCPPeer_def)
qed

lemma closed_run:
  assumes "phase c = Reading" and "content (inp (cpeer c)) = []" and "fin (inp (cpeer c)) = AtEOF"
    and "length (rpcch c) + k \<le> rpcch_cap"
  shows "\<exists>c'. loop_runs c c' \<and> phase c' = Reading \<and> content (inp (cpeer c')) = [] \<and> fin (inp (cpeer c')) = AtEOF \<and>
    RemoteAddr (cpeer c') = RemoteAddr (cpeer c) \<and>
    rpcch c' = rpcch c @ replicate k \<lparr>From = RemoteAddr (cpeer c), Payload = [], Stream = False\<rparr>"
  using assms
proof (induction k arbitrary: c)
  case 0
  then show ?case by (intro exI [of _ c]) (simp del: concat_eq_Nil_conv)
next
  case (Suc k)
  let ?rpc = "\<lparr>From = RemoteAddr (cpeer c), Payload = [], Stream = False\<rparr>"
  let ?c = "(set_inp ((inp (cpeer c))\<lparr>segs := []\<rparr>) c)\<lparr>phase := Reading, put := put c @ [?rpc], rpcch := rpcch c @ [?rpc]\<rparr>"
  have "Decode (inp (cpeer c)) zero_RPC = (Ret zero_RPC, (inp (cpeer c))\<lparr>segs := []\<rparr>)"
    using Suc.prems(2,3) by (intro Decode_end) simp_all
  from decode_run [OF Suc.prems(1) this] have step: "loop_runs c ?c" using Suc.prems(4) by (simp add: zero_RPC_def)
  have "\<exists>c'. loop_runs ?c c' \<and> phase c' = Reading \<and> content (inp (cpeer c')) = [] \<and>
    fin (inp (cpeer c')) = AtEOF \<and> RemoteAddr (cpeer c') = RemoteAddr (cpeer ?c) \<and>
    rpcch c' = rpcch ?c @ replicate k \<lparr>From = RemoteAddr (cpeer ?c), Payload = [], Stream = False\<rparr>"
    by (rule Suc.IH) (use Suc.prems in auto)
  then show ?case using step by (auto intro: rtranclp_trans)
qed

text \<open>C24: the read loop never leaves a closed connection, since the decoder reports no error at its end. By
  itself it fills the channel with empty RPCs up to its 1024 places and then holds one more, for which it
  waits: it has never returned, and this is the one state in which it comes to rest.\<close>

theorem closed_connection_floods:
  assumes "phase c = Reading" and "content (inp (cpeer c)) = []" and "fin (inp (cpeer c)) = AtEOF"
    and "length (rpcch c) \<le> 1024"
  defines "m \<equiv> \<lparr>From = RemoteAddr (cpeer c), Payload = [], Stream = False\<rparr>"
  shows "\<exists>c'. loop_runs c c' \<and> phase c' = Holding m \<and> rpcch c' = rpcch c @ replicate (1024 - length (rpcch c)) m \<and>
    (\<nexists>d. loop_step c' d) \<and> (\<forall>d. loop_runs c d \<and> (\<nexists>d'. loop_step d d') \<longrightarrow> d = c')"
proof -
  have "length (rpcch c) + (1024 - length (rpcch c)) \<le> rpcch_cap" using assms(4) by (simp add: rpcch_cap_def)
  from closed_run [OF assms(1-3) this] obtain c1 where c1: "loop_runs c c1" "phase c1 = Reading"
    "content (inp (cpeer c1)) = []" "fin (inp (cpeer c1)) = AtEOF" "RemoteAddr (cpeer c1) = RemoteAddr (cpeer c)"
    "rpcch c1 = rpcch c @ replicate (1024 - length (rpcch c)) m" unfolding m_def by blast
  let ?c = "(set_inp ((inp (cpeer c1))\<lparr>segs := []\<rparr>) c1)\<lparr>phase := Holding m\<rparr>"
  have "Decode (inp (cpeer c1)) zero_RPC = (Ret zero_RPC, (inp (cpeer c1))\<lparr>segs := []\<rparr>)"
    using c1(3,4) by (intro Decode_end) simp_all
  from decode_hold [OF c1(2) this] have "loop_runs c1 ?c" by (simp add: zero_RPC_def m_def c1(5))
  with c1(1) have run: "loop_runs c ?c" by (rule rtranclp_trans)
  have "length (rpcch ?c) = 1024" using c1(6) assms(4) by simp
  then have rest: "\<nexists>d. loop_step ?c d" by (auto elim: loop_step.cases simp: rpcch_cap_def)
  have "d = ?c" if "loop_runs c d" "\<nexists>d'. loop_step d d'" for d
    using loop_runs_linear [OF run that(1)] at_rest [OF _ rest] at_rest [OF _ that(2)] by metis
  then have all: "\<forall>d. loop_runs c d \<and> (\<nexists>d'. loop_step d d') \<longrightarrow> d = ?c" by blast
  have "phase ?c = Holding m" "rpcch ?c = rpcch c @ replicate (1024 - length (rpcch c)) m" using c1(6) by simp_all
  with run rest all show ?thesis by blast
qed

theorem closed_connection_floods_witness:
  "\<exists>c. loop_runs (open_conn (NewTCPPeer ''l'' ''r'' \<lparr>segs = [], fin = AtEOF\<rparr> True)) c \<and>
    length (rpcch c) = 1024 \<and> (\<nexists>d. loop_step c d)"
proof -
  let ?c = "open_conn (NewTCPPeer ''l'' ''r'' \<lparr>segs = [], fin = AtEOF\<rparr> True)"
  have "phase ?c = Reading" "content (inp (cpeer ?c)) = []" "fin (inp (cpeer ?c)) = AtEOF"
    "length (rpcch ?c) \<le> 1024"
    by (simp_all add: NewTCPPeer_def)
  from closed_connection_floods [OF this] obtain c' where
    "loop_runs ?c c'" "rpcch c' = rpcch ?c @ replicate (1024 - length (rpcch ?c)) \<lparr>From = RemoteAddr (cpeer ?c), Payload = [], Stream = False\<rparr>"
    "\<nexists>d. loop_step c' d" by blast
  then show ?thesis by (intro exI [of _ c']) simp
qed

text \<open>In every run of a connection at most one stream is open at a time, and only while the loop
  waits for it; when the loop is not waiting, closing a stream panics.\<close>

theorem one_stream_at_a_time:
  assumes "conn_steps (open_conn p) c" and "wg p = 0"
  shows "wg (cpeer c) \<le> 1 \<and> (phase c \<noteq> InStream \<longrightarrow> (\<exists>m. fst (CloseStream (cpeer c)) = Panic m))"
proof -
  have "wg (cpeer c) \<le> 1 \<and> (phase c \<noteq> InStream \<longrightarrow> wg (cpeer c) = 0)"
    using assms(1)
  proof (induction rule: rtranclp_induct)
    case (step c c')
    from step.hyps(2) show ?case
    proof cases
      case loops
      then show ?thesis using step.IH by cases auto
    qed (use step.IH in \<open>auto simp: conn_read_def CloseStream_def split: if_splits prod.splits\<close>)
  qed (use assms(2) in simp)
  then show ?thesis by (auto simp: CloseStream_def)
qed

theorem one_stream_at_a_time_witness:
  "\<exists>m. fst (CloseStream (cpeer (open_conn (NewTCPPeer ''l'' ''r'' (buffer []) True)))) = Panic m"
  using one_stream_at_a_time [of "NewTCPPeer ''l'' ''r'' (buffer []) True", OF rtranclp.rtrancl_refl]
  by (simp add: NewTCPPeer_def)

text \<open>C39: the byte that announces a stream is read by the loop or by the handler, whichever comes
  first. If the loop comes first, its one step takes the byte, puts nothing on the channel and waits with the
  stream open; the handler's read then gets exactly the data, and the loop goes on only when the handler has
  closed the stream. If the handler's read comes first, it gets the byte, the loop by itself puts the data on
  the channel as a message of which the first byte is missing, and closing the stream then panics.\<close>

theorem stream_tag_race:
  assumes "phase c = Reading" and "wg (cpeer c) = 0" and "length (rpcch c) < 1024"
    and "inp (cpeer c) = \<lparr>segs = [[IncomingStream], t # d], fin = Open\<rparr>" and "t \<noteq> IncomingStream" and "d \<noteq> []"
  shows "(\<exists>c1 p2 p3. (\<forall>c'. loop_step c c' \<longleftrightarrow> c' = c1) \<and> phase c1 = InStream \<and> rpcch c1 = rpcch c \<and>
      conn_read (length (t # d)) (cpeer c1) = (Ret (t # d), p2) \<and> (\<nexists>c'. loop_step (c1\<lparr>cpeer := p2\<rparr>) c') \<and>
      CloseStream p2 = (Ret (), p3) \<and> content (inp p3) = [] \<and>
      (\<forall>c'. loop_step (c1\<lparr>cpeer := p3\<rparr>) c' \<longleftrightarrow> c' = c1\<lparr>cpeer := p3, phase := Reading\<rparr>)) \<and>
    (\<exists>p1 c2. conn_read 1 (cpeer c) = (Ret [IncomingStream], p1) \<and> loop_runs (c\<lparr>cpeer := p1\<rparr>) c2 \<and>
      phase c2 = Reading \<and> content (inp (cpeer c2)) = drop 2048 d \<and>
      rpcch c2 = rpcch c @ [\<lparr>From = RemoteAddr (cpeer c), Payload = take 2048 d, Stream = False\<rparr>] \<and>
      fst (CloseStream (cpeer c2)) = Panic ''sync: negative WaitGroup counter'')"
proof
  let ?p = "cpeer c"
  let ?i1 = "\<lparr>segs = [[], t # d], fin = Open\<rparr>" and ?i2 = "\<lparr>segs = [[]], fin = Open\<rparr>"
  let ?c1 = "c\<lparr>cpeer := ?p\<lparr>inp := ?i1, wg := 1\<rparr>, phase := InStream\<rparr>"
  let ?p2 = "?p\<lparr>inp := ?i2, wg := 1\<rparr>" and ?p3 = "?p\<lparr>inp := ?i2, wg := 0\<rparr>"
  let ?c3 = "?c1\<lparr>cpeer := ?p3\<rparr>"
  have "Decode (inp ?p) zero_RPC = (Ret (zero_RPC\<lparr>Stream := True\<rparr>), ?i1)"
    using assms(4) by (simp add: Decode_stream)
  from decode_stream_run [OF assms(1) this] have "loop_step c ?c1" using assms(2) by simp
  then have s1: "\<forall>c'. loop_step c c' \<longleftrightarrow> c' = ?c1" using loop_step_det by blast
  have s2: "conn_read (length (t # d)) (cpeer ?c1) = (Ret (t # d), ?p2)"
    by (simp add: conn_read_def read_skip read_one_seg)
  have s3: "\<nexists>c'. loop_step (?c1\<lparr>cpeer := ?p2\<rparr>) c'" by (simp add: rests_in_stream)
  have s4: "CloseStream ?p2 = (Ret (), ?p3)" by (simp add: CloseStream_def)
  have "loop_step ?c3 (?c3\<lparr>phase := Reading\<rparr>)" by (rule loop_step.resume) simp_all
  then have s5: "\<forall>c'. loop_step ?c3 c' \<longleftrightarrow> c' = ?c1\<lparr>cpeer := ?p3, phase := Reading\<rparr>" using loop_step_det by fastforce
  show "\<exists>c1 p2 p3. (\<forall>c'. loop_step c c' \<longleftrightarrow> c' = c1) \<and> phase c1 = InStream \<and> rpcch c1 = rpcch c \<and>
      conn_read (length (t # d)) (cpeer c1) = (Ret (t # d), p2) \<and> (\<nexists>c'. loop_step (c1\<lparr>cpeer := p2\<rparr>) c') \<and>
      CloseStream p2 = (Ret (), p3) \<and> content (inp p3) = [] \<and>
      (\<forall>c'. loop_step (c1\<lparr>cpeer := p3\<rparr>) c' \<longleftrightarrow> c' = c1\<lparr>cpeer := p3, phase := Reading\<rparr>)"
    by (intro exI [of _ ?c1] exI [of _ ?p2] exI [of _ ?p3] conjI s1 s2 s3 s4 s5) simp_all
next
  let ?p = "cpeer c"
  let ?i1 = "\<lparr>segs = [[], t # d], fin = Open\<rparr>" and ?i2 = "\<lparr>segs = [drop 2048 d], fin = Open\<rparr>"
  let ?p1 = "?p\<lparr>inp := ?i1\<rparr>"
  let ?rpc = "\<lparr>From = RemoteAddr ?p, Payload = take 2048 d, Stream = False\<rparr>"
  let ?c2 = "c\<lparr>cpeer := ?p\<lparr>inp := ?i2\<rparr>, phase := Reading, put := put c @ [?rpc], rpcch := rpcch c @ [?rpc]\<rparr>"
  have r: "conn_read 1 ?p = (Ret [IncomingStream], ?p1)"
    using assms(4) by (simp add: conn_read_def read_one_seg)
  have "Decode (inp (cpeer (c\<lparr>cpeer := ?p1\<rparr>))) zero_RPC = (Ret (zero_RPC\<lparr>Payload := take 2048 d\<rparr>), ?i2)"
    using Decode_frame(2) [OF assms(5,6)] by (simp add: Decode_skip)
  from decode_run [OF _ this] have "loop_runs (c\<lparr>cpeer := ?p1\<rparr>) ?c2"
    using assms(1,3) by (simp add: zero_RPC_def rpcch_cap_def)
  moreover have "fst (CloseStream (cpeer ?c2)) = Panic ''sync: negative WaitGroup counter''"
    using assms(2) by (simp add: CloseStream_def)
  ultimately show "\<exists>p1 c2. conn_read 1 (cpeer c) = (Ret [IncomingStream], p1) \<and> loop_runs (c\<lparr>cpeer := p1\<rparr>) c2 \<and>
      phase c2 = Reading \<and> content (inp (cpeer c2)) = drop 2048 d \<and>
      rpcch c2 = rpcch c @ [\<lparr>From = RemoteAddr (cpeer c), Payload = take 2048 d, Stream = False\<rparr>] \<and>
      fst (CloseStream (cpeer c2)) = Panic ''sync: negative WaitGroup counter''"
    using r by (intro exI [of _ ?p1] exI [of _ ?c2]) simp
qed

theorem stream_tag_race_witness:
  "\<exists>p1 c2. conn_read 1 (NewTCPPeer ''l'' ''r'' \<lparr>segs = [[2], [7, 8]], fin = Open\<rparr> False) = (Ret [2], p1) \<and>
    loop_runs (open_conn (NewTCPPeer ''l'' ''r'' \<lparr>segs = [[2], [7, 8]], fin = Open\<rparr> False)\<lparr>cpeer := p1\<rparr>) c2 \<and>
    rpcch c2 = [\<lparr>From = ''r'', Payload = [8], Stream = False\<rparr>]"
proof -
  let ?c = "open_conn (NewTCPPeer ''l'' ''r'' \<lparr>segs = [[2], [7, 8]], fin = Open\<rparr> False)"
  have c: "phase ?c = Reading" "wg (cpeer ?c) = 0" "length (rpcch ?c) < 1024"
    "inp (cpeer ?c) = \<lparr>segs = [[IncomingStream], 7 # [8]], fin = Open\<rparr>" "(7 :: byte) \<noteq> IncomingStream"
    "[8 :: byte] \<noteq> []"
    by (simp_all add: open_conn_def NewTCPPeer_def IncomingStream_def)
  from stream_tag_race [OF c, THEN conjunct2] obtain p1 c2 where
    "conn_read 1 (cpeer ?c) = (Ret [IncomingStream], p1)" "loop_runs (?c\<lparr>cpeer := p1\<rparr>) c2"
    "rpcch c2 = rpcch ?c @ [\<lparr>From = RemoteAddr (cpeer ?c), Payload = take 2048 [8], Stream = False\<rparr>]" by blast
  then show ?thesis by (intro exI [of _ p1] exI [of _ c2]) (simp add: NewTCPPeer_def IncomingStream_def)
qed

end
