(* ===== verification/Ring.thy ===== *)
theory Ring
  imports Sha1
begin

text \<open>
  Identifiers of the Chord ring (\<open>chord_util.go\<close>, helper functions): positions are the
  160-bit numbers \<open>hashToNodeID\<close> makes from SHA-1, \<open>isBetween\<close> decides membership in an
  arc of the ring, \<open>fingerID\<close> is the start of a finger. \<open>big.Int\<close> values of the program are
  never negative (all come from \<open>SetBytes\<close>, \<open>Add\<close>, \<open>Exp\<close> and \<open>Mod\<close>), so they are \<open>nat\<close>.

  The specification is the clockwise distance \<open>dist a b\<close>, the number of steps from \<open>a\<close>
  to \<open>b\<close>. The locale \<open>arc\<close> states what the protocol needs from a test for an open arc.
\<close>

section \<open>Definitions of the code\<close>

definition M :: nat where
  "M = 160"

definition hashToNodeID :: "string \<Rightarrow> nat" where
  "hashToNodeID str = set_bytes (sha1 (bytes_of str))"

definition fingerID :: "nat \<Rightarrow> nat \<Rightarrow> nat" where
  "fingerID nid i = (let power = 2 ^ i; sum = nid + power in sum mod 2 ^ M)"

definition isBetween :: "nat \<Rightarrow> nat \<Rightarrow> nat \<Rightarrow> bool \<Rightarrow> bool" where
  "isBetween nid from to inclusive =
     (if from = to then inclusive
      else if from < to then
        (if inclusive then from \<le> nid \<and> nid \<le> to
         else from < nid \<and> nid < to)
      else
        (if inclusive then from \<le> nid \<or> nid \<le> to
         else from < nid \<or> nid < to))"

section \<open>Clockwise distance\<close>

definition ringN :: nat where
  "ringN = 2 ^ M"

definition cdist :: "nat \<Rightarrow> nat \<Rightarrow> nat" where
  "cdist a b = (if a \<le> b then b - a else ringN + b - a)"

lemma ringN_pos [simp]: "0 < ringN"
  by (simp add: ringN_def)

lemma hashToNodeID_bound: "hashToNodeID s < ringN"
proof -
  have "hashToNodeID s < 256 ^ 20"
    using set_bytes_bound [of "sha1 (bytes_of s)"] by (simp add: hashToNodeID_def)
  then show ?thesis by (simp add: ringN_def M_def)
qed

lemma fingerID_bound: "fingerID nid i < ringN"
  by (simp add: fingerID_def ringN_def Let_def)

lemma cdist_bound: "a < ringN \<Longrightarrow> b < ringN \<Longrightarrow> cdist a b < ringN"
  by (auto simp: cdist_def)

lemma cdist_eq_0: "a < ringN \<Longrightarrow> b < ringN \<Longrightarrow> cdist a b = 0 \<longleftrightarrow> a = b"
  by (auto simp: cdist_def)

lemma cdist_self [simp]: "cdist a a = 0"
  by (simp add: cdist_def)

lemma cdist_triangle:
  assumes "a < ringN" and "b < ringN" and "c < ringN" and "cdist a b \<le> cdist a c"
  shows "cdist a c = cdist a b + cdist b c"
  using assms by (auto simp: cdist_def split: if_splits)

lemma cdist_inj: "a < ringN \<Longrightarrow> b < ringN \<Longrightarrow> c < ringN \<Longrightarrow> cdist a b = cdist a c \<Longrightarrow> b = c"
  by (auto simp: cdist_def split: if_splits)

lemma cdist_inj_left: "a < ringN \<Longrightarrow> b < ringN \<Longrightarrow> c < ringN \<Longrightarrow> cdist a c = cdist b c \<Longrightarrow> a = b"
  by (auto simp: cdist_def split: if_splits)

lemma cdist_around: "a < ringN \<Longrightarrow> b < ringN \<Longrightarrow> a \<noteq> b \<Longrightarrow> cdist a b + cdist b a = ringN"
  by (auto simp: cdist_def)

section \<open>What the interval test computes\<close>

lemma isBetween_open:
  assumes "nid < ringN" and "from < ringN" and "to < ringN"
  shows "isBetween nid from to False \<longleftrightarrow> 0 < cdist from nid \<and> cdist from nid < cdist from to"
  using assms by (auto simp: isBetween_def cdist_def)

lemma isBetween_closed:
  assumes "nid < ringN" and "from < ringN" and "to < ringN" and "from \<noteq> to"
  shows "isBetween nid from to True \<longleftrightarrow> cdist from nid \<le> cdist from to"
  using assms by (auto simp: isBetween_def cdist_def)

lemma isBetween_degenerate [simp]: "isBetween nid a a inclusive = inclusive"
  by (simp add: isBetween_def)

lemma isBetween_not_lower: "\<not> isBetween a a b False"
  by (simp add: isBetween_def)

lemma isBetween_not_upper: "\<not> isBetween b a b False"
  by (simp add: isBetween_def)

lemma isBetween_lower: "isBetween a a b True"
  by (simp add: isBetween_def)

lemma isBetween_upper: "isBetween b a b True"
  by (simp add: isBetween_def)

text \<open>The half-open arc \<open>(from, to]\<close> of the Chord protocol, as the code would have it.\<close>

lemma isBetween_half_open:
  assumes "nid < ringN" and "from < ringN" and "to < ringN" and "from \<noteq> to"
  shows "isBetween nid from to True \<longleftrightarrow>
    (0 < cdist from nid \<and> cdist from nid \<le> cdist from to) \<or> nid = from"
  using assms cdist_eq_0 [of "from" nid] by (auto simp: isBetween_closed)

section \<open>The interface of the protocol to the interval test\<close>

text \<open>
  Positions on a circle with a clockwise distance: it splits at what lies on the way, and
  there and back is one full turn.
\<close>

locale circle =
  fixes pos :: "'p \<Rightarrow> bool"
    and d :: "'p \<Rightarrow> 'p \<Rightarrow> nat"
    and turn :: nat
  assumes d_zero: "pos a \<Longrightarrow> pos b \<Longrightarrow> d a b = 0 \<longleftrightarrow> a = b"
    and d_split: "pos a \<Longrightarrow> pos b \<Longrightarrow> pos c \<Longrightarrow> d a b \<le> d a c \<Longrightarrow> d a c = d a b + d b c"
    and d_turn: "pos a \<Longrightarrow> pos b \<Longrightarrow> a \<noteq> b \<Longrightarrow> d a b + d b a = turn"

text \<open>
  A test of an open arc of a circle: it tells whether a position lies strictly between two
  others going clockwise. Everything the maintenance protocol needs about progress follows
  from these laws.
\<close>

locale arc = circle +
  fixes inside :: "'p \<Rightarrow> 'p \<Rightarrow> 'p \<Rightarrow> bool"
  assumes inside_iff: "pos x \<Longrightarrow> pos a \<Longrightarrow> pos b \<Longrightarrow>
      inside x a b \<longleftrightarrow> 0 < d a x \<and> d a x < d a b"
begin

text \<open>A node inside the arc from the predecessor to us is a closer predecessor.\<close>

lemma closer_predecessor:
  assumes "pos p" "pos x" "pos n" and "inside x p n"
  shows "d x n < d p n"
proof -
  from assms have "0 < d p x" and "d p x < d p n" by (simp_all add: inside_iff)
  with assms show ?thesis using d_split [of p x n] by simp
qed

text \<open>A node inside the arc from us to the successor is a closer successor.\<close>

lemma closer_successor:
  assumes "pos n" "pos x" "pos s" and "inside x n s"
  shows "d n x < d n s"
  using assms by (simp add: inside_iff)

text \<open>Forwarding a lookup to a node inside the arc to the target gets closer to it.\<close>

lemma forward_progress:
  assumes "pos n" "pos x" "pos t" and "inside x n t"
  shows "d x t < d n t" and "0 < d x t"
proof -
  from assms have l: "0 < d n x" "d n x < d n t" by (simp_all add: inside_iff)
  with assms have "d n t = d n x + d x t" using d_split [of n x t] by simp
  with l show "d x t < d n t" and "0 < d x t" by simp_all
qed

lemma inside_irrefl: "pos a \<Longrightarrow> pos b \<Longrightarrow> \<not> inside a a b"
  using d_zero [of a a] by (simp add: inside_iff)

lemma inside_not_end: "pos a \<Longrightarrow> pos b \<Longrightarrow> \<not> inside b a b"
  by (simp add: inside_iff)

text \<open>Two arcs that share their start: the inner one is part of the outer one.\<close>

lemma inside_widen:
  assumes "pos a" "pos x" "pos b" "pos c" and "inside x a b" and "d a b \<le> d a c"
  shows "inside x a c"
  using assms by (simp add: inside_iff)

end

interpretation ring: arc "\<lambda>a. a < ringN" cdist ringN "\<lambda>x a b. isBetween x a b False"
  by unfold_locales (fact cdist_eq_0 cdist_triangle cdist_around isBetween_open)+

section \<open>Fingers\<close>

lemma fingerID_distance:
  assumes "nid < ringN" and "i < M"
  shows "cdist nid (fingerID nid i) = 2 ^ i"
proof -
  have p: "(2::nat) ^ i < ringN" using assms(2) by (simp add: ringN_def)
  show ?thesis
  proof (cases "nid + 2 ^ i < ringN")
    case True
    then show ?thesis by (simp add: fingerID_def Let_def ringN_def [symmetric] cdist_def)
  next
    case False
    then have "(nid + 2 ^ i) mod ringN = nid + 2 ^ i - ringN"
      using assms(1) p by (simp add: mod_if)
    then show ?thesis
      using False assms(1) p by (simp add: fingerID_def Let_def ringN_def [symmetric] cdist_def)
  qed
qed

lemma fingerID_not_own: "nid < ringN \<Longrightarrow> i < M \<Longrightarrow> fingerID nid i \<noteq> nid"
  using fingerID_distance [of nid i] by (auto simp: cdist_def)

end
