(* ===== verification/Node.thy ===== *)
theory Node
  imports Ring
begin

text \<open>
  The state of one Chord node and the steps that only touch it (\<open>chord.go\<close>, \<open>chord_util.go\<close>
  and the cores of the handlers of \<open>chord_handler.go\<close>): creation, the local decision of a
  lookup, notification, the answer to a predecessor query, finger repair, the predecessor
  check, and the choice of files to transfer.

  Of another node only the identifier and the address are ever read, so a pointer to a node
  is a \<open>node_ref\<close>; a node that is its own successor holds a reference to itself, and the
  two fields of a node never change after its creation.
\<close>

record node_ref =
  nid :: nat
  naddr :: string

record chord_node =
  self :: node_ref
  successor :: "node_ref option"
  predecessor :: "node_ref option"
  fingers :: "node_ref option list"
  responsibles :: "string list"

definition ref_of :: "string \<Rightarrow> node_ref" where
  "ref_of addr = \<lparr>nid = hashToNodeID addr, naddr = addr\<rparr>"

section \<open>Creation\<close>

definition NewChordNode :: "string \<Rightarrow> chord_node" where
  "NewChordNode addr =
     \<lparr>self = ref_of addr, successor = Some (ref_of addr), predecessor = None,
      fingers = replicate M None, responsibles = []\<rparr>"

definition Create :: "chord_node \<Rightarrow> chord_node" where
  "Create n =
     n\<lparr>predecessor := None, successor := Some (self n), fingers := map (\<lambda>i. Some (self n)) [0..<M]\<rparr>"

text \<open>The state changes of \<open>Join\<close> once the known node was dialled at \<open>remoteAddr\<close>.\<close>

definition join_state :: "string \<Rightarrow> chord_node \<Rightarrow> chord_node" where
  "join_state remoteAddr n = n\<lparr>predecessor := None, successor := Some (ref_of remoteAddr)\<rparr>"

section \<open>Lookup\<close>

fun closest_loop :: "chord_node \<Rightarrow> nat \<Rightarrow> nat \<Rightarrow> node_ref" where
  "closest_loop n ident 0 = self n"
| "closest_loop n ident (Suc i) =
     (case fingers n ! i of
        Some f \<Rightarrow>
          if isBetween (nid f) (nid (self n)) ident False then f else closest_loop n ident i
      | None \<Rightarrow> closest_loop n ident i)"

definition closestPrecedingNode :: "chord_node \<Rightarrow> nat \<Rightarrow> node_ref" where
  "closestPrecedingNode n ident = closest_loop n ident M"

text \<open>What \<open>FindSuccessor\<close> decides before it talks to anyone: an answer, or whom to ask.\<close>

datatype decision = Answer node_ref | Ask node_ref

definition find_step :: "chord_node \<Rightarrow> nat \<Rightarrow> decision" where
  "find_step n ident =
     (case successor n of
        None \<Rightarrow> Answer (self n)
      | Some s \<Rightarrow>
          if naddr s = naddr (self n) then Answer (self n)
          else if isBetween ident (nid (self n)) (nid s) True then Answer s
          else
            (let closestNode = closestPrecedingNode n ident in
             if naddr closestNode = naddr (self n) then Answer s else Ask closestNode))"

section \<open>Maintenance\<close>

text \<open>
  \<open>notify\<close>: adopt a closer predecessor, leave the state of being alone, and say whether
  the transfer of files is started.
\<close>

definition notify :: "node_ref \<Rightarrow> chord_node \<Rightarrow> chord_node \<times> bool" where
  "notify node n =
     (if (case predecessor n of None \<Rightarrow> True
          | Some p \<Rightarrow> isBetween (nid node) (nid p) (nid (self n)) False)
      then
        (let oldPred = predecessor n;
             n1 = n\<lparr>predecessor := Some node\<rparr>;
             n2 = (case successor n1 of
                     Some s \<Rightarrow> if naddr s = naddr (self n1) then n1\<lparr>successor := Some node\<rparr> else n1
                   | None \<Rightarrow> n1);
             transfer = (case oldPred of None \<Rightarrow> True | Some p \<Rightarrow> nid p \<noteq> nid node)
         in (n2, transfer))
      else (n, False))"

text \<open>
  The answer to a predecessor query (\<open>handleMessageGetPredecessorResponse\<close>): the
  successor's predecessor becomes our successor if it lies between us.
\<close>

definition got_predecessor :: "string \<Rightarrow> node_ref \<Rightarrow> chord_node \<Rightarrow> chord_node" where
  "got_predecessor from node n =
     (case successor n of
        None \<Rightarrow> n
      | Some s \<Rightarrow>
          if from = naddr s \<and> isBetween (nid node) (nid (self n)) (nid s) False
          then n\<lparr>successor := Some node\<rparr> else n)"

definition set_finger :: "nat \<Rightarrow> node_ref \<Rightarrow> chord_node \<Rightarrow> chord_node" where
  "set_finger i f n = n\<lparr>fingers := (fingers n)[i := Some f]\<rparr>"

text \<open>\<open>checkPredecessor\<close>: \<open>known\<close> tells whether a connection exists, \<open>alive\<close> whether dialling works.\<close>

definition check_predecessor :: "(string \<Rightarrow> bool) \<Rightarrow> (string \<Rightarrow> bool) \<Rightarrow> chord_node \<Rightarrow> chord_node" where
  "check_predecessor known alive n =
     (case predecessor n of
        None \<Rightarrow> n
      | Some p \<Rightarrow>
          if \<not> known (naddr p) \<and> \<not> alive (naddr p) then n\<lparr>predecessor := None\<rparr> else n)"

text \<open>The selection loop of \<open>transferResponsibilities\<close>.\<close>

definition files_to_transfer :: "chord_node \<Rightarrow> string list" where
  "files_to_transfer n =
     filter (\<lambda>cid. case predecessor n of
                     Some pred \<Rightarrow> isBetween (hashToNodeID cid) (nid pred) (nid (self n)) True
                   | None \<Rightarrow> False)
       (responsibles n)"

section \<open>Well-formed nodes\<close>

text \<open>
  A reference is proper when its identifier is the hash of its address, a node when all its
  references are, it has a successor, and its finger table has its 160 entries.
\<close>

definition proper :: "node_ref \<Rightarrow> bool" where
  "proper r \<longleftrightarrow> nid r = hashToNodeID (naddr r)"

definition node_ok :: "chord_node \<Rightarrow> bool" where
  "node_ok n \<longleftrightarrow>
     proper (self n) \<and>
     (\<exists>s. successor n = Some s \<and> proper s) \<and>
     pred_option proper (predecessor n) \<and>
     length (fingers n) = M \<and> (\<forall>f \<in> set (fingers n). pred_option proper f)"

lemma proper_bound: "proper r \<Longrightarrow> nid r < ringN"
  by (simp add: proper_def hashToNodeID_bound)

lemma proper_ref_of [simp]: "proper (ref_of a)"
  by (simp add: proper_def ref_of_def)

lemma ref_of_simps [simp]: "naddr (ref_of a) = a" "nid (ref_of a) = hashToNodeID a"
  by (simp_all add: ref_of_def)

lemma NewChordNode_ok: "node_ok (NewChordNode addr)"
  by (simp add: node_ok_def NewChordNode_def)

lemma Create_ok: "node_ok n \<Longrightarrow> node_ok (Create n)"
  by (simp add: node_ok_def Create_def del: upt_conv_Nil)

lemma join_state_ok: "node_ok n \<Longrightarrow> node_ok (join_state a n)"
  by (simp add: node_ok_def join_state_def)

lemma notify_ok: "node_ok n \<Longrightarrow> proper r \<Longrightarrow> node_ok (fst (notify r n))"
  by (auto simp: node_ok_def notify_def Let_def split: option.split)

lemma got_predecessor_ok: "node_ok n \<Longrightarrow> proper r \<Longrightarrow> node_ok (got_predecessor a r n)"
  by (auto simp: node_ok_def got_predecessor_def split: option.split)

lemma set_finger_ok: "node_ok n \<Longrightarrow> proper r \<Longrightarrow> node_ok (set_finger i r n)"
  by (auto simp: node_ok_def set_finger_def dest!: set_update_subset_insert [THEN subsetD])

lemma check_predecessor_ok: "node_ok n \<Longrightarrow> node_ok (check_predecessor k a n)"
  by (auto simp: node_ok_def check_predecessor_def split: option.split)

lemma closest_loop_cases:
  "closest_loop n ident i = self n \<or>
   (\<exists>j < i. fingers n ! j = Some (closest_loop n ident i) \<and>
      isBetween (nid (closest_loop n ident i)) (nid (self n)) ident False)"
  by (induction i) (auto split: option.split simp: less_Suc_eq)

lemma closest_loop_proper:
  assumes "node_ok n" and "i \<le> M"
  shows "proper (closest_loop n ident i)"
  using closest_loop_cases [of n ident i]
proof
  assume "closest_loop n ident i = self n"
  then show ?thesis using assms(1) by (simp add: node_ok_def)
next
  assume "\<exists>j < i. fingers n ! j = Some (closest_loop n ident i) \<and>
      isBetween (nid (closest_loop n ident i)) (nid (self n)) ident False"
  then obtain j where j: "j < i" "fingers n ! j = Some (closest_loop n ident i)" by blast
  have "j < length (fingers n)" using assms j(1) by (simp add: node_ok_def)
  then have "fingers n ! j \<in> set (fingers n)" by simp
  then show ?thesis using assms(1) j(2) by (auto simp: node_ok_def)
qed

lemma find_step_proper:
  assumes "node_ok n"
  shows "case find_step n ident of Answer r \<Rightarrow> proper r | Ask r \<Rightarrow> proper r"
  using assms closest_loop_proper [OF assms order_refl]
  by (auto simp: find_step_def node_ok_def closestPrecedingNode_def Let_def split: option.split)

lemma self_unchanged [simp]:
  "self (Create n) = self n" "self (join_state a n) = self n" "self (fst (notify r n)) = self n"
  "self (got_predecessor a r n) = self n" "self (set_finger i r n) = self n"
  "self (check_predecessor k al n) = self n"
  by (auto simp: Create_def join_state_def notify_def got_predecessor_def set_finger_def
      check_predecessor_def Let_def split: option.split)

end
