(* ===== verification/Server.thy ===== *)
theory Server
  imports Wire Store Node "HOL-Library.AList"
begin

text \<open>
  The file server (\<open>server.go\<close>, \<open>message.go\<close>, the sending half of \<open>mesh_util.go\<close>): its
  messages, its state, and the calls the mesh and the Chord operations share.

  A Go map from addresses to peers is an association list without duplicate keys, whose
  order is the order in which a \<open>range\<close> loop happens to visit it; statements about all
  lists are statements about all orders. A pointer to a peer is the address under which the
  map holds it. The global \<open>network\<close> belongs to the process, so to the server.
\<close>

section \<open>Messages\<close>

text \<open>The arguments are the fields of the Go structs, in their order.\<close>

datatype payload =
    MessageFindSuccessor bytes string string
  | MessageFindSuccessorResponse bytes string string
  | MessageGetPredecessor string
  | MessageGetPredecessorResponse bytes string bool
  | MessageNotify bytes string
  | MessageStoreChordFile string string string bool
  | MessageGetChordFile string string
  | MessageDeleteChordFile string string
  | MessageGetFile string
  | MessageStoreFile string string int int int
  | MessageDeleteFile string
  | MessageAddFile string string network

text \<open>The names of the payload types, and those that are registered with \<open>gob\<close>: it encodes no others.\<close>

fun gob_type :: "payload \<Rightarrow> string" where
  "gob_type (MessageFindSuccessor i a q) = ''MessageFindSuccessor''"
| "gob_type (MessageFindSuccessorResponse i a q) = ''MessageFindSuccessorResponse''"
| "gob_type (MessageGetPredecessor a) = ''MessageGetPredecessor''"
| "gob_type (MessageGetPredecessorResponse i a h) = ''MessageGetPredecessorResponse''"
| "gob_type (MessageNotify i a) = ''MessageNotify''"
| "gob_type (MessageStoreChordFile c k a t) = ''MessageStoreChordFile''"
| "gob_type (MessageGetChordFile c a) = ''MessageGetChordFile''"
| "gob_type (MessageDeleteChordFile c a) = ''MessageDeleteChordFile''"
| "gob_type (MessageGetFile c) = ''MessageGetFile''"
| "gob_type (MessageStoreFile c k p t n) = ''MessageStoreFile''"
| "gob_type (MessageDeleteFile c) = ''MessageDeleteFile''"
| "gob_type (MessageAddFile a l n) = ''MessageAddFile''"

definition registerGobTypes :: "string list" where
  "registerGobTypes =
     [''MessageStoreFile'', ''MessageGetFile'', ''MessageDeleteFile'', ''MessageAddFile'',
      ''MessageFindSuccessor'', ''MessageFindSuccessorResponse'', ''MessageGetPredecessor'',
      ''MessageGetPredecessorResponse'', ''MessageNotify'', ''MessageStoreChordFile'',
      ''MessageGetChordFile'', ''MessageDeleteChordFile'']"

lemma every_payload_registered: "gob_type m \<in> set registerGobTypes"
  by (cases m) (simp_all add: registerGobTypes_def)

section \<open>State\<close>

text \<open>
  The world outside: the libraries (\<open>gob\<close> on messages, the ciphers, \<open>gob\<close> on metadata), the
  random source (\<open>rnd i n\<close> is the \<open>n\<close> bytes of the \<open>i\<close>-th draw), and what dialling an
  address does: it is refused, or there is a peer, which the server has or has not yet
  registered when the caller has slept; and the text of the time. The counter \<open>drawn\<close> of a
  server numbers the draws and the readings of the clock.

  \<open>pending\<close> (of the Chord node) holds the requests that wait for an answer and what their channel
  contains (it has room for one node), \<open>transfers\<close> counts the transfers of files that were started,
  \<open>stopped\<close> tells that the quit channel is closed.
\<close>

datatype dial_result = Refused error | Connected peer bool

record env =
  elib :: store_lib
  gob_msg :: "payload \<Rightarrow> bytes"
  ungob_msg :: "bytes \<Rightarrow> payload option"
  rnd :: "nat \<Rightarrow> nat \<Rightarrow> bytes"
  dialing :: "string \<Rightarrow> dial_result"
  clock :: "nat \<Rightarrow> string"

record server =
  saddr :: string
  peers :: "(string \<times> peer) list"
  fstore :: store
  fdisk :: disk
  net :: network
  drawn :: nat
  chord :: "chord_node option"
  pending :: "(string \<times> node_ref option) list"
  transfers :: nat
  stopped :: bool

definition NewFileServer :: "string \<Rightarrow> string \<Rightarrow> (string \<Rightarrow> pathkey) option \<Rightarrow> disk \<Rightarrow> server" where
  "NewFileServer listen root transform d =
     \<lparr>saddr = listen, peers = [], fstore = NewStore root transform, fdisk = d, net = zero_network,
      drawn = 0, chord = None, pending = [], transfers = 0, stopped = False\<rparr>"

section \<open>Peers\<close>

definition OnPeer :: "peer \<Rightarrow> server \<Rightarrow> unit res \<times> server" where
  "OnPeer p s = (Ret (), s\<lparr>peers := AList.update (RemoteAddr p) p (peers s)\<rparr>)"

text \<open>A call on a peer through its pointer; a nil pointer panics.\<close>

definition on_peer :: "string \<Rightarrow> (peer \<Rightarrow> 'a res \<times> peer) \<Rightarrow> server \<Rightarrow> 'a res \<times> server" where
  "on_peer a f s =
     (case map_of (peers s) a of
        None \<Rightarrow> (Panic ''nil pointer dereference'', s)
      | Some p \<Rightarrow> (case f p of (r, p') \<Rightarrow> (r, s\<lparr>peers := AList.update a p' (peers s)\<rparr>)))"

text \<open>A call whose error is dropped.\<close>

definition ignoring :: "'a res \<times> 's \<Rightarrow> unit res \<times> 's" where
  "ignoring m =
     (case m of
        (Ret x, s) \<Rightarrow> (Ret (), s)
      | (Fail e, s) \<Rightarrow> (Ret (), s)
      | (Hang, s) \<Rightarrow> (Hang, s)
      | (Panic p, s) \<Rightarrow> (Panic p, s))"

lemma ignoring_simps [simp, res_simps]:
  "ignoring (Ret x, s) = (Ret (), s)" "ignoring (Fail e, s) = (Ret (), s)"
  "ignoring (Hang, s) = (Hang, s)" "ignoring (Panic p, s) = (Panic p, s)"
  by (simp_all add: ignoring_def)

definition send_frame :: "bytes \<Rightarrow> peer \<Rightarrow> unit res \<times> peer" where
  "send_frame buf p = andthen (ignoring (Send [IncomingMessage] p)) (\<lambda>_ p. Send buf p)"

definition sendMessage :: "env \<Rightarrow> string \<Rightarrow> payload \<Rightarrow> server \<Rightarrow> unit res \<times> server" where
  "sendMessage e a msg s = on_peer a (send_frame (gob_msg e msg)) s"

fun broadcast_loop :: "bytes \<Rightarrow> (string \<times> peer) list \<Rightarrow> unit res \<times> (string \<times> peer) list" where
  "broadcast_loop buf [] = (Ret (), [])"
| "broadcast_loop buf ((a, p) # ps) =
     (case send_frame buf p of
        (Ret u, p') \<Rightarrow> (case broadcast_loop buf ps of (r, ps') \<Rightarrow> (r, (a, p') # ps'))
      | (r, p') \<Rightarrow> (r, (a, p') # ps))"

definition broadcast :: "env \<Rightarrow> payload \<Rightarrow> server \<Rightarrow> unit res \<times> server" where
  "broadcast e msg s =
     (case broadcast_loop (gob_msg e msg) (peers s) of (r, ps) \<Rightarrow> (r, s\<lparr>peers := ps\<rparr>))"

text \<open>\<open>Transport.Dial\<close> and the registration of the new peer by \<open>OnPeer\<close>.\<close>

definition Dial :: "env \<Rightarrow> string \<Rightarrow> server \<Rightarrow> string res \<times> server" where
  "Dial e a s =
     (case dialing e a of
        Refused er \<Rightarrow> (Fail er, s)
      | Connected p registered \<Rightarrow>
          (Ret (RemoteAddr p), if registered then snd (OnPeer p s) else s))"

text \<open>
  \<open>startAcceptLoop\<close> on what \<open>Accept\<close> returns: connections, errors, and the end of the listener. A
  failed \<open>Accept\<close> is reported and then treated like a connection, a nil one, whose first use
  panics. Each connection registers its peer when its goroutine starts.
\<close>

datatype accepted = Accepted peer | AcceptFailed error | ListenerClosed

fun startAcceptLoop :: "accepted list \<Rightarrow> server \<Rightarrow> unit res \<times> server" where
  "startAcceptLoop [] s = (Hang, s)"
| "startAcceptLoop (ListenerClosed # as) s = (Ret (), s)"
| "startAcceptLoop (AcceptFailed er # as) s = (Panic ''nil pointer dereference'', s)"
| "startAcceptLoop (Accepted p # as) s = andthen (OnPeer p s) (\<lambda>_ s. startAcceptLoop as s)"

text \<open>\<open>Stop\<close> closes the quit channel; a channel is closed once.\<close>

definition Stop :: "server \<Rightarrow> unit res \<times> server" where
  "Stop s =
     (if stopped s then (Panic ''close of closed channel'', s) else (Ret (), s\<lparr>stopped := True\<rparr>))"

section \<open>Random keys\<close>

text \<open>The random source of the operating system does not fail.\<close>

definition NewEncryptionKey :: "env \<Rightarrow> nat \<Rightarrow> bytes" where
  "NewEncryptionKey e i = rnd e i 32"

definition GenerateNonce :: "env \<Rightarrow> nat \<Rightarrow> bytes" where
  "GenerateNonce e i = rnd e i 12"

lemmas random_keys [simp] = NewEncryptionKey_def GenerateNonce_def

section \<open>The store of a server\<close>

definition srv_has :: "server \<Rightarrow> string \<Rightarrow> bool" where
  "srv_has s cid = Has (fstore s) (fdisk s) cid"

definition srv_read :: "env \<Rightarrow> server \<Rightarrow> string \<Rightarrow> (nat \<times> bytes \<times> metadata) res" where
  "srv_read e s cid = ReadDecrypt (elib e) (net s) (fstore s) (fdisk s) cid"

definition srv_metadata :: "env \<Rightarrow> server \<Rightarrow> string \<Rightarrow> metadata res" where
  "srv_metadata e s cid = readMetadata (elib e) (net s) (fstore s) (fdisk s) cid"

text \<open>Writing draws two initialisation vectors, for the file and for its metadata.\<close>

definition srv_write ::
  "env \<Rightarrow> string \<Rightarrow> string \<Rightarrow> stream \<Rightarrow> int \<Rightarrow> int \<Rightarrow> server \<Rightarrow> nat res \<times> server" where
  "srv_write e cid key r part totalParts s =
     (case WriteEncrypt (elib e) (net s) (rnd e (drawn s) 16) (rnd e (drawn s + 1) 16) (fstore s)
             cid key r part totalParts (fdisk s) of
        (res, d) \<Rightarrow> (res, s\<lparr>fdisk := d, drawn := drawn s + 2\<rparr>))"

definition srv_delete :: "string \<Rightarrow> server \<Rightarrow> unit res \<times> server" where
  "srv_delete cid s = (case Delete (fstore s) cid (fdisk s) of (r, d) \<Rightarrow> (r, s\<lparr>fdisk := d\<rparr>))"

text \<open>What a client gets of a file: its text and its name.\<close>

definition named_file :: "(nat \<times> bytes \<times> metadata) res \<Rightarrow> (bytes \<times> string) res" where
  "named_file r = rbind r (\<lambda>(n, buf, m). Ret (buf, MetaFileName m))"

section \<open>Sending\<close>

lemma send_frame_ok:
  "broken p = None \<Longrightarrow> send_frame buf p = (Ret (), p\<lparr>outp := outp p @ [[IncomingMessage], buf]\<rparr>)"
  by (simp add: send_frame_def Send_def conn_write_def)

lemma send_frame_broken: "broken p = Some er \<Longrightarrow> send_frame buf p = (Fail er, p)"
  by (simp add: send_frame_def Send_def conn_write_def)

lemma broadcast_loop_ok:
  "\<forall>(a, p) \<in> set ps. broken p = None \<Longrightarrow>
    broadcast_loop buf ps = (Ret (), map (\<lambda>(a, p). (a, p\<lparr>outp := outp p @ [[IncomingMessage], buf]\<rparr>)) ps)"
  by (induction buf ps rule: broadcast_loop.induct) (auto simp: send_frame_ok)

lemma broadcast_loop_keys [simp]: "map fst (snd (broadcast_loop buf ps)) = map fst ps"
  by (induction buf ps rule: broadcast_loop.induct)
    (auto split: prod.splits res.splits)

text \<open>Sending changes of a connection only what was written to it.\<close>

definition same_conn :: "string \<times> peer \<Rightarrow> string \<times> peer \<Rightarrow> bool" where
  "same_conn x y \<longleftrightarrow> fst y = fst x \<and> inp (snd y) = inp (snd x) \<and> wg (snd y) = wg (snd x) \<and>
     broken (snd y) = broken (snd x) \<and> RemoteAddr (snd y) = RemoteAddr (snd x)"

lemma same_conn_refl: "list_all2 same_conn ps ps"
  by (rule list_all2_refl) (simp add: same_conn_def)

lemma send_frame_same: "same_conn (a, p) (a, snd (send_frame buf p))"
  by (cases "broken p") (simp_all add: send_frame_ok send_frame_broken same_conn_def)

lemma broadcast_loop_same: "list_all2 same_conn ps (snd (broadcast_loop buf ps))"
proof (induction ps)
  case Nil
  then show ?case by simp
next
  case (Cons x ps)
  obtain a p where x: "x = (a, p)" by (cases x)
  show ?case
    using Cons.IH same_conn_refl [of ps] send_frame_same [of a p buf] unfolding x
    by (cases "broken p"; cases "broadcast_loop buf ps") (simp_all add: send_frame_ok send_frame_broken)
qed

lemma on_peer_Some [simp]:
  "map_of (peers s) a = Some p \<Longrightarrow> f p = (r, q) \<Longrightarrow> on_peer a f s = (r, s\<lparr>peers := AList.update a q (peers s)\<rparr>)"
  by (simp add: on_peer_def)

end
