(* ===== verification/Binary.thy ===== *)
theory Binary
  imports Wire
begin

text \<open>
  \<open>encoding/binary\<close> as the program uses it: little-endian integers of fixed width, written to
  and read from a peer. A read that fails leaves the variable at zero, and no caller looks
  at the error.
\<close>

fun le_bytes :: "nat \<Rightarrow> nat \<Rightarrow> bytes" where
  "le_bytes 0 n = []"
| "le_bytes (Suc k) n = of_nat n # le_bytes k (n div 256)"

fun of_le :: "bytes \<Rightarrow> nat" where
  "of_le [] = 0"
| "of_le (b # bs) = unat b + 256 * of_le bs"

definition put_int64 :: "int \<Rightarrow> bytes" where
  "put_int64 i = le_bytes 8 (unat (word_of_int i :: 64 word))"

definition get_int64 :: "bytes \<Rightarrow> int" where
  "get_int64 bs = sint (of_nat (of_le bs) :: 64 word)"

definition put_uint32 :: "nat \<Rightarrow> bytes" where
  "put_uint32 n = le_bytes 4 (unat (of_nat n :: 32 word))"

definition get_uint32 :: "bytes \<Rightarrow> nat" where
  "get_uint32 bs = of_le bs"

text \<open>\<open>binary.Read\<close> into an int64 that is zero.\<close>

definition read_int64 :: "peer \<Rightarrow> int res \<times> peer" where
  "read_int64 p =
     (case read_full 8 (inp p) of
        (Ret bs, i) \<Rightarrow> (Ret (get_int64 bs), p\<lparr>inp := i\<rparr>)
      | (Fail e, i) \<Rightarrow> (Ret 0, p\<lparr>inp := i\<rparr>)
      | (Hang, i) \<Rightarrow> (Hang, p\<lparr>inp := i\<rparr>)
      | (Panic m, i) \<Rightarrow> (Panic m, p\<lparr>inp := i\<rparr>))"

text \<open>\<open>io.ReadAll(io.LimitReader(peer, n))\<close>\<close>

definition read_limited :: "int \<Rightarrow> peer \<Rightarrow> bytes res \<times> peer" where
  "read_limited n p = (case read_limit n (inp p) of (r, i) \<Rightarrow> (r, p\<lparr>inp := i\<rparr>))"

text \<open>
  \<open>io.LimitReader(peer, n)\<close> handed on as a reader: what the limit lets through, and what
  stays in the connection.
\<close>

definition limit_reader :: "int \<Rightarrow> stream \<Rightarrow> stream \<times> stream" where
  "limit_reader n st =
     (case fetch (nat n) (segs st) of
        (bs, missing, ss) \<Rightarrow>
          (\<lparr>segs = [bs], fin = (if missing = 0 then AtEOF else fin st)\<rparr>, st\<lparr>segs := ss\<rparr>))"

text \<open>\<open>io.Copy(peer, r)\<close> from a buffer: an empty one is not written at all.\<close>

definition copy_to_peer :: "bytes \<Rightarrow> peer \<Rightarrow> nat res \<times> peer" where
  "copy_to_peer bs p = (if bs = [] then (Ret 0, p) else conn_write bs p)"

section \<open>Lemmas\<close>

lemma length_le_bytes [simp]: "length (le_bytes k n) = k"
  by (induction k arbitrary: n) simp_all

lemma of_le_bytes [simp]: "of_le (le_bytes k n) = n mod 256 ^ k"
proof (induction k arbitrary: n)
  case 0
  then show ?case by simp
next
  case (Suc k)
  have "n mod (256 * 256 ^ k) = 256 * (n div 256 mod 256 ^ k) + n mod 256"
    by (simp add: mod_mult2_eq)
  then show ?case using Suc by (simp add: unat_of_nat)
qed

lemma length_put_int64 [simp]: "length (put_int64 i) = 8"
  by (simp add: put_int64_def)

lemma length_put_uint32 [simp]: "length (put_uint32 n) = 4"
  by (simp add: put_uint32_def)

lemma get_put_int64:
  assumes "- (2 ^ 63) \<le> i" and "i < 2 ^ 63"
  shows "get_int64 (put_int64 i) = i"
proof -
  have "unat (word_of_int i :: 64 word) < 256 ^ 8"
    using unsigned_less [of "word_of_int i :: 64 word"] by simp
  then have "get_int64 (put_int64 i) = sint (word_of_int i :: 64 word)"
    by (simp add: get_int64_def put_int64_def)
  also have "\<dots> = i"
    using assms by (simp add: sint_sbintrunc' signed_take_bit_int_eq_self)
  finally show ?thesis .
qed

lemma get_put_nat: "n < 2 ^ 63 \<Longrightarrow> get_int64 (put_int64 (int n)) = int n"
  by (rule get_put_int64) simp_all

lemma get_put_uint32: "n < 2 ^ 32 \<Longrightarrow> get_uint32 (put_uint32 n) = n"
  by (simp add: get_uint32_def put_uint32_def unat_of_nat)

lemma read_int64_ok:
  assumes "content (inp p) = put_int64 i @ rest" and "- (2 ^ 63) \<le> i" and "i < 2 ^ 63"
  shows "\<exists>j. read_int64 p = (Ret i, p\<lparr>inp := j\<rparr>) \<and> content j = rest \<and> fin j = fin (inp p)"
proof -
  obtain r j where r: "read_full 8 (inp p) = (r, j)" by (cases "read_full 8 (inp p)")
  have "r = Ret (put_int64 i)" "content j = rest" "fin j = fin (inp p)"
    using fst_read_full [of 8 "inp p"] snd_read_full [of 8 "inp p"] assms(1) r by simp_all
  then show ?thesis using r get_put_int64 [OF assms(2,3)] by (intro exI [of _ j]) (simp add: read_int64_def)
qed

lemma read_int64_hang:
  assumes "length (content (inp p)) < 8" and "fin (inp p) = Open"
  shows "fst (read_int64 p) = Hang"
proof -
  obtain r j where r: "read_full 8 (inp p) = (r, j)" by (cases "read_full 8 (inp p)")
  then show ?thesis
    using fst_read_full [of 8 "inp p"] assms by (simp add: read_int64_def)
qed

lemma read_limited_ok:
  assumes "content (inp p) = bs @ rest" and "n = int (length bs)"
  shows "\<exists>j. read_limited n p = (Ret bs, p\<lparr>inp := j\<rparr>) \<and> content j = rest \<and> fin j = fin (inp p)"
proof -
  obtain r j where r: "read_limit n (inp p) = (r, j)" by (cases "read_limit n (inp p)")
  then have "r = Ret bs" "content j = rest" "fin j = fin (inp p)"
    using fst_read_limit [of n "inp p"] snd_read_limit [of n "inp p"] assms by simp_all
  then show ?thesis using r by (intro exI [of _ j]) (simp add: read_limited_def)
qed

lemma limit_reader_ok:
  assumes "content st = bs @ rest" and "n = int (length bs)"
  shows "\<exists>j. limit_reader n st = (buffer bs, j) \<and> content j = rest \<and> fin j = fin st"
  using fetch_bytes [of "nat n" "segs st"] assms
  by (auto simp: limit_reader_def buffer_def split: prod.split)

end
