(* ===== verification/Split.thy ===== *)
theory Split
  imports Streams "HOL-Library.AList"
begin

text \<open>
  Splitting a file into one part per node and putting parts together again
  (\<open>mesh_util.go\<close>: \<open>splitFile\<close>, \<open>combineFile\<close>). A Go map from part numbers to readers is an
  association list without duplicate keys; its length is the map's length.
\<close>

section \<open>Definitions of the code\<close>

text \<open>The loop that fills \<open>lengthArray\<close>: the first parts take the remainder.\<close>

fun length_array :: "nat \<Rightarrow> nat \<Rightarrow> nat \<Rightarrow> nat list" where
  "length_array 0 remainder partSize = []"
| "length_array (Suc n) remainder partSize =
     (if remainder > 0 then (partSize + 1) # length_array n (remainder - 1) partSize
      else partSize # length_array n remainder partSize)"

text \<open>A slice expression \<open>data[a:b]\<close> panics when the bounds are wrong.\<close>

definition slice :: "bytes \<Rightarrow> nat \<Rightarrow> nat \<Rightarrow> bytes option" where
  "slice data a b = (if a \<le> b \<and> b \<le> length data then Some (take (b - a) (drop a data)) else None)"

fun part_readers :: "bytes \<Rightarrow> nat \<Rightarrow> nat list \<Rightarrow> stream list option" where
  "part_readers data offset [] = Some []"
| "part_readers data offset (len # lens) =
     (case slice data offset (offset + len) of
        None \<Rightarrow> None
      | Some bs \<Rightarrow>
          map_option (\<lambda>rs. buffer bs # rs) (part_readers data (offset + len) lens))"

definition splitFile :: "string list \<Rightarrow> stream \<Rightarrow> stream list res" where
  "splitFile nodes r =
     (case fst (read_all r) of
        Fail e \<Rightarrow> Fail (Wrap ''failed to read data from reader'' e)
      | Hang \<Rightarrow> Hang
      | Panic p \<Rightarrow> Panic p
      | Ret data \<Rightarrow>
          (let fileSize = length data; numPeers = length nodes in
           if numPeers = 0 then Fail (Errorf ''no peers available to split the file'' [])
           else
             (let remainder = fileSize mod numPeers;
                  partSize = fileSize div numPeers;
                  lengthArray = length_array numPeers remainder partSize
              in case part_readers data 0 lengthArray of
                   None \<Rightarrow> Panic ''slice bounds out of range''
                 | Some readers \<Rightarrow> Ret readers)))"

fun combine_loop :: "nat \<Rightarrow> nat \<Rightarrow> (int \<times> stream) list \<Rightarrow> bytes \<Rightarrow> bytes res" where
  "combine_loop 0 i readerMap acc = Ret acc"
| "combine_loop (Suc n) i readerMap acc =
     (case map_of readerMap (int i) of
        None \<Rightarrow> Fail (Errorf ''missing part'' [])
      | Some reader \<Rightarrow>
          (case fst (read_all reader) of
             Ret bs \<Rightarrow> combine_loop n (Suc i) readerMap (acc @ bs)
           | Fail e \<Rightarrow> Fail (Wrap ''failed to combine part'' e)
           | Hang \<Rightarrow> Hang
           | Panic p \<Rightarrow> Panic p))"

definition combineFile :: "(int \<times> stream) list \<Rightarrow> bytes res" where
  "combineFile readerMap = combine_loop (length readerMap) 1 readerMap []"

section \<open>Lengths\<close>

lemma length_length_array [simp]: "length (length_array n r p) = n"
  by (induction n r p rule: length_array.induct) simp_all

lemma sum_length_array: "r \<le> n \<Longrightarrow> sum_list (length_array n r p) = n * p + r"
  by (induction n r p rule: length_array.induct) auto

lemma length_array_nth:
  "i < n \<Longrightarrow> r \<le> n \<Longrightarrow> length_array n r p ! i = (if i < r then p + 1 else p)"
proof (induction n r p arbitrary: i rule: length_array.induct)
  case (1 r p)
  then show ?case by simp
next
  case (2 n r p)
  then show ?case by (cases i) auto
qed

lemma part_readers_bytes:
  assumes "offset + sum_list lens \<le> length data"
  shows "\<exists>parts. part_readers data offset lens = Some (map buffer parts) \<and>
    map length parts = lens \<and> concat parts = take (sum_list lens) (drop offset data)"
  using assms
proof (induction lens arbitrary: offset)
  case Nil
  then show ?case by simp
next
  case (Cons len lens)
  then have "(offset + len) + sum_list lens \<le> length data" by simp
  from Cons.IH [OF this] obtain parts where
    p: "part_readers data (offset + len) lens = Some (map buffer parts)"
    "map length parts = lens" "concat parts = take (sum_list lens) (drop (offset + len) data)"
    by blast
  let ?bs = "take len (drop offset data)"
  have "part_readers data offset (len # lens) = Some (map buffer (?bs # parts))"
    using p(1) Cons.prems by (simp add: slice_def)
  moreover have "map length (?bs # parts) = len # lens" using p(2) Cons.prems by simp
  moreover have "concat (?bs # parts) = take (sum_list (len # lens)) (drop offset data)"
  proof -
    have "take (len + sum_list lens) (drop offset data) =
        ?bs @ take (sum_list lens) (drop len (drop offset data))"
      by (rule take_add)
    also have "drop len (drop offset data) = drop (offset + len) data"
      by (simp add: add.commute)
    finally show ?thesis using p(3) by simp
  qed
  ultimately show ?case by (intro exI [of _ "?bs # parts"] conjI)
qed

lemma split_parts:
  assumes "nodes \<noteq> []" and "fin r = AtEOF"
  shows "\<exists>parts. splitFile nodes r = Ret (map buffer parts) \<and> length parts = length nodes \<and>
    concat parts = content r \<and>
    map length parts =
      length_array (length nodes) (length (content r) mod length nodes) (length (content r) div length nodes)"
proof -
  let ?n = "length nodes" and ?data = "content r"
  let ?lens = "length_array ?n (length ?data mod ?n) (length ?data div ?n)"
  have n: "?n \<noteq> 0" using assms(1) by simp
  then have "length ?data mod ?n \<le> ?n" by (simp add: less_imp_le)
  then have sum: "sum_list ?lens = length ?data"
    by (simp add: sum_length_array)
  then obtain parts where p: "part_readers ?data 0 ?lens = Some (map buffer parts)"
    "map length parts = ?lens" "concat parts = ?data"
    using part_readers_bytes [of 0 ?lens ?data] by auto
  have "splitFile nodes r = Ret (map buffer parts)"
    using n p(1) assms(2) by (simp add: splitFile_def read_all_EOF Let_def)
  moreover have "length parts = ?n"
    using arg_cong [OF p(2), of length] by simp
  ultimately show ?thesis using p(2,3) by blast
qed

section \<open>Putting parts together\<close>

lemma combine_loop_parts:
  assumes "\<forall>j < n. map_of m (int (i + j)) = Some (buffer (ps ! j))" and "length ps = n"
  shows "combine_loop n i m acc = Ret (acc @ concat ps)"
  using assms
proof (induction n arbitrary: i acc ps)
  case 0
  then show ?case by simp
next
  case (Suc n)
  then obtain q qs where ps: "ps = q # qs" "length qs = n" by (cases ps) auto
  have "map_of m (int i) = Some (buffer q)" using Suc.prems(1) ps by auto
  moreover have "combine_loop n (Suc i) m (acc @ q) = Ret ((acc @ q) @ concat qs)"
  proof (rule Suc.IH)
    show "\<forall>j < n. map_of m (int (Suc i + j)) = Some (buffer (qs ! j))"
    proof (intro allI impI)
      fix j assume "j < n"
      then show "map_of m (int (Suc i + j)) = Some (buffer (qs ! j))"
        using Suc.prems(1) [rule_format, of "Suc j"] ps by simp
    qed
  qed (rule ps(2))
  ultimately show ?case using ps by simp
qed

lemma combine_loop_missing:
  assumes "map_of m (int (i + j)) = None" and "j < n"
    and "\<And>k. k \<in> set m \<Longrightarrow> fin (snd k) = AtEOF"
  shows "\<exists>e. combine_loop n i m acc = Fail e"
  using assms(1,2)
proof (induction n arbitrary: i j acc)
  case 0
  then show ?case by simp
next
  case (Suc n)
  show ?case
  proof (cases "map_of m (int i)")
    case None
    then show ?thesis by simp
  next
    case (Some reader)
    then have "fin reader = AtEOF" using assms(3) by (auto dest: map_of_SomeD)
    moreover have "j \<noteq> 0" using Suc.prems(1) Some by (cases j) auto
    ultimately show ?thesis
      using Suc.IH [of "Suc i" "j - 1" "acc @ content reader"] Suc.prems Some
      by (simp add: read_all_EOF)
  qed
qed

section \<open>Properties\<close>

text \<open>C30: \<open>splitFile\<close> never fails on a reader that ends, nor slices out of range: it makes one part per
  node, in order, whose concatenation is the file and whose sizes differ by one at most, the
  longer parts first.\<close>

theorem split_is_fair:
  assumes "nodes \<noteq> []" and "fin r = AtEOF"
  shows "\<exists>parts. splitFile nodes r = Ret (map buffer parts) \<and> length parts = length nodes \<and>
    concat parts = content r \<and>
    (\<forall>i < length nodes. length (parts ! i) =
       length (content r) div length nodes + (if i < length (content r) mod length nodes then 1 else 0))"
proof -
  obtain parts where p: "splitFile nodes r = Ret (map buffer parts)" "length parts = length nodes"
    "concat parts = content r"
    "map length parts =
      length_array (length nodes) (length (content r) mod length nodes) (length (content r) div length nodes)"
    using split_parts [OF assms] by blast
  have "length (parts ! i) =
      length (content r) div length nodes + (if i < length (content r) mod length nodes then 1 else 0)"
    if i: "i < length nodes" for i
  proof -
    have "length (content r) mod length nodes < length nodes" using i by (intro mod_less_divisor) linarith
    then have "length (content r) mod length nodes \<le> length nodes" by (rule less_imp_le)
    then show ?thesis
      using arg_cong [OF p(4), of "\<lambda>l. l ! i"] i p(2) by (simp add: length_array_nth)
  qed
  with p show ?thesis by blast
qed

theorem split_is_fair_witness:
  "\<exists>parts. splitFile [''a'', ''b''] (buffer [1, 2, 3]) = Ret (map buffer parts) \<and> concat parts = [1, 2, 3] \<and>
     length parts = 2"
proof -
  have "[''a'', ''b''] \<noteq> []" by simp
  from split_is_fair [OF this fin_buffer, of "[1, 2, 3]"] show ?thesis by auto
qed

text \<open>C18: the parts of a split file, collected under their numbers in any order, combine to the file.\<close>

theorem split_combine_roundtrip:
  assumes "nodes \<noteq> []" and "fin r = AtEOF" and "splitFile nodes r = Ret readers"
    and "distinct (map fst m)" and "set m = set (zip (map int [1..<Suc (length nodes)]) readers)"
  shows "combineFile m = Ret (content r)"
proof -
  obtain parts where p: "splitFile nodes r = Ret (map buffer parts)" "length parts = length nodes"
    "concat parts = content r"
    using split_parts [OF assms(1,2)] by blast
  let ?z = "zip (map int [1..<Suc (length nodes)]) readers"
  have readers: "readers = map buffer parts" using assms(3) p(1) by simp
  have keys: "map fst ?z = map int [1..<Suc (length nodes)]"
    using readers p(2) assms(1) by (intro map_fst_zip) (simp del: upt_Suc)
  then have "distinct (map fst ?z)" by (simp add: distinct_map del: upt_Suc)
  then have "length m = length ?z"
    using assms(4,5) distinct_card [of m] distinct_card [of ?z] by (simp only: distinct_map)
  then have len: "length m = length nodes" using readers p(2) by (simp del: upt_Suc)
  have "map_of m (int (1 + j)) = Some (buffer (parts ! j))" if j: "j < length nodes" for j
  proof -
    have "?z ! j = (int (1 + j), buffer (parts ! j))"
      using j readers p(2) by (simp add: nth_append del: upt_Suc)
    moreover have "?z ! j \<in> set ?z" using j readers p(2) by (intro nth_mem) simp
    ultimately have "(int (1 + j), buffer (parts ! j)) \<in> set m" using assms(5) by simp
    then show ?thesis using assms(4) by simp
  qed
  then have "combine_loop (length nodes) 1 m [] = Ret ([] @ concat parts)"
    by (intro combine_loop_parts) (simp_all add: p(2))
  then show ?thesis using len p(3) by (simp add: combineFile_def)
qed

theorem split_combine_roundtrip_witness:
  "combineFile [(2, buffer [3]), (1, buffer [1, 2])] = Ret [1, 2, 3]"
proof -
  have n: "[''a'', ''b''] \<noteq> []" by simp
  have d: "Suc (Suc (Suc 0)) div Suc (Suc 0) = 1" "Suc (Suc (Suc 0)) mod Suc (Suc 0) = 1"
    by presburger+
  have s: "splitFile [''a'', ''b''] (buffer [1, 2, 3]) = Ret [buffer [1, 2], buffer [3]]"
    by (simp add: splitFile_def slice_def d)
  show ?thesis
    using split_combine_roundtrip [OF n fin_buffer s, of "[(2, buffer [3]), (1, buffer [1, 2])]"] by auto
qed

text \<open>Collected parts with a number missing among the first ones are refused: as many parts as
  expected, but not the expected numbers, never combine to a file.\<close>

theorem combine_needs_all_parts:
  assumes "\<forall>r \<in> snd ` set m. fin r = AtEOF" and "1 \<le> i" and "i \<le> length m" and "int i \<notin> fst ` set m"
  shows "\<exists>e. combineFile m = Fail e"
proof -
  have "map_of m (int (1 + (i - 1))) = None" using assms(2,4) by (simp add: map_of_eq_None_iff)
  then show ?thesis
    using assms(1-3) unfolding combineFile_def
    by (intro combine_loop_missing [where j = "i - 1"]) auto
qed

theorem combine_needs_all_parts_witness:
  "\<exists>e. combineFile [(0, buffer [1]), (1, buffer [2])] = Fail e"
  by (rule combine_needs_all_parts [where i = 2]) auto

end
