(* ===== verification/Mesh.thy ===== *)
theory Mesh
  imports Server Binary Split
begin

text \<open>
  The mesh operations (\<open>mesh.go\<close>) and their handlers (\<open>mesh_handler.go\<close>): storing a file on all
  nodes or in parts, fetching it, removing it, adding a node, and what a node does on each
  of the four mesh messages.

  What a peer's connection delivers to an operation is the \<open>inp\<close> of the peer, without the
  byte that announces a stream, which the read loop takes (\<open>Wire.stream_tag_race\<close> on the
  other order). Sleeps and output are left out.
\<close>

section \<open>Fetching\<close>

text \<open>One round of the loop over the peers in \<open>getAll\<close>.\<close>

definition getAll_peer :: "env \<Rightarrow> string \<Rightarrow> string \<Rightarrow> server \<Rightarrow> unit res \<times> server" where
  "getAll_peer e cid a s =
     andthen (on_peer a read_int64 s) (\<lambda>keySize s.
     andthen (on_peer a read_int64 s) (\<lambda>fileSize s.
     andthen (wrapping ''failed to get the key from peer'' (on_peer a (read_limited keySize) s)) (\<lambda>key s.
     andthen (on_peer a (\<lambda>p. case limit_reader fileSize (inp p) of (r, rest) \<Rightarrow> (Ret r, p\<lparr>inp := rest\<rparr>)) s) (\<lambda>r s.
     andthen (case writeStream (fstore s) cid r (fdisk s) of (n, d) \<Rightarrow> (n, s\<lparr>fdisk := d\<rparr>)) (\<lambda>n s.
     andthen (ignoring (case writeMetadata (elib e) (net s) (rnd e (drawn s) 16) (fstore s) cid
                (string_of key) 0 0 (fdisk s) of (u, d) \<Rightarrow> (u, s\<lparr>fdisk := d, drawn := drawn s + 1\<rparr>))) (\<lambda>_ s.
     on_peer a CloseStream s))))))"

fun getAll_loop :: "env \<Rightarrow> string \<Rightarrow> string list \<Rightarrow> server \<Rightarrow> unit res \<times> server" where
  "getAll_loop e cid [] s = (Ret (), s)"
| "getAll_loop e cid (a # as) s = andthen (getAll_peer e cid a s) (\<lambda>_ s. getAll_loop e cid as s)"

definition getAll :: "env \<Rightarrow> string \<Rightarrow> server \<Rightarrow> (bytes \<times> string) res \<times> server" where
  "getAll e cid s =
     (if srv_has s cid then (named_file (srv_read e s cid), s)
      else
        andthen (broadcast e (MessageGetFile cid) s) (\<lambda>_ s.
        andthen (getAll_loop e cid (map fst (peers s)) s) (\<lambda>_ s.
        (named_file (srv_read e s cid), s))))"

text \<open>
  One round of the loop over the peers in \<open>getSplit\<close>: the map of readers and the metadata
  go through the loop. A part that cannot be read or decrypted is skipped.
\<close>

definition getSplit_peer ::
  "env \<Rightarrow> string \<Rightarrow> string \<Rightarrow> (int \<times> stream) list \<times> metadata \<Rightarrow> server \<Rightarrow>
    ((int \<times> stream) list \<times> metadata) res \<times> server" where
  "getSplit_peer e cid a acc s =
     (case acc of (readerMap, md) \<Rightarrow>
        andthen (on_peer a read_int64 s) (\<lambda>partNumber s.
        andthen (on_peer a read_int64 s) (\<lambda>fileSize s.
        (case on_peer a (read_limited fileSize) s of
           (Ret encData, s) \<Rightarrow>
             (case decrypt_to_buffer (elib e) (net s) (buffer encData) of
                Ret (n, dec) \<Rightarrow>
                  (let readerMap' = AList.update partNumber (buffer dec) readerMap;
                       md' = (if TotalParts md = 0
                              then (case srv_metadata e s cid of Ret m \<Rightarrow> m | _ \<Rightarrow> md) else md)
                   in andthen (on_peer a CloseStream s) (\<lambda>_ s. (Ret (readerMap', md'), s)))
              | Fail er \<Rightarrow> andthen (on_peer a CloseStream s) (\<lambda>_ s. (Ret (readerMap, md), s))
              | Hang \<Rightarrow> (Hang, s)
              | Panic m \<Rightarrow> (Panic m, s))
         | (Fail er, s) \<Rightarrow> andthen (on_peer a CloseStream s) (\<lambda>_ s. (Ret (readerMap, md), s))
         | (Hang, s) \<Rightarrow> (Hang, s)
         | (Panic m, s) \<Rightarrow> (Panic m, s)))))"

fun getSplit_loop ::
  "env \<Rightarrow> string \<Rightarrow> string list \<Rightarrow> (int \<times> stream) list \<times> metadata \<Rightarrow> server \<Rightarrow>
    ((int \<times> stream) list \<times> metadata) res \<times> server" where
  "getSplit_loop e cid [] acc s = (Ret acc, s)"
| "getSplit_loop e cid (a # as) acc s =
     andthen (getSplit_peer e cid a acc s) (\<lambda>acc s. getSplit_loop e cid as acc s)"

text \<open>What \<open>getSplit\<close> makes of the parts it has collected.\<close>

definition assemble :: "(int \<times> stream) list \<Rightarrow> metadata \<Rightarrow> (bytes \<times> string) res" where
  "assemble readerMap md =
     (if length readerMap = 0 then Fail (Errorf ''no parts received'' [])
      else if TotalParts md = 0 then Fail (Errorf ''missing metadata'' [])
      else if int (length readerMap) \<noteq> TotalParts md then Fail (Errorf ''incomplete file'' [])
      else rbind (combineFile readerMap) (\<lambda>combined. Ret (combined, MetaFileName md)))"

definition getSplit :: "env \<Rightarrow> string \<Rightarrow> server \<Rightarrow> (bytes \<times> string) res \<times> server" where
  "getSplit e cid s =
     andthen
       (if srv_has s cid then
          (case srv_read e s cid of
             Ret (n, reader, localMeta) \<Rightarrow> (Ret ([(Part localMeta, buffer reader)], localMeta), s)
           | Fail er \<Rightarrow> (Fail (Wrap ''failed to read local part'' er), s)
           | Hang \<Rightarrow> (Hang, s)
           | Panic m \<Rightarrow> (Panic m, s))
        else (Ret ([], zero_metadata), s)) (\<lambda>acc s.
     andthen (broadcast e (MessageGetFile cid) s) (\<lambda>_ s.
     andthen (getSplit_loop e cid (map fst (peers s)) acc s) (\<lambda>(readerMap, md) s.
     (assemble readerMap md, s))))"

definition Get :: "env \<Rightarrow> string \<Rightarrow> server \<Rightarrow> (bytes \<times> string) res \<times> server" where
  "Get e cid s = (if \<not> Split (net s) then getAll e cid s else getSplit e cid s)"

section \<open>Storing\<close>

text \<open>What an encryption reads of its source before it succeeds.\<close>

definition consumed :: "network \<Rightarrow> bytes \<Rightarrow> bytes" where
  "consumed n d = (if EncType n \<in> {''AES'', ''CC20'', ''None''} then d else [])"

text \<open>\<open>io.MultiWriter\<close>: every write goes to each peer in turn, up to the first that fails.\<close>

fun multi_write :: "bytes \<Rightarrow> (string \<times> peer) list \<Rightarrow> unit res \<times> (string \<times> peer) list" where
  "multi_write bs [] = (Ret (), [])"
| "multi_write bs ((a, p) # ps) =
     (case Send bs p of
        (Ret u, p') \<Rightarrow> (case multi_write bs ps of (r, ps') \<Rightarrow> (r, (a, p') # ps'))
      | (r, p') \<Rightarrow> (r, (a, p') # ps))"

definition write_all :: "bytes \<Rightarrow> server \<Rightarrow> unit res \<times> server" where
  "write_all bs s =
     (if bs = [] then (Ret (), s)
      else case multi_write bs (peers s) of (r, ps) \<Rightarrow> (r, s\<lparr>peers := ps\<rparr>))"

text \<open>
  \<open>encrypt(fileBuffer, mw)\<close>. When every peer takes its writes they all get the cipher text;
  otherwise the first write of the encryption (the vector of AES, else the first 32 KiB)
  fails, and the peers before the broken one have got it.
\<close>

definition first_write :: "primitives \<Rightarrow> network \<Rightarrow> bytes \<Rightarrow> bytes \<Rightarrow> bytes" where
  "first_write P n iv d =
     written (snd (encrypt P n iv (buffer (if EncType n = ''AES'' then [] else take 32768 d)) sink))"

definition encrypt_to_all :: "env \<Rightarrow> bytes \<Rightarrow> server \<Rightarrow> nat res \<times> server" where
  "encrypt_to_all e d s =
     (let P = prims (elib e); iv = rnd e (drawn s) 16; s1 = s\<lparr>drawn := drawn s + 1\<rparr> in
      case fst (multi_write [] (peers s)) of
        Ret u \<Rightarrow> (case encrypt P (net s) iv (buffer d) sink of (r, w) \<Rightarrow> (r, snd (write_all (written w) s1)))
      | Fail er \<Rightarrow>
          (fst (encrypt P (net s) iv (buffer d) \<lparr>written = [], werr = Some er\<rparr>),
           snd (write_all (first_write P (net s) iv d) s1))
      | Hang \<Rightarrow> (Hang, s1)
      | Panic m \<Rightarrow> (Panic m, s1))"

definition storeAll :: "env \<Rightarrow> string \<Rightarrow> stream \<Rightarrow> server \<Rightarrow> string res \<times> server" where
  "storeAll e key r s =
     andthen (GenerateCID r, s) (\<lambda>cid s.
     andthen (fst (read_all r), s) (\<lambda>data s.
     andthen (wrapping ''failed to write encrypted data to local disk''
       (srv_write e cid key (buffer data) 0 0 s)) (\<lambda>size s.
     andthen (ignoring (broadcast e (MessageStoreFile cid key 0 0 (int size)) s)) (\<lambda>_ s.
     andthen (ignoring (write_all [IncomingStream] s)) (\<lambda>_ s.
     andthen (encrypt_to_all e (consumed (net s) data) s) (\<lambda>n s.
     (Ret cid, s)))))))"

text \<open>The loop over the peers in \<open>storeSplit\<close>: a part each, while there are parts.\<close>

fun send_parts ::
  "env \<Rightarrow> string \<Rightarrow> string \<Rightarrow> int \<Rightarrow> string list \<Rightarrow> int \<Rightarrow> stream list \<Rightarrow> server \<Rightarrow> unit res \<times> server" where
  "send_parts e cid key totalParts [] partIndex parts s = (Ret (), s)"
| "send_parts e cid key totalParts (a # as) partIndex [] s = (Ret (), s)"
| "send_parts e cid key totalParts (a # as) partIndex (part # parts) s =
     (let partBuffer = (case fst (read_all part) of Ret d \<Rightarrow> d | _ \<Rightarrow> []) in
      andthen (wrapping ''failed to send message to peer''
        (sendMessage e a (MessageStoreFile cid key partIndex totalParts (int (length partBuffer))) s)) (\<lambda>_ s.
      andthen (ignoring (on_peer a (Send [IncomingStream]) s)) (\<lambda>_ s.
      andthen (wrapping ''failed to send part to peer'' (on_peer a (copy_to_peer partBuffer) s)) (\<lambda>_ s.
      send_parts e cid key totalParts as (partIndex + 1) parts s))))"

definition storeSplit :: "env \<Rightarrow> string \<Rightarrow> stream \<Rightarrow> server \<Rightarrow> string res \<times> server" where
  "storeSplit e key r s =
     andthen (GenerateCID r, s) (\<lambda>cid s.
     andthen (fst (read_all r), s) (\<lambda>data s.
     andthen (wrapping ''unable to split the file'' (splitFile (Nodes (net s)) (buffer data), s)) (\<lambda>parts s.
     (let totalParts = int (length parts) in
      case parts of
        [] \<Rightarrow> (Panic ''index out of range'', s)
      | part1 # rest \<Rightarrow>
          andthen (wrapping ''failed to write encrypted data to local disk''
            (srv_write e cid key part1 1 totalParts s)) (\<lambda>size s.
          andthen (send_parts e cid key totalParts (map fst (peers s)) 2 rest s) (\<lambda>_ s.
          (Ret cid, s)))))))"

definition StoreFileMesh :: "env \<Rightarrow> string \<Rightarrow> stream \<Rightarrow> server \<Rightarrow> string res \<times> server" where
  "StoreFileMesh e key r s = (if \<not> Split (net s) then storeAll e key r s else storeSplit e key r s)"

section \<open>Removing and adding\<close>

definition Remove :: "env \<Rightarrow> string \<Rightarrow> server \<Rightarrow> unit res \<times> server" where
  "Remove e cid s =
     andthen (broadcast e (MessageDeleteFile cid) s) (\<lambda>_ s.
     (case srv_delete cid s of
        (Fail er, s) \<Rightarrow> (Fail (Errorf ''Failed to delete file from the disk'' [saddr s, cid]), s)
      | rs \<Rightarrow> rs))"

text \<open>
  \<open>Add\<close>: the address of the peer is read after the sleep whether or not the dialling
  goroutine has set it, so a failed dial leaves a nil interface and the call on it panics.
\<close>

definition default_network :: "env \<Rightarrow> server \<Rightarrow> network" where
  "default_network e s =
     \<lparr>EncType = ''AES'', EncKey = NewEncryptionKey e (drawn s), Nonce = GenerateNonce e (drawn s + 1),
      Nodes = Nodes (net s) @ [saddr s], Split = True\<rparr>"

definition Add :: "env \<Rightarrow> string \<Rightarrow> server \<Rightarrow> unit res \<times> server" where
  "Add e a s =
     (let s0 = (if length (Nodes (net s)) = 0
                then s\<lparr>net := default_network e s, drawn := drawn s + 2\<rparr> else s);
          s1 = s0\<lparr>net := (net s0)\<lparr>Nodes := Nodes (net s0) @ [a]\<rparr>\<rparr>
      in andthen (ignoring (broadcast e (MessageAddFile [] (saddr s1) (net s1)) s1)) (\<lambda>_ s.
         if length a = 0 then (Fail (Errorf ''address is empty'' []), s)
         else
           (case Dial e a s of
              (Ret remoteAddr, s) \<Rightarrow>
                (case map_of (peers s) remoteAddr of
                   None \<Rightarrow> (Fail (Errorf ''peer not found'' []), s)
                 | Some p \<Rightarrow> ignoring (sendMessage e remoteAddr (MessageAddFile remoteAddr (saddr s) (net s)) s))
            | (_, s) \<Rightarrow> (Panic ''nil pointer dereference'', s))))"

section \<open>Handlers\<close>

text \<open>The part of the file \<open>handleMessageGetFile\<close> sends after its checks.\<close>

definition serve_file :: "env \<Rightarrow> string \<Rightarrow> metadata \<Rightarrow> nat \<Rightarrow> stream \<Rightarrow> server \<Rightarrow> unit res \<times> server" where
  "serve_file e a md fileSize r s =
     (let data = (case fst (read_all r) of Ret d \<Rightarrow> d | _ \<Rightarrow> []);
          first = (if \<not> Split (net s) then int (length (MetaFileName md)) else Part md)
      in andthen (ignoring (on_peer a (Send [IncomingStream]) s)) (\<lambda>_ s.
         andthen (ignoring (on_peer a (conn_write (put_int64 first)) s)) (\<lambda>_ s.
         andthen (ignoring (on_peer a (conn_write (put_int64 (int fileSize))) s)) (\<lambda>_ s.
         andthen (if \<not> Split (net s) then on_peer a (copy_to_peer (bytes_of (MetaFileName md))) s else (Ret 0, s)) (\<lambda>_ s.
         andthen (on_peer a (copy_to_peer data) s) (\<lambda>n s.
         (Ret (), s)))))))"

definition handleMessageGetFile :: "env \<Rightarrow> string \<Rightarrow> string \<Rightarrow> server \<Rightarrow> unit res \<times> server" where
  "handleMessageGetFile e from cid s =
     (if \<not> srv_has s cid then (Fail (Errorf ''file is not present in the disk'' [saddr s, cid]), s)
      else
        andthen (wrapping ''error reading metadata'' (srv_metadata e s cid, s)) (\<lambda>md s.
        andthen (Read (fstore s) (fdisk s) cid, s) (\<lambda>(fileSize, r) s.
        (case map_of (peers s) from of
           None \<Rightarrow> (Fail (Errorf ''peer is not in peer map'' [from]), s)
         | Some p \<Rightarrow> serve_file e from md fileSize r s))))"

definition handleMessageStoreFile ::
  "env \<Rightarrow> string \<Rightarrow> string \<Rightarrow> string \<Rightarrow> int \<Rightarrow> int \<Rightarrow> int \<Rightarrow> server \<Rightarrow> unit res \<times> server" where
  "handleMessageStoreFile e from cid key part totalParts sz s =
     (case map_of (peers s) from of
        None \<Rightarrow> (Fail (Errorf ''peer could not be found in the peer list'' [from]), s)
      | Some p \<Rightarrow>
          andthen (wrapping ''failed to read data'' (on_peer from (read_limited sz) s)) (\<lambda>dataBuffer s.
          andthen (srv_write e cid key (buffer dataBuffer) part totalParts s) (\<lambda>n s.
          on_peer from CloseStream s)))"

definition handleMessageDeleteFile :: "string \<Rightarrow> server \<Rightarrow> unit res \<times> server" where
  "handleMessageDeleteFile cid s =
     (case srv_delete cid s of
        (Fail er, s) \<Rightarrow> (Fail (Errorf ''Failed to delete file from the disk'' [saddr s, cid]), s)
      | rs \<Rightarrow> rs)"

fun dial_nodes :: "env \<Rightarrow> string list \<Rightarrow> string \<Rightarrow> string \<Rightarrow> server \<Rightarrow> server" where
  "dial_nodes e [] localAddr a s = s"
| "dial_nodes e (n # ns) localAddr a s =
     (if n = localAddr \<or> n = a then dial_nodes e ns localAddr a s
      else if length n = 0 then dial_nodes e ns localAddr a s
      else dial_nodes e ns localAddr a (snd (Dial e n s)))"

definition handleMessageAddFile ::
  "env \<Rightarrow> string \<Rightarrow> string \<Rightarrow> string \<Rightarrow> network \<Rightarrow> server \<Rightarrow> unit res \<times> server" where
  "handleMessageAddFile e from a localAddr n s =
     (if length a = 0 then (Ret (), s\<lparr>net := (net s)\<lparr>Nodes := Nodes n\<rparr>\<rparr>)
      else
        (let s1 = s\<lparr>net := n\<rparr> in
         case map_of (peers s1) from of
           None \<Rightarrow> (Fail (Errorf ''peer not found'' []), s1)
         | Some p \<Rightarrow> (Ret (), dial_nodes e (Nodes n) localAddr a s1)))"

end
