(* ===== verification/Chord.thy ===== *)
theory Chord
  imports Mesh Node
begin

text \<open>
  The Chord operations (\<open>chord.go\<close>, \<open>chord_util.go\<close>) and handlers (\<open>chord_handler.go\<close>) on a
  file server, and the dispatch of messages (\<open>server.go\<close>, \<open>mesh_util.go\<close>). The steps that touch
  only the Chord node are those of \<open>Node\<close>; here are the messages around them.

  A lookup that asks another node waits for at most ten seconds for an answer that the
  message loop of the server puts on a channel. \<open>replies\<close> is what the attempts of one call
  get: a node, or \<open>None\<close> for a timeout; after the end of the list no answer comes. A handler
  runs in the message loop itself, so while it waits nothing is put on any channel: its
  lookups have no replies.
\<close>

section \<open>Looking up\<close>

text \<open>A peer whose address and the given one are prefixes of each other, in map order.\<close>

fun similar_peer :: "string \<Rightarrow> (string \<times> peer) list \<Rightarrow> string option" where
  "similar_peer a [] = None"
| "similar_peer a ((b, p) # ps) = (if prefix a b \<or> prefix b a then Some b else similar_peer a ps)"

text \<open>The choice of a connection in \<open>findSuccessorRemote\<close>, and whether its address is exact.\<close>

definition target_peer :: "env \<Rightarrow> string \<Rightarrow> server \<Rightarrow> (string \<times> bool) res \<times> server" where
  "target_peer e a s =
     (case map_of (peers s) a of
        Some p \<Rightarrow> (Ret (a, True), s)
      | None \<Rightarrow>
          (case similar_peer a (peers s) of
             Some b \<Rightarrow> (Ret (b, False), s)
           | None \<Rightarrow>
               andthen (wrapping ''failed to dial'' (Dial e a s)) (\<lambda>remoteAddr s.
               (case map_of (peers s) remoteAddr of
                  None \<Rightarrow> (Fail (Errorf ''peer not found after dialing'' [remoteAddr]), s)
                | Some p \<Rightarrow> (Ret (remoteAddr, False), s)))))"

text \<open>
  The pending requests of a node: a lookup registers a channel under its request id, and
  deletes it when it returns. The channel takes the first node that answers and no other.
\<close>

definition register_request :: "string \<Rightarrow> server \<Rightarrow> server" where
  "register_request requestID s = s\<lparr>pending := AList.update requestID None (pending s)\<rparr>"

definition signal_request :: "string \<Rightarrow> node_ref \<Rightarrow> server \<Rightarrow> server" where
  "signal_request requestID r s =
     (case map_of (pending s) requestID of
        Some None \<Rightarrow> s\<lparr>pending := AList.update requestID (Some r) (pending s)\<rparr>
      | _ \<Rightarrow> s)"

definition forget_request :: "string \<Rightarrow> server \<Rightarrow> server" where
  "forget_request requestID s = s\<lparr>pending := AList.delete requestID (pending s)\<rparr>"

text \<open>A deferred call runs when the function returns or panics.\<close>

definition deferring :: "('s \<Rightarrow> 's) \<Rightarrow> 'a res \<times> 's \<Rightarrow> 'a res \<times> 's" where
  "deferring f m = (case m of (Hang, s) \<Rightarrow> (Hang, s) | (r, s) \<Rightarrow> (r, f s))"

text \<open>One attempt: choose a connection, send the request.\<close>

definition request_id :: "env \<Rightarrow> string \<Rightarrow> server \<Rightarrow> string" where
  "request_id e a s = saddr s @ ''-'' @ a @ ''-'' @ clock e (drawn s)"

definition request_successor :: "env \<Rightarrow> string \<Rightarrow> string \<Rightarrow> nat \<Rightarrow> server \<Rightarrow> bool res \<times> server" where
  "request_successor e requestID a ident s =
     andthen (target_peer e a s) (\<lambda>(b, directPeer) s.
     andthen (wrapping ''failed to send FindSuccessor message''
       (sendMessage e b (MessageFindSuccessor (int_bytes ident) (saddr s) requestID) s)) (\<lambda>_ s.
     (Ret directPeer, s)))"

text \<open>
  A reply is signalled while the lookup waits, and read from the channel. A timeout on an
  exact connection is followed by another attempt, without end.
\<close>

fun findSuccessorRemote :: "env \<Rightarrow> node_ref option list \<Rightarrow> string \<Rightarrow> nat \<Rightarrow> server \<Rightarrow> node_ref res \<times> server" where
  "findSuccessorRemote e [] a ident s =
     deferring (forget_request (request_id e a s))
       (andthen (request_successor e (request_id e a s) a ident
          (register_request (request_id e a s) (s\<lparr>drawn := drawn s + 1\<rparr>))) (\<lambda>directPeer s1.
        if directPeer then (Hang, s1)
        else (Fail (Errorf ''timeout waiting for FindSuccessor response'' []), s1)))"
| "findSuccessorRemote e (reply # replies) a ident s =
     deferring (forget_request (request_id e a s))
       (andthen (request_successor e (request_id e a s) a ident
          (register_request (request_id e a s) (s\<lparr>drawn := drawn s + 1\<rparr>))) (\<lambda>directPeer s1.
        let s2 = (case reply of Some r \<Rightarrow> signal_request (request_id e a s) r s1 | None \<Rightarrow> s1) in
        case map_of (pending s2) (request_id e a s) of
          Some (Some r) \<Rightarrow> (Ret r, s2)
        | _ \<Rightarrow>
            if directPeer then findSuccessorRemote e replies a ident s2
            else (Fail (Errorf ''timeout waiting for FindSuccessor response'' []), s2)))"

text \<open>Calls on the Chord node of a server; without one the pointer is nil.\<close>

definition with_node :: "(chord_node \<Rightarrow> 'a res \<times> server) \<Rightarrow> server \<Rightarrow> 'a res \<times> server" where
  "with_node f s = (case chord s of None \<Rightarrow> (Panic ''nil pointer dereference'', s) | Some n \<Rightarrow> f n)"

definition update_node :: "(chord_node \<Rightarrow> chord_node) \<Rightarrow> server \<Rightarrow> server" where
  "update_node f s = s\<lparr>chord := map_option f (chord s)\<rparr>"

definition FindSuccessor :: "env \<Rightarrow> node_ref option list \<Rightarrow> nat \<Rightarrow> server \<Rightarrow> node_ref res \<times> server" where
  "FindSuccessor e replies ident s =
     with_node (\<lambda>n.
       case find_step n ident of
         Answer r \<Rightarrow> (Ret r, s)
       | Ask c \<Rightarrow> findSuccessorRemote e replies (naddr c) ident s) s"

section \<open>Joining and leaving\<close>

definition InitChord :: "server \<Rightarrow> server" where
  "InitChord s = s\<lparr>chord := Some (Create (NewChordNode (saddr s)))\<rparr>"

definition sendNotify :: "env \<Rightarrow> string \<Rightarrow> server \<Rightarrow> unit res \<times> server" where
  "sendNotify e targetAddr s =
     with_node (\<lambda>n.
       case map_of (peers s) targetAddr of
         None \<Rightarrow> (Ret (), s)
       | Some p \<Rightarrow>
           ignoring (sendMessage e targetAddr
             (MessageNotify (int_bytes (nid (self n))) (naddr (self n))) s)) s"

definition Join :: "env \<Rightarrow> string \<Rightarrow> server \<Rightarrow> unit res \<times> server" where
  "Join e a s =
     with_node (\<lambda>n.
       if a = naddr (self n) then (Ret (), update_node Create s)
       else
         andthen (wrapping ''failed to dial''
           (Dial e a (update_node (\<lambda>n. n\<lparr>predecessor := None\<rparr>) s))) (\<lambda>remoteAddr s.
         sendNotify e remoteAddr (update_node (join_state remoteAddr) s))) s"

definition JoinChord :: "env \<Rightarrow> string \<Rightarrow> server \<Rightarrow> unit res \<times> server" where
  "JoinChord e a s =
     Join e a (case chord s of None \<Rightarrow> s\<lparr>chord := Some (NewChordNode (saddr s))\<rparr> | Some n \<Rightarrow> s)"

section \<open>Files\<close>

text \<open>The connection to the responsible node: an existing one, or a new one.\<close>

definition reach :: "env \<Rightarrow> string \<Rightarrow> server \<Rightarrow> string res \<times> server" where
  "reach e a s =
     (case map_of (peers s) a of
        Some p \<Rightarrow> (Ret a, s)
      | None \<Rightarrow>
          andthen (wrapping ''failed to dial responsible node'' (Dial e a s)) (\<lambda>remoteAddr s.
          (case map_of (peers s) remoteAddr of
             None \<Rightarrow> (Fail (Errorf ''responsible node peer not found after dialing'' []), s)
           | Some p \<Rightarrow> (Ret remoteAddr, s))))"

text \<open>The files a node is responsible for, which change under the write lock.\<close>

definition take_responsible :: "string \<Rightarrow> server \<Rightarrow> server" where
  "take_responsible cid s = update_node (\<lambda>n. n\<lparr>responsibles := List.insert cid (responsibles n)\<rparr>) s"

definition drop_responsible :: "string \<Rightarrow> server \<Rightarrow> server" where
  "drop_responsible cid s = update_node (\<lambda>n. n\<lparr>responsibles := removeAll cid (responsibles n)\<rparr>) s"

text \<open>
  \<open>StoreFile\<close> up to the point where it takes the lock: the file is written to the disk of
  the node, when it is the responsible one, or to a connection.
\<close>

definition place_file ::
  "env \<Rightarrow> node_ref option list \<Rightarrow> string \<Rightarrow> stream \<Rightarrow> server \<Rightarrow> (string \<times> bool) res \<times> server" where
  "place_file e replies key r s =
     andthen (wrapping ''failed to read file data'' (fst (read_all r), s)) (\<lambda>fileData s.
     andthen (GenerateCID (buffer fileData), s) (\<lambda>cid s.
     with_node (\<lambda>n.
       case successor n of
         None \<Rightarrow> (Panic ''nil pointer dereference'', s)
       | Some localSucc \<Rightarrow>
           andthen (if isBetween (hashToNodeID cid) (nid (self n)) (nid localSucc) True then (Ret localSucc, s)
                    else wrapping ''failed to find responsible node''
                      (FindSuccessor e replies (hashToNodeID cid) s)) (\<lambda>responsible s.
           if naddr responsible = naddr (self n) then
             andthen (wrapping ''failed to write file locally'' (srv_write e cid key (buffer fileData) 0 0 s)) (\<lambda>n s.
             (Ret (cid, True), s))
           else
             andthen (reach e (naddr responsible) s) (\<lambda>a s.
             andthen (wrapping ''failed to send store message''
               (sendMessage e a (MessageStoreChordFile cid key (naddr (self n)) False) s)) (\<lambda>_ s.
             andthen (ignoring (on_peer a (Send [IncomingStream]) s)) (\<lambda>_ s.
             andthen (wrapping ''failed to send file data'' (on_peer a (conn_write fileData) s)) (\<lambda>_ s.
             (Ret (cid, False), s))))))) s))"

definition StoreFile ::
  "env \<Rightarrow> node_ref option list \<Rightarrow> string \<Rightarrow> stream \<Rightarrow> server \<Rightarrow> string res \<times> server" where
  "StoreFile e replies key r s =
     andthen (place_file e replies key r s) (\<lambda>(cid, own) s.
     (Ret cid, if own then take_responsible cid s else s))"

text \<open>What \<open>GetFile\<close> reads as the answer of the responsible node.\<close>

definition read_full_peer :: "nat \<Rightarrow> peer \<Rightarrow> bytes res \<times> peer" where
  "read_full_peer k p = (case read_full k (inp p) of (r, i) \<Rightarrow> (r, p\<lparr>inp := i\<rparr>))"

definition read_all_peer :: "peer \<Rightarrow> bytes res \<times> peer" where
  "read_all_peer p = (case read_all (inp p) of (r, i) \<Rightarrow> (r, p\<lparr>inp := i\<rparr>))"

definition read_answer :: "peer \<Rightarrow> (bytes \<times> string) res \<times> peer" where
  "read_answer p =
     andthen (wrapping ''failed to read stream signal'' (conn_read 1 p)) (\<lambda>signalByte p.
     andthen (wrapping ''failed to read filename length'' (read_full_peer 4 p)) (\<lambda>filenameLenBytes p.
     (let filenameLen = get_uint32 filenameLenBytes in
      if filenameLen > 1000 then (Fail (Errorf ''filename too long'' []), p)
      else
        andthen (wrapping ''failed to read filename'' (read_full_peer filenameLen p)) (\<lambda>filenameBytes p.
        andthen (wrapping ''error reading file data'' (read_all_peer p)) (\<lambda>fileData p.
        (Ret (fileData, string_of filenameBytes), p))))))"

definition GetFile ::
  "env \<Rightarrow> node_ref option list \<Rightarrow> string \<Rightarrow> server \<Rightarrow> (bytes \<times> string) res \<times> server" where
  "GetFile e replies cid s =
     with_node (\<lambda>n.
       if srv_has s cid then (named_file (srv_read e s cid), s)
       else
         andthen (wrapping ''failed to find responsible node''
           (FindSuccessor e replies (hashToNodeID cid) s)) (\<lambda>responsible s.
         if naddr responsible = naddr (self n) then (Fail ErrFileNotFound, s)
         else
           andthen (reach e (naddr responsible) s) (\<lambda>a s.
           andthen (wrapping ''failed to send request''
             (sendMessage e a (MessageGetChordFile cid (naddr (self n))) s)) (\<lambda>_ s.
           on_peer a read_answer s)))) s"

text \<open>\<open>DeleteFile\<close> up to the lock: another node is asked to delete the file, or it is up to this one.\<close>

definition route_delete :: "env \<Rightarrow> node_ref option list \<Rightarrow> string \<Rightarrow> server \<Rightarrow> bool res \<times> server" where
  "route_delete e replies cid s =
     with_node (\<lambda>n.
       andthen (wrapping ''failed to find responsible node''
         (FindSuccessor e replies (hashToNodeID cid) s)) (\<lambda>responsible s.
       if naddr responsible = naddr (self n) then (Ret True, s)
       else
         andthen (reach e (naddr responsible) s) (\<lambda>a s.
         andthen (sendMessage e a (MessageDeleteChordFile cid (naddr (self n))) s) (\<lambda>_ s.
         (Ret False, s))))) s"

definition DeleteFile :: "env \<Rightarrow> node_ref option list \<Rightarrow> string \<Rightarrow> server \<Rightarrow> unit res \<times> server" where
  "DeleteFile e replies cid s =
     andthen (route_delete e replies cid s) (\<lambda>own s.
     if own then Remove e cid (drop_responsible cid s) else (Ret (), s))"

text \<open>The entry points of the file server.\<close>

definition not_initialized :: error where
  "not_initialized = Errorf ''chord node not initialized'' []"

definition StoreChord ::
  "env \<Rightarrow> node_ref option list \<Rightarrow> string \<Rightarrow> stream \<Rightarrow> server \<Rightarrow> string res \<times> server" where
  "StoreChord e replies key r s =
     (if chord s = None then (Fail not_initialized, s) else StoreFile e replies key r s)"

definition GetChord ::
  "env \<Rightarrow> node_ref option list \<Rightarrow> string \<Rightarrow> server \<Rightarrow> (bytes \<times> string) res \<times> server" where
  "GetChord e replies cid s =
     (if chord s = None then (Fail not_initialized, s) else GetFile e replies cid s)"

definition DeleteChord :: "env \<Rightarrow> node_ref option list \<Rightarrow> string \<Rightarrow> server \<Rightarrow> unit res \<times> server" where
  "DeleteChord e replies cid s =
     (if chord s = None then (Fail not_initialized, s) else DeleteFile e replies cid s)"

section \<open>Maintenance\<close>

definition stabilize :: "env \<Rightarrow> server \<Rightarrow> unit res \<times> server" where
  "stabilize e s =
     with_node (\<lambda>n.
       case successor n of
         None \<Rightarrow> (Panic ''nil pointer dereference'', s)
       | Some succ \<Rightarrow>
           if naddr succ = naddr (self n) then (Ret (), s)
           else
             (case map_of (peers s) (naddr succ) of
                None \<Rightarrow> (Ret (), s)
              | Some p \<Rightarrow>
                  ignoring (andthen (sendMessage e (naddr succ) (MessageGetPredecessor (naddr (self n))) s) (\<lambda>_ s.
                    sendMessage e (naddr succ)
                      (MessageNotify (int_bytes (nid (self n))) (naddr (self n))) s)))) s"

text \<open>\<open>fixFinger\<close> for the drawn index \<open>i\<close>\<close>

definition fixFinger :: "env \<Rightarrow> node_ref option list \<Rightarrow> nat \<Rightarrow> server \<Rightarrow> unit res \<times> server" where
  "fixFinger e replies i s =
     with_node (\<lambda>n.
       case FindSuccessor e replies (fingerID (nid (self n)) i) s of
         (Ret r, s) \<Rightarrow> (Ret (), update_node (set_finger i r) s)
       | (Fail er, s) \<Rightarrow> (Ret (), s)
       | (Hang, s) \<Rightarrow> (Hang, s)
       | (Panic m, s) \<Rightarrow> (Panic m, s)) s"

definition checkPredecessor :: "env \<Rightarrow> server \<Rightarrow> unit res \<times> server" where
  "checkPredecessor e s =
     with_node (\<lambda>n.
       case predecessor n of
         None \<Rightarrow> (Ret (), s)
       | Some pred \<Rightarrow>
           (case map_of (peers s) (naddr pred) of
              Some p \<Rightarrow> (Ret (), s)
            | None \<Rightarrow>
                (case Dial e (naddr pred) s of
                   (Fail er, s) \<Rightarrow> (Ret (), update_node (\<lambda>n. n\<lparr>predecessor := None\<rparr>) s)
                 | (_, s) \<Rightarrow> (Ret (), s)))) s"

text \<open>
  One file of \<open>transferResponsibilities\<close>: what is sent, and that the file is given up once it is
  sent; every failure goes on to the next file.
\<close>

definition transfer_send :: "env \<Rightarrow> string \<Rightarrow> string \<Rightarrow> string \<Rightarrow> server \<Rightarrow> unit res \<times> server" where
  "transfer_send e own pred cid s =
     andthen (getAll e cid s) (\<lambda>(data, fileName) s.
     case map_of (peers s) pred of
       None \<Rightarrow> (Fail (Errorf ''Predecessor not in peer list'' [pred]), s)
     | Some p \<Rightarrow>
         andthen (sendMessage e pred (MessageStoreChordFile cid fileName own True) s) (\<lambda>_ s.
         andthen (ignoring (on_peer pred (Send [IncomingStream]) s)) (\<lambda>_ s.
         andthen (on_peer pred (copy_to_peer data) s) (\<lambda>n s.
         (Ret (), s)))))"

definition transfer_file :: "env \<Rightarrow> string \<Rightarrow> string \<Rightarrow> string \<Rightarrow> server \<Rightarrow> unit res \<times> server" where
  "transfer_file e own pred cid s =
     ignoring (andthen (transfer_send e own pred cid s) (\<lambda>_ s. (Ret (), drop_responsible cid s)))"

fun transfer_loop :: "env \<Rightarrow> string \<Rightarrow> string \<Rightarrow> string list \<Rightarrow> server \<Rightarrow> unit res \<times> server" where
  "transfer_loop e own pred [] s = (Ret (), s)"
| "transfer_loop e own pred (cid # cids) s =
     andthen (transfer_file e own pred cid s) (\<lambda>_ s. transfer_loop e own pred cids s)"

definition transferResponsibilities :: "env \<Rightarrow> server \<Rightarrow> unit res \<times> server" where
  "transferResponsibilities e s =
     with_node (\<lambda>n.
       case predecessor n of
         None \<Rightarrow> (Ret (), s)
       | Some pred \<Rightarrow> transfer_loop e (naddr (self n)) (naddr pred) (files_to_transfer n) s) s"

end
