(* ===== verification/Handlers.thy ===== *)
theory Handlers
  imports Chord
begin

text \<open>
  The Chord handlers (\<open>chord_handler.go\<close>), the dispatch of a message (\<open>handleMessage\<close>) and one
  turn of the message loop (\<open>loop\<close> of \<open>mesh_util.go\<close>). The node named in a message is the
  reference with the identifier read from its bytes.
\<close>

section \<open>Lookups for others\<close>

definition node_of :: "bytes \<Rightarrow> string \<Rightarrow> node_ref" where
  "node_of idb a = \<lparr>nid = set_bytes idb, naddr = a\<rparr>"

text \<open>The connection over which \<open>handleMessageFindSuccessor\<close> answers.\<close>

definition answer_peer :: "env \<Rightarrow> string \<Rightarrow> string \<Rightarrow> server \<Rightarrow> string option \<times> server" where
  "answer_peer e from logicalAddress s =
     (case map_of (peers s) logicalAddress of
        Some p \<Rightarrow> (Some logicalAddress, s)
      | None \<Rightarrow>
          (case similar_peer logicalAddress (peers s) of
             Some b \<Rightarrow> (Some b, s)
           | None \<Rightarrow>
               (case Dial e logicalAddress s of
                  (Ret remoteAddr, s) \<Rightarrow> (map_option (\<lambda>p. remoteAddr) (map_of (peers s) remoteAddr), s)
                | (_, s) \<Rightarrow> (map_option (\<lambda>p. from) (map_of (peers s) from), s))))"

definition handleMessageFindSuccessor ::
  "env \<Rightarrow> string \<Rightarrow> bytes \<Rightarrow> string \<Rightarrow> string \<Rightarrow> server \<Rightarrow> unit res \<times> server" where
  "handleMessageFindSuccessor e from idb fromAddr requestID s =
     (if chord s = None then (Fail not_initialized, s)
      else
        andthen (FindSuccessor e [] (set_bytes idb) s) (\<lambda>r s.
        (case answer_peer e from fromAddr s of
           (None, s) \<Rightarrow> (Fail (Errorf ''couldn't find or establish connection'' [fromAddr]), s)
         | (Some a, s) \<Rightarrow>
             sendMessage e a (MessageFindSuccessorResponse (int_bytes (nid r)) (naddr r) requestID) s)))"

text \<open>The response is forwarded to every peer that may be the one who asked first.\<close>

fun forward_response :: "env \<Rightarrow> payload \<Rightarrow> string \<Rightarrow> string list \<Rightarrow> server \<Rightarrow> server" where
  "forward_response e m requester [] s = s"
| "forward_response e m requester (a # as) s =
     forward_response e m requester as
       (if a = requester \<or> prefix requester a then snd (sendMessage e a m s) else s)"

definition handleMessageFindSuccessorResponse ::
  "env \<Rightarrow> string \<Rightarrow> bytes \<Rightarrow> string \<Rightarrow> string \<Rightarrow> server \<Rightarrow> unit res \<times> server" where
  "handleMessageFindSuccessorResponse e from idb a requestID s =
     (if chord s = None then (Fail not_initialized, s)
      else
        (let parts = split_on (CHR ''-'') requestID;
             s1 = (if length parts \<ge> 2 \<and> parts ! 0 \<noteq> saddr s
                   then forward_response e (MessageFindSuccessorResponse idb a requestID) (parts ! 0)
                          (map fst (peers s)) s
                   else s)
         in (Ret (), signal_request requestID (node_of idb a) s1)))"

section \<open>Maintenance\<close>

definition handleMessageGetPredecessor :: "env \<Rightarrow> string \<Rightarrow> server \<Rightarrow> unit res \<times> server" where
  "handleMessageGetPredecessor e from s =
     (case chord s of
        None \<Rightarrow> (Fail not_initialized, s)
      | Some n \<Rightarrow>
          (let response = (case predecessor n of
                             None \<Rightarrow> MessageGetPredecessorResponse [] [] False
                           | Some pred \<Rightarrow> MessageGetPredecessorResponse (int_bytes (nid pred)) (naddr pred) True)
           in case map_of (peers s) from of
                None \<Rightarrow> (Fail (Errorf ''peer not found'' [from]), s)
              | Some p \<Rightarrow> sendMessage e from response s))"

definition handleMessageGetPredecessorResponse ::
  "string \<Rightarrow> bytes \<Rightarrow> string \<Rightarrow> bool \<Rightarrow> server \<Rightarrow> unit res \<times> server" where
  "handleMessageGetPredecessorResponse from idb a hasPred s =
     (case chord s of
        None \<Rightarrow> (Fail not_initialized, s)
      | Some n \<Rightarrow>
          if \<not> hasPred then (Ret (), s)
          else if successor n = None then (Panic ''nil pointer dereference'', s)
          else (Ret (), update_node (got_predecessor from (node_of idb a)) s))"

text \<open>\<open>notify\<close> starts the transfer of files as a goroutine: it is counted, and runs on its own.\<close>

definition handleMessageNotify :: "bytes \<Rightarrow> string \<Rightarrow> server \<Rightarrow> unit res \<times> server" where
  "handleMessageNotify idb a s =
     (case chord s of
        None \<Rightarrow> (Fail not_initialized, s)
      | Some n \<Rightarrow>
          (case notify (node_of idb a) n of
             (n', transfer) \<Rightarrow>
               (Ret (), s\<lparr>chord := Some n', transfers := transfers s + (if transfer then 1 else 0)\<rparr>)))"

section \<open>Files\<close>

text \<open>The handler of a file that is to be stored up to the point where it takes the lock of the node.\<close>

definition take_chord_file :: "env \<Rightarrow> string \<Rightarrow> string \<Rightarrow> string \<Rightarrow> server \<Rightarrow> unit res \<times> server" where
  "take_chord_file e from cid key s =
     (case map_of (peers s) from of
        None \<Rightarrow> (Fail (Errorf ''peer not found'' [from]), s)
      | Some p \<Rightarrow>
          andthen (wrapping ''failed to read stream signal'' (on_peer from (conn_read 1) s)) (\<lambda>firstByte s.
          if hd firstByte \<noteq> IncomingStream then (Fail (Errorf ''expected incoming stream signal'' []), s)
          else
            andthen (wrapping ''failed to read file data'' (on_peer from read_all_peer s)) (\<lambda>fileBuffer s.
            if length fileBuffer = 0 then (Fail (Errorf ''received empty file data'' []), s)
            else
              andthen (wrapping ''failed to write file'' (srv_write e cid key (buffer fileBuffer) 0 0 s)) (\<lambda>n s.
              (Ret (), s)))))"

definition handleMessageStoreChordFile ::
  "env \<Rightarrow> string \<Rightarrow> string \<Rightarrow> string \<Rightarrow> server \<Rightarrow> unit res \<times> server" where
  "handleMessageStoreChordFile e from cid key s =
     (if chord s = None then (Fail not_initialized, s)
      else andthen (take_chord_file e from cid key s) (\<lambda>_ s. (Ret (), take_responsible cid s)))"

definition handleMessageGetChordFile :: "env \<Rightarrow> string \<Rightarrow> string \<Rightarrow> server \<Rightarrow> unit res \<times> server" where
  "handleMessageGetChordFile e from cid s =
     (if chord s = None then (Fail not_initialized, s)
      else if \<not> srv_has s cid then (Fail (Errorf ''file not found'' [cid]), s)
      else case map_of (peers s) from of
        None \<Rightarrow> (Fail (Errorf ''peer not found'' [from]), s)
      | Some p \<Rightarrow>
          andthen (wrapping ''failed to read metadata'' (srv_metadata e s cid, s)) (\<lambda>md s.
          andthen (wrapping ''failed to read file'' (Read (fstore s) (fdisk s) cid, s)) (\<lambda>(size, fileReader) s.
          andthen (wrapping ''failed to read file data'' (fst (read_all fileReader), s)) (\<lambda>fileData s.
          andthen (wrapping ''failed to send stream signal'' (on_peer from (conn_write [IncomingStream]) s)) (\<lambda>_ s.
          andthen (wrapping ''failed to send filename length''
            (on_peer from (conn_write (put_uint32 (length (MetaFileName md)))) s)) (\<lambda>_ s.
          andthen (wrapping ''failed to send filename''
            (on_peer from (conn_write (bytes_of (MetaFileName md))) s)) (\<lambda>_ s.
          andthen (wrapping ''failed to send file data'' (on_peer from (conn_write fileData) s)) (\<lambda>_ s.
          (Ret (), s)))))))))"

definition handleMessageDeleteChordFile :: "env \<Rightarrow> string \<Rightarrow> server \<Rightarrow> unit res \<times> server" where
  "handleMessageDeleteChordFile e cid s =
     (if chord s = None then (Fail not_initialized, s)
      else Remove e cid (drop_responsible cid s))"

section \<open>Dispatch\<close>

fun handleMessage :: "env \<Rightarrow> string \<Rightarrow> payload option \<Rightarrow> server \<Rightarrow> unit res \<times> server" where
  "handleMessage e from None s = (Ret (), s)"
| "handleMessage e from (Some (MessageStoreFile cid key part totalParts sz)) s =
     handleMessageStoreFile e from cid key part totalParts sz s"
| "handleMessage e from (Some (MessageGetFile cid)) s = handleMessageGetFile e from cid s"
| "handleMessage e from (Some (MessageDeleteFile cid)) s = handleMessageDeleteFile cid s"
| "handleMessage e from (Some (MessageAddFile a localAddr n)) s = handleMessageAddFile e from a localAddr n s"
| "handleMessage e from (Some (MessageFindSuccessor idb fromAddr requestID)) s =
     handleMessageFindSuccessor e from idb fromAddr requestID s"
| "handleMessage e from (Some (MessageFindSuccessorResponse idb a requestID)) s =
     handleMessageFindSuccessorResponse e from idb a requestID s"
| "handleMessage e from (Some (MessageGetPredecessor fromAddr)) s = handleMessageGetPredecessor e from s"
| "handleMessage e from (Some (MessageGetPredecessorResponse idb a hasPred)) s =
     handleMessageGetPredecessorResponse from idb a hasPred s"
| "handleMessage e from (Some (MessageNotify idb a)) s = handleMessageNotify idb a s"
| "handleMessage e from (Some (MessageStoreChordFile cid key fromAddr transfer)) s =
     handleMessageStoreChordFile e from cid key s"
| "handleMessage e from (Some (MessageGetChordFile cid fromAddr)) s = handleMessageGetChordFile e from cid s"
| "handleMessage e from (Some (MessageDeleteChordFile cid fromAddr)) s = handleMessageDeleteChordFile e cid s"

text \<open>One turn of \<open>loop\<close>: an RPC that does not decode has no payload; errors are only logged.\<close>

definition loop_turn :: "env \<Rightarrow> RPC \<Rightarrow> server \<Rightarrow> unit res \<times> server" where
  "loop_turn e rpc s = ignoring (handleMessage e (From rpc) (ungob_msg e (Payload rpc)) s)"

fun loop :: "env \<Rightarrow> RPC list \<Rightarrow> server \<Rightarrow> unit res \<times> server" where
  "loop e [] s = (Ret (), s)"
| "loop e (rpc # rpcs) s = andthen (loop_turn e rpc s) (\<lambda>_ s. loop e rpcs s)"

end
