(* ===== verification/Server_Laws.thy ===== *)
theory Server_Laws
  imports Handlers Store_Spec
begin

text \<open>
  What the operations of a server rest on: the store of a server in good shape, reading and
  writing files through it, and what calls on peers leave as it was.
\<close>

section \<open>Servers in good shape\<close>

text \<open>The random source delivers as many bytes as it is asked for.\<close>

definition good_env :: "env \<Rightarrow> bool" where
  "good_env e \<longleftrightarrow> lib_ok (elib e) \<and> (\<forall>i n. length (rnd e i n) = n)"

definition good_server :: "env \<Rightarrow> server \<Rightarrow> bool" where
  "good_server e s \<longleftrightarrow> good_env e \<and> good_store (elib e) (net s) (fstore s) (fdisk s)"

lemma good_serverD:
  assumes "good_server e s"
  shows "good_store (elib e) (net s) (fstore s) (fdisk s)" "usable (net s)"
    "PathTransform (fstore s) = CASPathTransformFunc" "store_inv 8 (fstore s) (fdisk s)"
    "length (rnd e i n) = n" "lib_ok (elib e)"
  using assms by (simp_all add: good_server_def good_env_def good_store_def)

lemma plain_hex: "length bs = 20 \<Longrightarrow> plain (hex bs)"
proof (rule plain_hex_part [OF _ order_refl])
  assume "length bs = 20"
  then show "hex bs \<noteq> []" by (cases bs) simp_all
qed

lemma good_envD: "good_env e \<Longrightarrow> length (rnd e i n) = n" "good_env e \<Longrightarrow> lib_ok (elib e)"
  by (simp_all add: good_env_def)

section \<open>Entries of the store\<close>

text \<open>An entry: the file is there, with these bytes on the disk and this metadata.\<close>

definition has_entry :: "env \<Rightarrow> server \<Rightarrow> string \<Rightarrow> bytes \<Rightarrow> metadata \<Rightarrow> bool" where
  "has_entry e s cid raw md \<longleftrightarrow>
     srv_has s cid \<and> Read (fstore s) (fdisk s) cid = Ret (length raw, buffer raw) \<and>
     srv_metadata e s cid = Ret md"

lemma entry_read:
  assumes "has_entry e s cid raw md"
  shows "srv_read e s cid =
    rbind (decrypt_to_buffer (elib e) (net s) (buffer raw)) (\<lambda>(n, b). Ret (n, b, md))"
  using assms by (simp add: has_entry_def srv_read_def ReadDecrypt_def Read_def srv_metadata_def)

lemma decrypt_own:
  assumes "usable n" and "length iv = 16"
  shows "decrypt_to_buffer L n (buffer (cipher_text (prims L) n iv d)) = Ret (cipher_count n d, d)"
  using decrypt_file [OF assms, of sink "prims L" d] by (simp add: decrypt_to_buffer_def sink_def)

text \<open>The disk after a file was written under an id, with its metadata.\<close>

definition disk_with :: "env \<Rightarrow> server \<Rightarrow> bytes \<Rightarrow> bytes \<Rightarrow> string \<Rightarrow> string \<Rightarrow> int \<Rightarrow> int \<Rightarrow> disk" where
  "disk_with e s raw iv cid key part tot =
     stored (fstore s) cid raw
       (cipher_text (prims (elib e)) (net s) iv
         (gob_meta (elib e) (metadata_for (fstore s) cid key part tot))) (fdisk s)"

lemma disk_with_good:
  assumes "good_server e s"
  shows "good_server e (s\<lparr>fdisk := disk_with e s raw iv cid key part tot, drawn := k\<rparr>)"
  using assms cas.stored_inv [OF good_serverD(3,4) [OF assms]]
  by (simp add: good_server_def good_store_def disk_with_def)

lemma disk_with_entry:
  assumes g: "good_server e s" and "plain cid" and "length iv = 16"
  shows "has_entry e (s\<lparr>fdisk := disk_with e s raw iv cid key part tot, drawn := k\<rparr>) cid raw
    (metadata_for (fstore s) cid key part tot)"
proof -
  note T = good_serverD(3) [OF g]
  let ?s = "fstore s" and ?d = "disk_with e s raw iv cid key part tot"
  let ?m = "gob_meta (elib e) (metadata_for ?s cid key part tot)"
  have inv: "store_inv 8 ?s ?d"
    using cas.stored_inv [OF T good_serverD(4) [OF g]] by (simp add: disk_with_def)
  have data: "nodes ?d (data_at ?s ?d cid) = Some (File raw)"
    and meta: "nodes ?d (meta_at ?s ?d cid) =
      Some (File (cipher_text (prims (elib e)) (net s) iv ?m))"
    using T by (simp_all add: disk_with_def)
  have "Has ?s ?d cid" using cas.Has_iff [OF T inv assms(2)] data by simp
  moreover have "readStream ?s ?d cid = Ret (length raw, buffer raw)"
    using cas.readStream_entry [OF T inv assms(2) data] .
  moreover have "readMetadata (elib e) (net s) ?s ?d cid = Ret (metadata_for ?s cid key part tot)"
    using cas.readMetadata_entry [OF T inv assms(2) meta] good_serverD(6) [OF g]
    by (simp add: decrypt_own [OF good_serverD(2) [OF g] assms(3)] lib_ok_meta)
  ultimately show ?thesis by (simp add: has_entry_def srv_has_def Read_def srv_metadata_def)
qed

lemma srv_write_good:
  assumes g: "good_server e s" and "plain cid"
  shows "srv_write e cid key (buffer c) part tot s =
    (Ret (cipher_count (net s) c),
     s\<lparr>fdisk := disk_with e s (cipher_text (prims (elib e)) (net s) (rnd e (drawn s) 16) c)
         (rnd e (drawn s + 1) 16) cid key part tot, drawn := drawn s + 2\<rparr>)"
  using WriteEncrypt_good [OF good_serverD(1) [OF g] assms(2)]
  by (simp add: srv_write_def disk_with_def)

text \<open>Both depend on the store, its disk and the network configuration only.\<close>

lemma entry_cong:
  assumes "has_entry e s cid raw md" and "fstore t = fstore s" and "fdisk t = fdisk s" and "net t = net s"
  shows "has_entry e t cid raw md"
  using assms by (simp add: has_entry_def srv_has_def srv_metadata_def)

lemma good_server_cong:
  assumes "good_server e s" and "fstore t = fstore s" and "fdisk t = fdisk s" and "net t = net s"
  shows "good_server e t"
  using assms by (simp add: good_server_def)

lemma has_cong: "fstore t = fstore s \<Longrightarrow> fdisk t = fdisk s \<Longrightarrow> srv_has t cid = srv_has s cid"
  by (simp add: srv_has_def)

lemma disk_with_cong:
  "fstore t = fstore s \<Longrightarrow> fdisk t = fdisk s \<Longrightarrow> net t = net s \<Longrightarrow>
    disk_with e t raw iv cid key part tot = disk_with e s raw iv cid key part tot"
  by (simp add: disk_with_def)

section \<open>Calls on peers\<close>

lemma update_update [simp]: "AList.update a q (AList.update a p ps) = AList.update a q ps"
  by (induction ps) auto

lemma update_same: "map_of ps a = Some p \<Longrightarrow> AList.update a p ps = ps"
  by (induction ps) auto

lemma update_known_keys: "map_of ps a = Some p \<Longrightarrow> map fst (AList.update a q ps) = map fst ps"
  by (induction ps) auto

text \<open>A run of calls on one peer: each finds the peer as the one before has left it.\<close>

lemma on_peer_again [simp]:
  "on_peer a f (s\<lparr>peers := AList.update a p ps\<rparr>) =
    (case f p of (r, q) \<Rightarrow> (r, s\<lparr>peers := AList.update a q ps\<rparr>))"
  by (simp add: on_peer_def update_conv' split: prod.split)

lemma on_peer_first:
  "map_of (peers s) a = Some p \<Longrightarrow> on_peer a f s = (case f p of (r, q) \<Rightarrow> (r, s\<lparr>peers := AList.update a q (peers s)\<rparr>))"
  by (simp add: on_peer_def)

lemma on_peer_frame:
  "snd (on_peer a f s) = s\<lparr>peers := peers (snd (on_peer a f s))\<rparr>"
  by (simp add: on_peer_def split: option.split prod.split)

lemma sendMessage_frame: "snd (sendMessage e a m s) = s\<lparr>peers := peers (snd (sendMessage e a m s))\<rparr>"
  unfolding sendMessage_def by (rule on_peer_frame)

lemma broadcast_frame: "snd (broadcast e m s) = s\<lparr>peers := peers (snd (broadcast e m s))\<rparr>"
  by (simp add: broadcast_def split: prod.split)

lemma sendMessage_ok:
  assumes "map_of (peers s) a = Some p" and "broken p = None"
  shows "sendMessage e a m s =
    (Ret (), s\<lparr>peers := AList.update a (p\<lparr>outp := outp p @ [[IncomingMessage], gob_msg e m]\<rparr>) (peers s)\<rparr>)"
  using assms by (simp add: sendMessage_def on_peer_def send_frame_ok)

definition sent :: "bytes list \<Rightarrow> string \<times> peer \<Rightarrow> string \<times> peer" where
  "sent bss x = (fst x, (snd x)\<lparr>outp := outp (snd x) @ bss\<rparr>)"

lemma broadcast_ok:
  assumes "\<forall>x \<in> set (peers s). broken (snd x) = None"
  shows "broadcast e m s = (Ret (), s\<lparr>peers := map (sent [[IncomingMessage], gob_msg e m]) (peers s)\<rparr>)"
proof -
  have "\<forall>(a, p) \<in> set (peers s). broken p = None" using assms by auto
  from broadcast_loop_ok [OF this] show ?thesis
    by (simp add: broadcast_def sent_def case_prod_unfold)
qed

lemma multi_write_ok:
  "\<forall>x \<in> set ps. broken (snd x) = None \<Longrightarrow> multi_write bs ps = (Ret (), map (sent [bs]) ps)"
  by (induction bs ps rule: multi_write.induct) (auto simp: Send_def conn_write_def sent_def)

lemma write_all_ok:
  assumes "\<forall>x \<in> set (peers s). broken (snd x) = None" and "bs \<noteq> []"
  shows "write_all bs s = (Ret (), s\<lparr>peers := map (sent [bs]) (peers s)\<rparr>)"
  using multi_write_ok [OF assms(1)] assms(2) by (simp add: write_all_def)

lemma broken_sent [simp]: "broken (snd (sent bss x)) = broken (snd x)"
  by (simp add: sent_def)

lemma fst_sent [simp]: "fst (sent bss x) = fst x"
  by (simp add: sent_def)

lemma map_fst_sent [simp]: "map (fst \<circ> sent bss) ps = map fst ps"
  by simp

lemma map_of_sent: "map_of (map (sent bss) ps) a = map_option (\<lambda>p. p\<lparr>outp := outp p @ bss\<rparr>) (map_of ps a)"
  by (induction ps) (auto simp: sent_def)

lemma sent_sent [simp]: "sent bss (sent ass x) = sent (ass @ bss) x"
  by (simp add: sent_def)

section \<open>Removing\<close>

lemma srv_delete_good:
  assumes g: "good_server e s" and "plain cid"
  shows "\<exists>d. srv_delete cid s = (Ret (), s\<lparr>fdisk := d\<rparr>) \<and> good_server e (s\<lparr>fdisk := d\<rparr>) \<and> \<not> srv_has (s\<lparr>fdisk := d\<rparr>) cid"
proof -
  note T = good_serverD(3) [OF g] and inv = good_serverD(4) [OF g]
  let ?d = "removed (fstore s) cid (fdisk s)"
  have inv': "store_inv 8 (fstore s) ?d" by (rule cas.removed_inv [OF inv])
  then have "\<not> Has (fstore s) ?d cid"
    by (simp add: cas.Has_iff [OF T inv' assms(2)] place_cwd [OF removed_cwd] data_at_def cas.removed_places(1))
  moreover have "good_server e (s\<lparr>fdisk := ?d\<rparr>)"
    using g inv' by (simp add: good_server_def good_store_def)
  ultimately show ?thesis
    using cas.Delete_effect [OF inv assms(2)] by (intro exI [of _ ?d]) (simp add: srv_delete_def srv_has_def)
qed

lemma Remove_good:
  assumes "good_server e s" and "plain cid" and "\<forall>x \<in> set (peers s). broken (snd x) = None"
  shows "\<exists>t. Remove e cid s = (Ret (), t) \<and> good_server e t \<and> \<not> srv_has t cid \<and> chord t = chord s \<and>
    peers t = map (sent [[IncomingMessage], gob_msg e (MessageDeleteFile cid)]) (peers s)"
proof -
  let ?s = "s\<lparr>peers := map (sent [[IncomingMessage], gob_msg e (MessageDeleteFile cid)]) (peers s)\<rparr>"
  have "good_server e ?s" by (rule good_server_cong [OF assms(1)]) simp_all
  from srv_delete_good [OF this assms(2)]
  obtain d where "srv_delete cid ?s = (Ret (), ?s\<lparr>fdisk := d\<rparr>)" "good_server e (?s\<lparr>fdisk := d\<rparr>)" "\<not> srv_has (?s\<lparr>fdisk := d\<rparr>) cid"
    by blast
  then show ?thesis using broadcast_ok [OF assms(3)]
    by (intro exI [of _ "?s\<lparr>fdisk := d\<rparr>"]) (simp add: Remove_def)
qed

end
