(* ===== verification/Mesh_Props.thy ===== *)
theory Mesh_Props
  imports Server_Laws Instances
begin

text \<open>
  Properties of the mesh operations. Several join two nodes: what one writes to a
  connection is what the other reads from it.
\<close>

section \<open>One round of fetching\<close>

definition chunk :: "bytes \<Rightarrow> bytes list" where
  "chunk bs = (if bs = [] then [] else [bs])"

lemma concat_chunk [simp]: "concat (chunk bs) = bs"
  by (simp add: chunk_def)

lemma copy_to_peer_ok: "broken p = None \<Longrightarrow> copy_to_peer bs p = (Ret (length bs), p\<lparr>outp := outp p @ chunk bs\<rparr>)"
  by (simp add: copy_to_peer_def conn_write_def chunk_def)

lemma serve_all:
  assumes "map_of (peers s) a = Some p" and "broken p = None" and "\<not> Split (net s)"
  shows "serve_file e a md n (buffer raw) s =
    (Ret (), s\<lparr>peers := AList.update a (p\<lparr>outp := outp p @ [IncomingStream] #
       [put_int64 (int (length (MetaFileName md))), put_int64 (int n)] @
       chunk (bytes_of (MetaFileName md)) @ chunk raw\<rparr>) (peers s)\<rparr>)"
  using assms by (simp add: serve_file_def on_peer_first Send_def conn_write_def copy_to_peer_ok)

lemma serve_part:
  assumes "map_of (peers s) a = Some p" and "broken p = None" and "Split (net s)"
  shows "serve_file e a md n (buffer raw) s =
    (Ret (), s\<lparr>peers := AList.update a (p\<lparr>outp := outp p @ [IncomingStream] #
       [put_int64 (Part md), put_int64 (int n)] @ chunk raw\<rparr>) (peers s)\<rparr>)"
  using assms by (simp add: serve_file_def on_peer_first Send_def conn_write_def copy_to_peer_ok)

lemma GetFile_serves:
  assumes "has_entry e s cid raw md" and "map_of (peers s) a = Some p"
  shows "handleMessageGetFile e a cid s = serve_file e a md (length raw) (buffer raw) s"
  using assms by (simp add: handleMessageGetFile_def has_entry_def)

lemma io_copy_buffer: "io_copy (buffer bs) sink = (Ret (length bs), sink\<lparr>written := bs\<rparr>)"
  by (simp add: io_copy_def copy_loop_EOF piecewise_def sink_def buffer_def)

lemma fetch_stream_ok:
  fixes raw :: bytes
  assumes g: "good_server e s" and "plain cid"
  defines "d \<equiv> put_file (data_at (fstore s) (fdisk s) cid) raw (prepared (fstore s) cid (fdisk s))"
  shows "writeStream (fstore s) cid (buffer raw) (fdisk s) = (Ret (length raw), d)"
    and "writeMetadata (elib e) (net s) (rnd e k 16) (fstore s) cid key 0 0 d =
      (Ret (), disk_with e s raw (rnd e k 16) cid key 0 0)"
proof -
  note T = good_serverD(3) [OF g] and inv = good_serverD(4) [OF g]
  let ?s = "fstore s"
  show "writeStream ?s cid (buffer raw) (fdisk s) = (Ret (length raw), d)"
    using cas.open_effect [OF T inv assms(2)]
    by (simp add: writeStream_def into_file_def io_copy_buffer d_def)
  have dir: "nodes (prepared ?s cid (fdisk s)) (dir_of ?s (prepared ?s cid (fdisk s)) cid) = Some Dir"
    using cas.prepared_dir [OF inv] by simp
  have i: "store_inv 8 ?s d"
    using cas.put_in_entry_inv [OF T cas.prepared_inv [OF T inv] dir] by (simp add: data_at_def d_def)
  moreover have "nodes d (dir_of ?s d cid) = Some Dir" using dir by (simp add: data_at_def d_def)
  ultimately have "writeMetadata (elib e) (net s) (rnd e k 16) ?s cid key 0 0 d =
      (Ret (), put_file (meta_at ?s d cid) (cipher_text (prims (elib e)) (net s) (rnd e k 16)
        (gob_meta (elib e) (metadata_for ?s cid key 0 0))) d)"
    using cas.writeMetadata_effect [OF T i assms(2)] encrypt_file [OF good_serverD(2) [OF g], of _ sink]
    by (simp add: sink_def)
  then show "writeMetadata (elib e) (net s) (rnd e k 16) ?s cid key 0 0 d =
      (Ret (), disk_with e s raw (rnd e k 16) cid key 0 0)"
    by (simp add: disk_with_def stored_def d_def)
qed

lemma getAll_peer_ok:
  assumes g: "good_server e s" and "plain cid" and q: "map_of (peers s) a = Some q" and "0 < wg q"
    and c: "content (inp q) = put_int64 (int (length key)) @ put_int64 (int (length raw)) @ bytes_of key @ raw @ rest"
    and "length key < 2 ^ 63" and "length raw < 2 ^ 63"
  shows "\<exists>i. content i = rest \<and> fin i = fin (inp q) \<and> getAll_peer e cid a s =
    (Ret (), s\<lparr>peers := AList.update a (q\<lparr>inp := i, wg := wg q - 1\<rparr>) (peers s),
       fdisk := disk_with e s raw (rnd e (drawn s) 16) cid key 0 0, drawn := drawn s + 1\<rparr>)"
proof -
  obtain i1 where i1: "read_int64 q = (Ret (int (length key)), q\<lparr>inp := i1\<rparr>)"
    "content i1 = put_int64 (int (length raw)) @ bytes_of key @ raw @ rest" "fin i1 = fin (inp q)"
    using read_int64_ok [OF c] assms(6) by auto
  obtain i2 where i2: "read_int64 (q\<lparr>inp := i1\<rparr>) = (Ret (int (length raw)), q\<lparr>inp := i2\<rparr>)"
    "content i2 = bytes_of key @ raw @ rest" "fin i2 = fin (inp q)"
    using read_int64_ok [of "q\<lparr>inp := i1\<rparr>" "int (length raw)"] i1(2,3) assms(7) by auto
  obtain i3 where i3: "read_limited (int (length key)) (q\<lparr>inp := i2\<rparr>) = (Ret (bytes_of key), q\<lparr>inp := i3\<rparr>)"
    "content i3 = raw @ rest" "fin i3 = fin (inp q)"
    using read_limited_ok [of "q\<lparr>inp := i2\<rparr>" "bytes_of key"] i2(2,3) by auto
  obtain i where i: "limit_reader (int (length raw)) i3 = (buffer raw, i)" "content i = rest"
    "fin i = fin (inp q)"
    using limit_reader_ok [OF i3(2)] i3(3) by auto
  let ?s = "s\<lparr>peers := AList.update a (q\<lparr>inp := i\<rparr>) (peers s)\<rparr>"
  have "good_server e ?s" using g by (rule good_server_cong) simp_all
  note w = fetch_stream_ok [OF this assms(2), where raw = raw]
  have d: "disk_with e ?s raw iv cid key 0 0 = disk_with e s raw iv cid key 0 0" for iv
    by (simp add: disk_with_def)
  have "getAll_peer e cid a s =
    (Ret (), s\<lparr>peers := AList.update a (q\<lparr>inp := i, wg := wg q - 1\<rparr>) (peers s),
       fdisk := disk_with e s raw (rnd e (drawn s) 16) cid key 0 0, drawn := drawn s + 1\<rparr>)"
    using assms(4) w
    by (simp add: getAll_peer_def on_peer_first [OF q] i1(1) i2(1) i3(1) i(1) d on_peer_first CloseStream_def
        update_conv')
  with i show ?thesis by blast
qed

section \<open>Example servers\<close>

definition demo_env :: env where
  "demo_env =
     \<lparr>elib = demo_lib, gob_msg = (\<lambda>m. [0]), ungob_msg = (\<lambda>bs. None), rnd = (\<lambda>i n. replicate n (of_nat i)),
      dialing = (\<lambda>a. Refused (NetError ''connection refused'')), clock = (\<lambda>i. ''0'')\<rparr>"

definition demo_server :: "network \<Rightarrow> server" where
  "demo_server n =
     (NewFileServer ''127.0.0.1:3000'' ''127.0.0.1:3000_mesh_network'' (Some CASPathTransformFunc) demo_disk)
       \<lparr>net := n\<rparr>"

lemma demo_server_simps [simp]:
  "peers (demo_server n) = []" "net (demo_server n) = n" "fdisk (demo_server n) = demo_disk"
  "fstore (demo_server n) = demo_store" "chord (demo_server n) = None" "drawn (demo_server n) = 0"
  "saddr (demo_server n) = ''127.0.0.1:3000''"
  by (simp_all add: demo_server_def NewFileServer_def demo_store_def)

lemma demo_env_simps [simp]: "elib demo_env = demo_lib" "rnd demo_env i n = replicate n (of_nat i)"
  by (simp_all add: demo_env_def)

lemma demo_env_good: "good_env demo_env"
  by (simp add: good_env_def demo_lib_ok)

lemma demo_server_good: "good_server demo_env (demo_server aes_network)"
  "good_server demo_env (demo_server cc20_network)"
  by (simp_all add: good_server_def demo_env_good demo_good)

lemma aes_not_split [simp]: "\<not> Split aes_network" "\<not> Split cc20_network"
  by (simp_all add: aes_network_def cc20_network_def)

lemma demo_has_not: "plain cid \<Longrightarrow> \<not> srv_has (demo_server n) cid"
  using cas.Has_iff [OF demo_store_transform demo_store_inv, of cid] demo_store_root
  by (simp add: srv_has_def data_at_def dir_of_def base_def demo_disk_def)

text \<open>A server that holds one file, stored under AES.\<close>

definition demo_holder :: server where
  "demo_holder =
     (demo_server aes_network)\<lparr>fdisk := disk_with demo_env (demo_server aes_network)
        (cipher_text demo_prims aes_network demo_iv [7, 8]) demo_iv ''cid1'' ''a.txt'' 0 0, drawn := 2\<rparr>"

lemma demo_holder_entry:
  "has_entry demo_env demo_holder ''cid1'' (cipher_text demo_prims aes_network demo_iv [7, 8])
     (metadata_for demo_store ''cid1'' ''a.txt'' 0 0)"
  using disk_with_entry [OF demo_server_good(1) _ length_demo_iv, of "''cid1''"]
  by (simp add: demo_holder_def plain_def)

definition demo_peer :: "string \<Rightarrow> stream \<Rightarrow> nat \<Rightarrow> peer" where
  "demo_peer r i k = (NewTCPPeer ''127.0.0.1:3000'' r i False)\<lparr>wg := k\<rparr>"

lemma demo_peer_simps [simp]:
  "inp (demo_peer r i k) = i" "wg (demo_peer r i k) = k" "broken (demo_peer r i k) = None"
  "outp (demo_peer r i k) = []" "RemoteAddr (demo_peer r i k) = r"
  by (simp_all add: demo_peer_def NewTCPPeer_def)

section \<open>Fetching\<close>

text \<open>The answer to a request for a file, after the byte that announces it.\<close>

definition file_reply :: "string \<Rightarrow> bytes \<Rightarrow> bytes list" where
  "file_reply name raw =
     [put_int64 (int (length name)), put_int64 (int (length raw))] @ chunk (bytes_of name) @ chunk raw"

text \<open>A node that has a file answers a request with its name and its stored bytes, and the node
  that asked, reading exactly that answer, returns the name and the decrypted text and keeps
  the file.\<close>

theorem mesh_fetch:
  assumes "good_server e A" and "\<not> Split (net A)" and "plain cid" and "\<not> srv_has A cid"
    and "peers A = [(b, q)]" and "broken q = None" and "wg q = 1"
    and "has_entry e' B cid raw md" and "\<not> Split (net B)" and "map_of (peers B) a = Some p" and "broken p = None"
    and "length raw < 2 ^ 63" and "length (MetaFileName md) < 2 ^ 63"
    and "decrypt_to_buffer (elib e) (net A) (buffer raw) = Ret (n, data)"
    and "content (inp q) = concat (file_reply (MetaFileName md) raw)"
  shows "(\<exists>B' p'. handleMessageGetFile e' a cid B = (Ret (), B') \<and> map_of (peers B') a = Some p' \<and>
      outp p' = outp p @ [IncomingStream] # file_reply (MetaFileName md) raw) \<and>
    (\<exists>A'. getAll e cid A = (Ret (data, MetaFileName md), A') \<and>
      has_entry e A' cid raw (metadata_for (fstore A) cid (MetaFileName md) 0 0))"
proof
  let ?key = "MetaFileName md"
  let ?p = "p\<lparr>outp := outp p @ [IncomingStream] # file_reply ?key raw\<rparr>"
  have "handleMessageGetFile e' a cid B = (Ret (), B\<lparr>peers := AList.update a ?p (peers B)\<rparr>)"
    using GetFile_serves [OF assms(8,10)] serve_all [OF assms(10,11,9)] by (simp add: file_reply_def)
  then show "\<exists>B' p'. handleMessageGetFile e' a cid B = (Ret (), B') \<and> map_of (peers B') a = Some p' \<and>
      outp p' = outp p @ [IncomingStream] # file_reply ?key raw"
    by (intro exI [of _ "B\<lparr>peers := AList.update a ?p (peers B)\<rparr>"] exI [of _ ?p]) (simp add: update_conv')
next
  let ?key = "MetaFileName md"
  let ?q = "q\<lparr>outp := outp q @ [[IncomingMessage], gob_msg e (MessageGetFile cid)]\<rparr>"
  let ?A = "A\<lparr>peers := [(b, ?q)]\<rparr>"
  have bc: "broadcast e (MessageGetFile cid) A = (Ret (), ?A)"
    using broadcast_ok [of A] assms(5,6) by (simp add: sent_def)
  have g: "good_server e ?A" by (rule good_server_cong [OF assms(1)]) simp_all
  obtain i where i: "getAll_peer e cid b ?A =
    (Ret (), ?A\<lparr>peers := AList.update b (?q\<lparr>inp := i, wg := wg ?q - 1\<rparr>) (peers ?A),
       fdisk := disk_with e ?A raw (rnd e (drawn ?A) 16) cid ?key 0 0, drawn := drawn ?A + 1\<rparr>)"
    using getAll_peer_ok [OF g assms(3), of b ?q ?key raw "[]"] assms(7,12,13,15)
    by (auto simp: file_reply_def)
  let ?A' = "?A\<lparr>peers := AList.update b (?q\<lparr>inp := i, wg := wg ?q - 1\<rparr>) (peers ?A),
       fdisk := disk_with e ?A raw (rnd e (drawn ?A) 16) cid ?key 0 0, drawn := drawn ?A + 1\<rparr>"
  have "has_entry e ?A' cid raw (metadata_for (fstore ?A) cid ?key 0 0)"
    by (rule entry_cong [OF disk_with_entry [OF g assms(3) good_serverD(5) [OF g, of "drawn A" 16],
        where raw = raw and key = ?key and part = 0 and tot = 0 and k = 0]]) simp_all
  then have en: "has_entry e ?A' cid raw (metadata_for (fstore A) cid ?key 0 0)" by simp
  have "srv_read e ?A' cid = Ret (n, data, metadata_for (fstore A) cid ?key 0 0)"
    using entry_read [OF en] assms(14) by simp
  then have "getAll e cid A = (Ret (data, ?key), ?A')"
    using bc i assms(4) by (simp add: getAll_def named_file_def metadata_for_def)
  with en show "\<exists>A'. getAll e cid A = (Ret (data, ?key), A') \<and>
      has_entry e A' cid raw (metadata_for (fstore A) cid ?key 0 0)" by blast
qed

theorem mesh_fetch_witness:
  "\<exists>A'. getAll demo_env ''cid1'' ((demo_server aes_network)\<lparr>peers := [(''b'', demo_peer ''b''
      \<lparr>segs = file_reply ''a.txt'' (cipher_text demo_prims aes_network demo_iv [7, 8]), fin = Open\<rparr> 1)]\<rparr>) =
    (Ret ([7, 8], ''a.txt''), A')"
proof -
  let ?raw = "cipher_text demo_prims aes_network demo_iv [7, 8]" and ?md = "metadata_for demo_store ''cid1'' ''a.txt'' 0 0"
  let ?q = "demo_peer ''b'' \<lparr>segs = file_reply ''a.txt'' ?raw, fin = Open\<rparr> 1"
  let ?A = "(demo_server aes_network)\<lparr>peers := [(''b'', ?q)]\<rparr>"
  let ?B = "demo_holder\<lparr>peers := [(''r'', demo_peer ''r'' \<lparr>segs = [], fin = Open\<rparr> 0)]\<rparr>"
  have c: "plain ''cid1''" by (simp add: plain_def)
  have n: "MetaFileName ?md = ''a.txt''" by (simp add: metadata_for_def)
  have A: "good_server demo_env ?A" "\<not> Split (net ?A)" "\<not> srv_has ?A ''cid1''" "peers ?A = [(''b'', ?q)]"
    "broken ?q = None" "wg ?q = 1" "content (inp ?q) = concat (file_reply (MetaFileName ?md) ?raw)"
    using good_server_cong [OF demo_server_good(1)] demo_has_not [OF c] by (simp_all add: n srv_has_def)
  have B: "has_entry demo_env ?B ''cid1'' ?raw ?md" "\<not> Split (net ?B)"
    "map_of (peers ?B) ''r'' = Some (demo_peer ''r'' \<lparr>segs = [], fin = Open\<rparr> 0)"
    "broken (demo_peer ''r'' \<lparr>segs = [], fin = Open\<rparr> 0) = None"
    using entry_cong [OF demo_holder_entry] by (simp_all add: demo_holder_def)
  have l: "length ?raw < 2 ^ 63" "length (MetaFileName ?md) < 2 ^ 63"
    by (simp_all add: n length_cipher_text)
  have "decrypt_to_buffer (elib demo_env) (net ?A) (buffer ?raw) = Ret (cipher_count aes_network [7, 8], [7, 8])"
    using decrypt_own [OF demo_usable(1) length_demo_iv, of demo_lib] by (simp add: demo_lib_def)
  from mesh_fetch [OF A(1,2) c A(3-6) B l this A(7)] show ?thesis by (simp only: n) blast
qed

section \<open>Storing on all nodes\<close>

lemma srv_write_entry:
  assumes g: "good_server e s" and "plain cid"
  shows "\<exists>s'. srv_write e cid key (buffer c) part tot s = (Ret (cipher_count (net s) c), s') \<and>
    peers s' = peers s \<and> net s' = net s \<and> fstore s' = fstore s \<and> saddr s' = saddr s \<and> chord s' = chord s \<and>
    good_server e s' \<and>
    has_entry e s' cid (cipher_text (prims (elib e)) (net s) (rnd e (drawn s) 16) c)
      (metadata_for (fstore s) cid key part tot)"
proof -
  have l: "length (rnd e (drawn s + 1) 16) = 16" by (rule good_serverD(5) [OF g])
  show ?thesis
    using srv_write_good [OF g assms(2), of key c part tot] disk_with_good [OF g] disk_with_entry [OF g assms(2) l]
    by auto
qed

lemma entry_decrypts:
  assumes "has_entry e s cid (cipher_text (prims (elib e)) (net s) iv c) md" and "good_server e s" and "length iv = 16"
  shows "srv_read e s cid = Ret (cipher_count (net s) c, c, md)"
  using entry_read [OF assms(1)] decrypt_own [OF good_serverD(2) [OF assms(2)] assms(3)] by simp

lemma encrypt_to_all_ok:
  fixes d :: bytes and e :: env
  assumes "usable (net s)" and "\<forall>x \<in> set (peers s). broken (snd x) = None"
  defines "c \<equiv> cipher_text (prims (elib e)) (net s) (rnd e (drawn s) 16) d"
  shows "encrypt_to_all e d s = (Ret (cipher_count (net s) d),
    s\<lparr>drawn := drawn s + 1, peers := map (sent (chunk c)) (peers s)\<rparr>)"
proof -
  have "map (sent []) ps = ps" for ps by (induction ps) (auto simp: sent_def)
  then show ?thesis
    using encrypt_file [OF assms(1), of "buffer d" sink "prims (elib e)" "rnd e (drawn s) 16"] assms(2)
      write_all_ok [of "s\<lparr>drawn := drawn s + 1\<rparr>" c]
    by (simp add: encrypt_to_all_def Let_def multi_write_ok sink_def c_def write_all_def chunk_def)
qed

lemma usable_consumed: "usable n \<Longrightarrow> consumed n d = d"
  by (auto simp: usable_def consumed_def)

lemma storeAll_effect:
  assumes "good_server e A" and "fin r = AtEOF" and "\<forall>x \<in> set (peers A). broken (snd x) = None"
  shows "\<exists>A' iv c. storeAll e key r A = (Ret (hex (sha1 (content r))), A') \<and> length iv = 16 \<and>
    c = cipher_text (prims (elib e)) (net A) iv (content r) \<and>
    peers A' = map (sent ([[IncomingMessage],
      gob_msg e (MessageStoreFile (hex (sha1 (content r))) key 0 0 (int (length c))), [IncomingStream]] @ chunk c))
      (peers A) \<and>
    good_server e A' \<and> net A' = net A \<and> srv_has A' (hex (sha1 (content r))) \<and>
    srv_read e A' (hex (sha1 (content r))) =
      Ret (cipher_count (net A) (content r), content r, metadata_for (fstore A) (hex (sha1 (content r))) key 0 0)"
proof -
  let ?d = "content r" and ?cid = "hex (sha1 (content r))" and ?P = "prims (elib e)"
  have cid: "plain ?cid" by (rule plain_hex) simp
  obtain A1 where w: "srv_write e ?cid key (buffer ?d) 0 0 A = (Ret (cipher_count (net A) ?d), A1)"
    and A1: "peers A1 = peers A" "net A1 = net A" "fstore A1 = fstore A" "good_server e A1"
      "has_entry e A1 ?cid (cipher_text ?P (net A) (rnd e (drawn A) 16) ?d) (metadata_for (fstore A) ?cid key 0 0)"
    using srv_write_entry [OF assms(1) cid] by blast
  let ?iv = "rnd e (drawn A1) 16"
  let ?c = "cipher_text ?P (net A) ?iv ?d"
  have iv: "length ?iv = 16" by (rule good_serverD(5) [OF assms(1)])
  then have len: "length ?c = cipher_count (net A) ?d" by (rule length_cipher_text)
  let ?m = "MessageStoreFile ?cid key 0 0 (int (length ?c))"
  let ?A' = "A1\<lparr>drawn := drawn A1 + 1, peers := map (sent ([[IncomingMessage], gob_msg e ?m, [IncomingStream]] @ chunk ?c)) (peers A)\<rparr>"
  have ok: "\<forall>x \<in> set (map (sent bss) (peers A)). broken (snd x) = None" for bss using assms(3) by auto
  have "storeAll e key r A = (Ret ?cid, ?A')"
    using w A1(1,2) assms(2,3) ok good_serverD(2) [OF assms(1)]
      broadcast_ok [of A1 e ?m] write_all_ok [of "A1\<lparr>peers := map (sent [[IncomingMessage], gob_msg e ?m]) (peers A)\<rparr>" "[IncomingStream]"]
      encrypt_to_all_ok [of "A1\<lparr>peers := map (sent [[IncomingMessage], gob_msg e ?m, [IncomingStream]]) (peers A)\<rparr>" e ?d]
    by (simp add: storeAll_def GenerateCID_def read_all_EOF usable_consumed len o_def)
  moreover have "good_server e ?A'" by (rule good_server_cong [OF A1(4)]) simp_all
  moreover have "srv_read e ?A' ?cid = Ret (cipher_count (net A) ?d, ?d, metadata_for (fstore A) ?cid key 0 0)"
    using entry_decrypts [of e ?A' ?cid "rnd e (drawn A) 16" ?d] entry_cong [OF A1(5), of ?A'] A1(2) \<open>good_server e ?A'\<close>
      good_serverD(5) [OF assms(1)] by simp
  moreover have "srv_has ?A' ?cid"
    using entry_cong [OF A1(5), of ?A'] by (simp add: has_entry_def)
  ultimately show ?thesis using iv A1(2) by (intro exI [of _ ?A'] exI [of _ ?iv] exI [of _ ?c]) simp
qed

text \<open>C27: storing a file on a node in good shape succeeds: the id is the digest of the content, the node
  itself reads the file back, and every peer is sent the announcement, the stream byte and one
  more encryption of the file, the size announced being the size of that.\<close>

theorem store_all:
  assumes "good_server e A" and "fin r = AtEOF" and "\<forall>x \<in> set (peers A). broken (snd x) = None"
  shows "\<exists>A' iv c. storeAll e key r A = (Ret (hex (sha1 (content r))), A') \<and> length iv = 16 \<and>
    c = cipher_text (prims (elib e)) (net A) iv (content r) \<and>
    peers A' = map (sent ([[IncomingMessage],
      gob_msg e (MessageStoreFile (hex (sha1 (content r))) key 0 0 (int (length c))), [IncomingStream]] @ chunk c))
      (peers A) \<and>
    good_server e A' \<and>
    srv_read e A' (hex (sha1 (content r))) =
      Ret (cipher_count (net A) (content r), content r, metadata_for (fstore A) (hex (sha1 (content r))) key 0 0)"
  using storeAll_effect [OF assms] by blast

theorem store_all_witness:
  "\<exists>A'. storeAll demo_env ''a.txt'' (buffer [7, 8]) (demo_server aes_network) = (Ret (hex (sha1 [7, 8])), A') \<and>
    srv_read demo_env A' (hex (sha1 [7, 8])) = Ret (18, [7, 8], metadata_for demo_store (hex (sha1 [7, 8])) ''a.txt'' 0 0)"
  using store_all [OF demo_server_good(1) fin_buffer [of "[7, 8]"], where key = "''a.txt''"] by auto

lemma replica_effect:
  fixes c :: bytes
  assumes "good_server e B" and "plain cid" and "map_of (peers B) a = Some q" and "0 < wg q"
    and "content (inp q) = c @ rest"
  defines "raw \<equiv> cipher_text (prims (elib e)) (net B) (rnd e (drawn B) 16) c"
  shows "\<exists>B' q' i. q' = q\<lparr>inp := i, wg := wg q - 1\<rparr> \<and>
    handleMessageStoreFile e a cid key part tot (int (length c)) B = (Ret (), B') \<and>
    peers B' = AList.update a q' (peers B) \<and> content (inp q') = rest \<and> net B' = net B \<and> good_server e B' \<and>
    has_entry e B' cid raw (metadata_for (fstore B) cid key part tot) \<and>
    srv_read e B' cid = Ret (cipher_count (net B) c, c, metadata_for (fstore B) cid key part tot)"
proof -
  obtain i where i: "read_limited (int (length c)) q = (Ret c, q\<lparr>inp := i\<rparr>)" "content i = rest"
    using read_limited_ok [OF assms(5) refl] by blast
  let ?B = "B\<lparr>peers := AList.update a (q\<lparr>inp := i\<rparr>) (peers B)\<rparr>"
  have g: "good_server e ?B" by (rule good_server_cong [OF assms(1)]) simp_all
  obtain B1 where w: "srv_write e cid key (buffer c) part tot ?B = (Ret (cipher_count (net B) c), B1)"
    and B1: "peers B1 = peers ?B" "net B1 = net B" "fstore B1 = fstore B" "good_server e B1"
      "has_entry e B1 cid raw (metadata_for (fstore B) cid key part tot)"
    using srv_write_entry [OF g assms(2), of key c part tot] by (auto simp: raw_def)
  let ?q = "q\<lparr>inp := i, wg := wg q - 1\<rparr>"
  let ?B' = "B1\<lparr>peers := AList.update a ?q (peers B)\<rparr>"
  have "handleMessageStoreFile e a cid key part tot (int (length c)) B = (Ret (), ?B')"
    using w i(1) B1(1) assms(3,4)
    by (simp add: handleMessageStoreFile_def on_peer_def CloseStream_def update_conv')
  moreover have en: "has_entry e ?B' cid raw (metadata_for (fstore B) cid key part tot)"
    by (rule entry_cong [OF B1(5)]) simp_all
  moreover have g': "good_server e ?B'" by (rule good_server_cong [OF B1(4)]) simp_all
  moreover have "srv_read e ?B' cid = Ret (cipher_count (net B) c, c, metadata_for (fstore B) cid key part tot)"
    using entry_decrypts [OF _ g' good_serverD(5) [OF assms(1), of "drawn B" 16]] en B1(2) by (simp add: raw_def)
  ultimately show ?thesis
    using i(2) B1(2) by (intro exI [of _ ?B'] exI [of _ ?q] exI [of _ i]) simp
qed

text \<open>A node told to store a file of a size reads exactly so many bytes, stores them under the id
  with the name, closes the stream and returns those bytes to its own readers. When the bytes
  are an encryption of the file, as \<open>storeAll\<close> sends them, the replica under AES is not the
  file, and under CC20 with the sender's keys the plain file lies on the disk.\<close>

theorem replica_keeps_ciphertext:
  assumes "good_server e B" and "plain cid" and "map_of (peers B) a = Some q" and "0 < wg q"
    and "content (inp q) = c @ rest" and "c = cipher_text (prims (elib e)) n iv d" and "length iv = 16"
  shows "\<exists>B' q' raw. handleMessageStoreFile e a cid key part tot (int (length c)) B = (Ret (), B') \<and>
    map_of (peers B') a = Some q' \<and> content (inp q') = rest \<and> wg q' = wg q - 1 \<and>
    srv_read e B' cid = Ret (cipher_count (net B) c, c, metadata_for (fstore B) cid key part tot) \<and>
    (EncType n = ''AES'' \<longrightarrow> c \<noteq> d) \<and>
    Read (fstore B') (fdisk B') cid = Ret (length raw, buffer raw) \<and>
    (EncType n = ''CC20'' \<and> net B = n \<longrightarrow> raw = d)"
proof -
  have "EncType n = ''AES'' \<longrightarrow> c \<noteq> d"
    using length_cipher_text [OF assms(7), of "prims (elib e)" n d] assms(6) by (auto simp: cipher_count_def)
  moreover have "EncType n = ''CC20'' \<and> net B = n \<longrightarrow> cipher_text (prims (elib e)) (net B) (rnd e (drawn B) 16) c = d"
    using assms(6) by (simp add: cipher_text_def)
  moreover obtain B' q' where B': "handleMessageStoreFile e a cid key part tot (int (length c)) B = (Ret (), B')"
    "peers B' = AList.update a q' (peers B)" "content (inp q') = rest" "wg q' = wg q - 1"
    "has_entry e B' cid (cipher_text (prims (elib e)) (net B) (rnd e (drawn B) 16) c) (metadata_for (fstore B) cid key part tot)"
    "srv_read e B' cid = Ret (cipher_count (net B) c, c, metadata_for (fstore B) cid key part tot)"
    using replica_effect [OF assms(1-5), of key part tot] by auto
  ultimately show ?thesis by (auto simp: has_entry_def update_conv')
qed

theorem replica_keeps_ciphertext_witness:
  "\<exists>B' m. handleMessageStoreFile demo_env ''b'' ''cid1'' ''a.txt'' 0 0 18 ((demo_server aes_network)\<lparr>peers :=
      [(''b'', demo_peer ''b'' \<lparr>segs = [cipher_text demo_prims aes_network demo_iv [7, 8]], fin = Open\<rparr> 1)]\<rparr>) =
    (Ret (), B') \<and>
   srv_read demo_env B' ''cid1'' = Ret (34, cipher_text demo_prims aes_network demo_iv [7, 8], m)"
proof -
  let ?c = "cipher_text demo_prims aes_network demo_iv [7, 8]"
  let ?q = "demo_peer ''b'' \<lparr>segs = [?c], fin = Open\<rparr> 1"
  let ?B = "(demo_server aes_network)\<lparr>peers := [(''b'', ?q)]\<rparr>"
  have B: "good_server demo_env ?B" "plain ''cid1''" "map_of (peers ?B) ''b'' = Some ?q" "0 < wg ?q"
    "content (inp ?q) = ?c @ []" "?c = cipher_text (prims (elib demo_env)) aes_network demo_iv [7, 8]"
    using good_server_cong [OF demo_server_good(1)] by (simp_all add: plain_def demo_lib_def)
  have "length ?c = 18" by (simp add: length_cipher_text)
  then show ?thesis
    using replica_keeps_ciphertext [OF B length_demo_iv, of "''a.txt''" 0 0] by auto
qed

text \<open>A node that does not have a file waits without end for a peer that does not have it either
  and keeps its connection open: the peer sends nothing.\<close>

theorem fetch_hangs_on_missing:
  assumes "\<not> srv_has A cid" and "\<not> Split (net A)" and "peers A = (b, q) # ps" and "\<forall>x \<in> set (peers A). broken (snd x) = None"
    and "content (inp q) = []" and "fin (inp q) = Open" and "\<not> srv_has B cid"
  shows "fst (Get e cid A) = Hang \<and> (\<exists>er. handleMessageGetFile e' a cid B = (Fail er, B))"
proof
  let ?q = "q\<lparr>outp := outp q @ [[IncomingMessage], gob_msg e (MessageGetFile cid)]\<rparr>"
  have "fst (read_int64 ?q) = Hang" using read_int64_hang [of ?q] assms(5,6) by (simp del: concat_eq_Nil_conv)
  then obtain q' where h: "read_int64 ?q = (Hang, q')" by (cases "read_int64 ?q") simp
  show "fst (Get e cid A) = Hang"
    using broadcast_ok [OF assms(4), of e "MessageGetFile cid"] assms(1-3) h
    by (simp add: Get_def getAll_def getAll_peer_def on_peer_def sent_def)
  show "\<exists>er. handleMessageGetFile e' a cid B = (Fail er, B)"
    using assms(7) by (simp add: handleMessageGetFile_def)
qed

theorem fetch_hangs_on_missing_witness:
  "fst (Get demo_env ''cid1'' ((demo_server aes_network)\<lparr>peers := [(''b'', demo_peer ''b'' \<lparr>segs = [], fin = Open\<rparr> 0)]\<rparr>)) = Hang"
proof -
  let ?q = "demo_peer ''b'' \<lparr>segs = [], fin = Open\<rparr> 0"
  let ?A = "(demo_server aes_network)\<lparr>peers := [(''b'', ?q)]\<rparr>"
  have h: "\<not> srv_has (demo_server aes_network) ''cid1''" by (rule demo_has_not) (simp add: plain_def)
  then have "\<not> srv_has ?A ''cid1''" "\<not> Split (net ?A)" "peers ?A = [(''b'', ?q)]"
    "\<forall>x \<in> set (peers ?A). broken (snd x) = None" "content (inp ?q) = []" "fin (inp ?q) = Open"
    by (simp_all add: srv_has_def)
  from fetch_hangs_on_missing [OF this h, THEN conjunct1] show ?thesis .
qed

section \<open>Storing in parts\<close>

definition with_part :: "env \<Rightarrow> string \<Rightarrow> string \<Rightarrow> int \<Rightarrow> int \<Rightarrow> bytes \<Rightarrow> peer \<Rightarrow> peer" where
  "with_part e cid key tot i part p =
     p\<lparr>outp := outp p @ [[IncomingMessage], gob_msg e (MessageStoreFile cid key i tot (int (length part))),
       [IncomingStream]] @ chunk part\<rparr>"

lemma send_parts_ok:
  assumes "distinct as" and "\<And>a. a \<in> set as \<Longrightarrow> \<exists>p. map_of (peers s) a = Some p \<and> broken p = None"
  shows "\<exists>ps. send_parts e cid key tot as i (map buffer parts) s = (Ret (), s\<lparr>peers := ps\<rparr>) \<and>
    (\<forall>a. a \<notin> set as \<longrightarrow> map_of ps a = map_of (peers s) a) \<and>
    (\<forall>j < length as. map_of ps (as ! j) =
       (if j < length parts then map_option (with_part e cid key tot (i + int j) (parts ! j)) (map_of (peers s) (as ! j))
        else map_of (peers s) (as ! j)))"
  using assms
proof (induction as arbitrary: i parts s)
  case Nil
  then show ?case by (intro exI [of _ "peers s"]) simp
next
  case (Cons a as)
  show ?case
  proof (cases parts)
    case Nil
    then show ?thesis by (intro exI [of _ "peers s"]) simp
  next
    case (Cons b bs)
    obtain p where p: "map_of (peers s) a = Some p" "broken p = None" using Cons.prems(2) by auto
    let ?p = "with_part e cid key tot i b p"
    let ?s = "s\<lparr>peers := AList.update a ?p (peers s)\<rparr>"
    have s: "map_of (peers ?s) x = (if x = a then Some ?p else map_of (peers s) x)" for x
      by (simp add: update_conv')
    have "\<And>x. x \<in> set as \<Longrightarrow> \<exists>q. map_of (peers ?s) x = Some q \<and> broken q = None"
      unfolding s using Cons.prems(2) p(2) by (auto simp: with_part_def)
    from Cons.IH [OF _ this, where parts = bs and i = "i + 1"] Cons.prems(1)
    obtain ps where ps: "send_parts e cid key tot as (i + 1) (map buffer bs) ?s = (Ret (), ?s\<lparr>peers := ps\<rparr>)"
      "\<forall>x. x \<notin> set as \<longrightarrow> map_of ps x = map_of (peers ?s) x"
      "\<forall>j < length as. map_of ps (as ! j) =
         (if j < length bs then map_option (with_part e cid key tot (i + 1 + int j) (bs ! j)) (map_of (peers ?s) (as ! j))
          else map_of (peers ?s) (as ! j))"
      by auto
    have run: "send_parts e cid key tot (a # as) i (map buffer parts) s = (Ret (), s\<lparr>peers := ps\<rparr>)"
      using ps(1) p Cons
      by (simp add: sendMessage_def on_peer_first send_frame_ok Send_def conn_write_def copy_to_peer_ok
          with_part_def Let_def)
    have "map_of ps ((a # as) ! j) =
       (if j < length parts then map_option (with_part e cid key tot (i + int j) (parts ! j)) (map_of (peers s) ((a # as) ! j))
        else map_of (peers s) ((a # as) ! j))" if j: "j < length (a # as)" for j
    proof (cases j)
      case 0
      then show ?thesis using ps(2) Cons.prems(1) p(1) Cons unfolding s by simp
    next
      case (Suc k)
      have "as ! k \<noteq> a" using Cons.prems(1) j Suc by auto
      then show ?thesis using ps(3) j Suc Cons unfolding s by (simp add: algebra_simps)
    qed
    moreover have "\<forall>x. x \<notin> set (a # as) \<longrightarrow> map_of ps x = map_of (peers s) x"
      using ps(2) unfolding s by simp
    ultimately show ?thesis using run by blast
  qed
qed

text \<open>C29: storing in parts keeps the first part on the node, with its number and the number of parts, and
  sends each following part, announced with its number and size and not encrypted, to the
  next peer, as long as there are both parts and peers; the peers after the last part get
  nothing, and of the parts after the last peer nothing is kept.\<close>

theorem split_store:
  assumes "good_server e A" and "Nodes (net A) \<noteq> []" and "fin r = AtEOF" and "distinct (map fst (peers A))"
    and "\<forall>x \<in> set (peers A). broken (snd x) = None"
  shows "\<exists>A' parts. storeSplit e key r A = (Ret (hex (sha1 (content r))), A') \<and>
    length parts = length (Nodes (net A)) \<and> concat parts = content r \<and>
    srv_read e A' (hex (sha1 (content r))) = Ret (cipher_count (net A) (parts ! 0), parts ! 0,
      metadata_for (fstore A) (hex (sha1 (content r))) key 1 (int (length parts))) \<and>
    (\<forall>j < length (peers A). map_of (peers A') (fst (peers A ! j)) =
       Some (if j + 1 < length parts
             then with_part e (hex (sha1 (content r))) key (int (length parts)) (int j + 2) (parts ! (j + 1)) (snd (peers A ! j))
             else snd (peers A ! j)))"
proof -
  let ?d = "content r" and ?cid = "hex (sha1 (content r))"
  have cid: "plain ?cid" by (rule plain_hex) simp
  obtain parts where p: "splitFile (Nodes (net A)) (buffer ?d) = Ret (map buffer parts)"
    "length parts = length (Nodes (net A))" "concat parts = ?d"
    using split_parts [OF assms(2) fin_buffer, of ?d] by auto
  then obtain b bs where bs: "parts = b # bs" using assms(2) by (cases parts) auto
  let ?n = "int (length parts)"
  obtain A1 where w: "srv_write e ?cid key (buffer b) 1 ?n A = (Ret (cipher_count (net A) b), A1)"
    and A1: "peers A1 = peers A" "net A1 = net A" "fstore A1 = fstore A" "good_server e A1"
      "has_entry e A1 ?cid (cipher_text (prims (elib e)) (net A) (rnd e (drawn A) 16) b) (metadata_for (fstore A) ?cid key 1 ?n)"
    using srv_write_entry [OF assms(1) cid, of key b 1 ?n] by blast
  have mem: "map_of (peers A1) (fst (peers A ! j)) = Some (snd (peers A ! j))" if "j < length (peers A)" for j
    using assms(4) that A1(1) by (simp add: map_of_eq_Some_iff)
  have "\<exists>p. map_of (peers A1) a = Some p \<and> broken p = None" if "a \<in> set (map fst (peers A))" for a
    using that assms(4,5) A1(1) by (force simp: map_of_eq_Some_iff)
  from send_parts_ok [OF assms(4) this, of e ?cid key ?n 2 bs]
  obtain ps where ps: "send_parts e ?cid key ?n (map fst (peers A)) 2 (map buffer bs) A1 = (Ret (), A1\<lparr>peers := ps\<rparr>)"
    "\<forall>j < length (peers A). map_of ps (fst (peers A ! j)) =
       (if j < length bs then map_option (with_part e ?cid key ?n (2 + int j) (bs ! j)) (map_of (peers A1) (fst (peers A ! j)))
        else map_of (peers A1) (fst (peers A ! j)))"
    by auto
  let ?A' = "A1\<lparr>peers := ps\<rparr>"
  have "storeSplit e key r A = (Ret ?cid, ?A')"
    using w ps(1) p(1) bs assms(3) A1(1)
    by (simp add: storeSplit_def GenerateCID_def read_all_EOF Let_def)
  moreover have g: "good_server e ?A'" by (rule good_server_cong [OF A1(4)]) simp_all
  have "b = parts ! 0" using bs by simp
  then have "srv_read e ?A' ?cid = Ret (cipher_count (net A) (parts ! 0), parts ! 0, metadata_for (fstore A) ?cid key 1 ?n)"
    using entry_decrypts [OF _ g good_serverD(5) [OF assms(1), of "drawn A" 16]] entry_cong [OF A1(5), of ?A'] A1(2)
    by simp
  moreover have "\<forall>j < length (peers A). map_of (peers ?A') (fst (peers A ! j)) =
       Some (if j + 1 < length parts then with_part e ?cid key ?n (int j + 2) (parts ! (j + 1)) (snd (peers A ! j))
             else snd (peers A ! j))"
    using ps(2) mem bs by (simp add: add.commute)
  ultimately show ?thesis using p(2,3) by blast
qed

definition split_network :: network where
  "split_network = aes_network\<lparr>Nodes := [''127.0.0.1:3000'', ''127.0.0.1:4000''], Split := True\<rparr>"

lemma split_network_simps [simp]:
  "EncType split_network = ''AES''" "Split split_network"
  "Nodes split_network = [''127.0.0.1:3000'', ''127.0.0.1:4000'']"
  "cipher_count split_network d = 16 + length d"
  by (simp_all add: split_network_def cipher_count_def)

lemma demo_split_good: "good_server demo_env (demo_server split_network)"
proof -
  have "usable split_network"
    using demo_usable(1) by (simp add: usable_def split_network_def)
  then show ?thesis using demo_good(1) by (simp add: good_server_def demo_env_good good_store_def)
qed

theorem split_store_witness:
  "\<exists>A' p. storeSplit demo_env ''a.txt'' (buffer [7]) ((demo_server split_network)\<lparr>peers :=
      [(''b'', demo_peer ''b'' \<lparr>segs = [], fin = Open\<rparr> 0)]\<rparr>) = (Ret (hex (sha1 [7])), A') \<and>
    map_of (peers A') ''b'' = Some p"
proof -
  let ?A = "(demo_server split_network)\<lparr>peers := [(''b'', demo_peer ''b'' \<lparr>segs = [], fin = Open\<rparr> 0)]\<rparr>"
  have A: "good_server demo_env ?A" "Nodes (net ?A) \<noteq> []" "distinct (map fst (peers ?A))"
    "\<forall>x \<in> set (peers ?A). broken (snd x) = None"
    using good_server_cong [OF demo_split_good] by simp_all
  from split_store [OF A(1,2) fin_buffer [of "[7]"] A(3,4), of "''a.txt''"] show ?thesis by auto
qed

section \<open>Fetching parts\<close>

definition part_reply :: "int \<Rightarrow> bytes \<Rightarrow> bytes list" where
  "part_reply k raw = [put_int64 k, put_int64 (int (length raw))] @ chunk raw"

lemma getSplit_peer_ok:
  assumes q: "map_of (peers s) a = Some q" and "0 < wg q"
    and c: "content (inp q) = concat (part_reply (int k) raw) @ rest"
    and "k < 2 ^ 63" and "length raw < 2 ^ 63"
    and d: "decrypt_to_buffer (elib e) (net s) (buffer raw) = Ret (n, part)" and "TotalParts md \<noteq> 0"
  shows "\<exists>i. getSplit_peer e cid a (m, md) s =
    (Ret (AList.update (int k) (buffer part) m, md),
     s\<lparr>peers := AList.update a (q\<lparr>inp := i, wg := wg q - 1\<rparr>) (peers s)\<rparr>)"
proof -
  have c': "content (inp q) = put_int64 (int k) @ put_int64 (int (length raw)) @ raw @ rest"
    using c by (simp add: part_reply_def)
  obtain i1 where i1: "read_int64 q = (Ret (int k), q\<lparr>inp := i1\<rparr>)"
    "content i1 = put_int64 (int (length raw)) @ raw @ rest" "fin i1 = fin (inp q)"
    using read_int64_ok [OF c'] assms(4) by auto
  obtain i2 where i2: "read_int64 (q\<lparr>inp := i1\<rparr>) = (Ret (int (length raw)), q\<lparr>inp := i2\<rparr>)"
    "content i2 = raw @ rest"
    using read_int64_ok [of "q\<lparr>inp := i1\<rparr>" "int (length raw)"] i1(2,3) assms(5) by auto
  obtain i where i: "read_limited (int (length raw)) (q\<lparr>inp := i2\<rparr>) = (Ret raw, q\<lparr>inp := i\<rparr>)"
    using read_limited_ok [of "q\<lparr>inp := i2\<rparr>" raw rest "int (length raw)"] i2(2) by auto
  show ?thesis
    using i1(1) i2(1) i d assms(2,7)
    by (intro exI [of _ i]) (simp add: getSplit_peer_def on_peer_first [OF q] CloseStream_def Let_def)
qed

text \<open>A peer that answers with the part of number \<open>k\<close>.\<close>

definition delivers :: "env \<Rightarrow> network \<Rightarrow> peer \<Rightarrow> nat \<Rightarrow> bytes \<Rightarrow> bool" where
  "delivers e n q k part \<longleftrightarrow> 0 < wg q \<and> k < 2 ^ 63 \<and>
     (\<exists>raw c. content (inp q) = concat (part_reply (int k) raw) \<and> length raw < 2 ^ 63 \<and>
        decrypt_to_buffer (elib e) n (buffer raw) = Ret (c, part))"

lemma getSplit_loop_ok:
  assumes "distinct as" and "TotalParts md \<noteq> 0" and "length ks = length as" and "distinct ks"
    and "\<And>j. j < length as \<Longrightarrow> \<exists>q. map_of (peers s) (as ! j) = Some q \<and> delivers e (net s) q (ks ! j) (f (ks ! j))"
    and "\<forall>k \<in> set ks. int k \<notin> fst ` set m"
  shows "\<exists>s'. getSplit_loop e cid as (m, md) s = (Ret (m @ map (\<lambda>k. (int k, buffer (f k))) ks, md), s')"
  using assms
proof (induction as arbitrary: ks m s)
  case Nil
  then show ?case by simp
next
  case (Cons a as)
  obtain k ks' where ks: "ks = k # ks'" using Cons.prems(3) by (cases ks) auto
  obtain q where q: "map_of (peers s) a = Some q" "delivers e (net s) q k (f k)"
    using Cons.prems(5) [of 0] ks by auto
  then obtain raw c where raw: "0 < wg q" "k < 2 ^ 63" "content (inp q) = concat (part_reply (int k) raw) @ []"
    "length raw < 2 ^ 63" "decrypt_to_buffer (elib e) (net s) (buffer raw) = Ret (c, f k)"
    by (auto simp: delivers_def)
  obtain i where i: "getSplit_peer e cid a (m, md) s =
    (Ret (AList.update (int k) (buffer (f k)) m, md),
     s\<lparr>peers := AList.update a (q\<lparr>inp := i, wg := wg q - 1\<rparr>) (peers s)\<rparr>)"
    using getSplit_peer_ok [OF q(1) raw(1,3,2,4,5) Cons.prems(2)] by blast
  let ?s = "s\<lparr>peers := AList.update a (q\<lparr>inp := i, wg := wg q - 1\<rparr>) (peers s)\<rparr>"
  have up: "AList.update (int k) x m = m @ [(int k, x)]" for x
    using Cons.prems(6) ks by (induction m) auto
  have "\<exists>q. map_of (peers ?s) (as ! j) = Some q \<and> delivers e (net ?s) q (ks' ! j) (f (ks' ! j))"
    if j: "j < length as" for j
  proof -
    have "as ! j \<noteq> a" using Cons.prems(1) j by auto
    then show ?thesis using Cons.prems(5) [of "Suc j"] j ks by (simp add: update_conv')
  qed
  moreover have "\<forall>k' \<in> set ks'. int k' \<notin> fst ` set (m @ [(int k, buffer (f k))])"
    using Cons.prems(4,6) ks by auto
  ultimately obtain s' where "getSplit_loop e cid as (m @ [(int k, buffer (f k))], md) ?s =
      (Ret ((m @ [(int k, buffer (f k))]) @ map (\<lambda>k. (int k, buffer (f k))) ks', md), s')"
    using Cons.IH [of ks' ?s "m @ [(int k, buffer (f k))]"] Cons.prems(1-4) ks by auto
  then show ?case using i ks by (simp add: up)
qed

text \<open>C28: a node that has the first part, and whose peers answer with the other parts, in whatever order,
  puts the file together again and returns it under its name.\<close>

theorem split_fetch:
  assumes "Split (net A)" and "has_entry e A cid raw md" and "Part md = 1" and "TotalParts md = int (length parts)"
    and "decrypt_to_buffer (elib e) (net A) (buffer raw) = Ret (n, parts ! 0)" and "parts \<noteq> []"
    and "distinct (map fst (peers A))" and "\<forall>x \<in> set (peers A). broken (snd x) = None"
    and "length ks = length (peers A)" and "distinct ks" and "set ks = {2..length parts}"
    and "\<forall>j < length ks. delivers e (net A) (snd (peers A ! j)) (ks ! j) (parts ! (ks ! j - 1))"
  shows "\<exists>A'. Get e cid A = (Ret (concat parts, MetaFileName md), A')"
proof -
  let ?m = "MessageGetFile cid" and ?f = "\<lambda>k. parts ! (k - 1)"
  let ?A = "A\<lparr>peers := map (sent [[IncomingMessage], gob_msg e ?m]) (peers A)\<rparr>"
  let ?r = "(1 :: int, buffer (parts ! 0)) # map (\<lambda>k. (int k, buffer (?f k))) ks"
  have bc: "broadcast e ?m A = (Ret (), ?A)" by (rule broadcast_ok [OF assms(8)])
  have keys: "map fst (peers ?A) = map fst (peers A)" by simp
  have peer: "\<exists>q. map_of (peers ?A) (map fst (peers A) ! j) = Some q \<and> delivers e (net ?A) q (ks ! j) (?f (ks ! j))"
    if j: "j < length (map fst (peers A))" for j
  proof -
    have "map_of (peers A) (fst (peers A ! j)) = Some (snd (peers A ! j))"
      using assms(7) j by (simp add: map_of_eq_Some_iff)
    then show ?thesis using j assms(9,12) by (auto simp: map_of_sent delivers_def)
  qed
  have tp: "TotalParts md \<noteq> 0" using assms(4,6) by simp
  have fresh: "\<forall>k \<in> set ks. int k \<notin> fst ` set [(1 :: int, buffer (parts ! 0))]"
    using assms(11) by auto
  obtain s' where loop: "getSplit_loop e cid (map fst (peers A)) ([(1, buffer (parts ! 0))], md) ?A = (Ret (?r, md), s')"
    using getSplit_loop_ok [OF assms(7) tp _ assms(10) peer fresh] assms(9) by auto
  have len: "length ?r = length parts"
    using assms(10,11) distinct_card [of ks] assms(6) by (cases parts) simp_all
  have "map_of ?r (int (1 + j)) = Some (buffer (parts ! j))" if j: "j < length parts" for j
  proof (cases j)
    case 0
    then show ?thesis by simp
  next
    case (Suc i)
    have "Suc j \<in> set ks" using assms(11) j Suc by simp
    then have "(int (Suc j), buffer (?f (Suc j))) \<in> set ?r" by force
    moreover have "distinct (map fst ?r)"
      using assms(10,11) by (auto simp: distinct_map inj_on_def o_def)
    ultimately have "map_of ?r (int (Suc j)) = Some (buffer (?f (Suc j)))"
      by (intro map_of_is_SomeI)
    then show ?thesis by (simp only: plus_1_eq_Suc diff_Suc_1)
  qed
  then have "combineFile ?r = Ret (concat parts)"
    using combine_loop_parts [of "length parts" ?r 1 parts "[]"] len by (simp add: combineFile_def)
  then have "assemble ?r md = Ret (concat parts, MetaFileName md)"
    using len tp assms(4) by (simp add: assemble_def)
  moreover have "srv_read e A cid = Ret (n, parts ! 0, md)" using entry_read [OF assms(2)] assms(5) by simp
  moreover have "srv_has A cid" using assms(2) by (simp add: has_entry_def)
  ultimately show ?thesis
    using assms(1,3) bc loop by (simp add: Get_def getSplit_def)
qed

theorem split_fetch_witness:
  "\<exists>A'. Get demo_env ''cid1'' ((demo_server split_network)\<lparr>fdisk := disk_with demo_env (demo_server split_network)
        (cipher_text demo_prims split_network demo_iv [7]) demo_iv ''cid1'' ''a.txt'' 1 2,
      peers := [(''b'', demo_peer ''b'' \<lparr>segs = part_reply 2 (cipher_text demo_prims split_network demo_iv [8]), fin = Open\<rparr> 1)]\<rparr>) =
    (Ret ([7, 8], ''a.txt''), A')"
proof -
  let ?md = "metadata_for demo_store ''cid1'' ''a.txt'' 1 2"
  let ?raw = "\<lambda>d. cipher_text demo_prims split_network demo_iv d"
  let ?q = "demo_peer ''b'' \<lparr>segs = part_reply 2 (?raw [8]), fin = Open\<rparr> 1"
  let ?A = "(demo_server split_network)\<lparr>fdisk := disk_with demo_env (demo_server split_network) (?raw [7]) demo_iv
      ''cid1'' ''a.txt'' 1 2, peers := [(''b'', ?q)]\<rparr>"
  have u: "usable split_network" using demo_split_good by (rule good_serverD(2) [where s = "demo_server split_network", simplified])
  have dec: "decrypt_to_buffer (elib demo_env) split_network (buffer (?raw d)) = Ret (16 + length d, d)" for d
    using decrypt_own [OF u length_demo_iv, of demo_lib d] by (simp add: demo_lib_def)
  have en: "has_entry demo_env ?A ''cid1'' (?raw [7]) ?md"
    by (rule entry_cong [OF disk_with_entry [OF demo_split_good _ length_demo_iv, where cid = "''cid1''" and raw = "?raw [7]"
        and key = "''a.txt''" and part = 1 and tot = 2 and k = 0, simplified demo_server_simps]])
      (simp_all add: plain_def)
  have md: "Part ?md = 1" "TotalParts ?md = int (length [[7], [8 :: byte]])" "MetaFileName ?md = ''a.txt''"
    by (simp_all add: metadata_for_def)
  have "length (?raw [8]) = 17" by (simp add: length_cipher_text)
  then have "delivers demo_env split_network ?q 2 [8]"
    using dec [of "[8]"] by (force simp: delivers_def)
  then have "\<forall>j < length [2]. delivers demo_env (net ?A) (snd (peers ?A ! j)) ([2] ! j) ([[7], [8]] ! ([2] ! j - 1))"
    by simp
  moreover have "set [2] = {2..length [[7], [8 :: byte]]}" by auto
  ultimately show ?thesis
    using split_fetch [OF _ en md(1,2), of 17 "[2]"] dec [of "[7]"] md(3) by simp
qed

text \<open>C37: storing in parts reports success also when there are fewer peers than parts; without any peer,
  on a network of at least two nodes, the same node then cannot return the file.\<close>

theorem split_store_loses_parts:
  assumes "good_server e A" and "Split (net A)" and "2 \<le> length (Nodes (net A))" and "fin r = AtEOF" and "peers A = []"
  shows "\<exists>A'. StoreFileMesh e key r A = (Ret (hex (sha1 (content r))), A') \<and>
    fst (Get e (hex (sha1 (content r))) A') = Fail (Errorf ''incomplete file'' [])"
proof -
  let ?d = "content r" and ?cid = "hex (sha1 (content r))"
  have cid: "plain ?cid" by (rule plain_hex) simp
  have "Nodes (net A) \<noteq> []" using assms(3) by auto
  from split_parts [OF this fin_buffer, of ?d]
  obtain parts where p: "splitFile (Nodes (net A)) (buffer ?d) = Ret (map buffer parts)"
    "length parts = length (Nodes (net A))" by auto
  then obtain b bs where bs: "parts = b # bs" "bs \<noteq> []"
    using assms(3) by (cases parts; cases "tl parts") auto
  let ?n = "int (length parts)"
  obtain A1 where w: "srv_write e ?cid key (buffer b) 1 ?n A = (Ret (cipher_count (net A) b), A1)"
    and A1: "peers A1 = peers A" "net A1 = net A" "good_server e A1"
      "has_entry e A1 ?cid (cipher_text (prims (elib e)) (net A) (rnd e (drawn A) 16) b) (metadata_for (fstore A) ?cid key 1 ?n)"
    using srv_write_entry [OF assms(1) cid, of key b 1 ?n] by blast
  have "StoreFileMesh e key r A = (Ret ?cid, A1)"
    using w p(1) bs(1) assms(2,4,5) A1(1)
    by (simp add: StoreFileMesh_def storeSplit_def GenerateCID_def read_all_EOF Let_def)
  moreover have "srv_read e A1 ?cid = Ret (cipher_count (net A) b, b, metadata_for (fstore A) ?cid key 1 ?n)"
    using entry_decrypts [OF _ A1(3) good_serverD(5) [OF assms(1), of "drawn A" 16]] A1(2,4) by simp
  moreover have "broadcast e (MessageGetFile ?cid) A1 = (Ret (), A1)"
    using A1(1) assms(5) by (simp add: broadcast_def)
  ultimately show ?thesis
    using A1(1,2,4) assms(2,5) bs
    by (simp add: Get_def getSplit_def has_entry_def assemble_def metadata_for_def)
qed

theorem split_store_loses_parts_witness:
  "\<exists>A'. StoreFileMesh demo_env ''a.txt'' (buffer [7]) (demo_server split_network) = (Ret (hex (sha1 [7])), A') \<and>
    fst (Get demo_env (hex (sha1 [7])) A') = Fail (Errorf ''incomplete file'' [])"
  using split_store_loses_parts [OF demo_split_good _ _ fin_buffer [of "[7]"], of "''a.txt''"] by simp

end
