(* ===== verification/Api.thy ===== *)
theory Api
  imports Handlers
begin

text \<open>
  The outer layer: the configuration and its checks (\<open>config.go\<close>), the HTTP API
  (\<open>server.go\<close>) as functions from requests to responses, and the start of a node
  (\<open>main.go\<close>). A panic in a handler is caught by \<open>net/http\<close> and ends that request only.
\<close>

section \<open>Configuration\<close>

record config =
  Architecture :: string
  Encryption :: string
  csplit :: bool
  JoinAddr :: string
  ListenAddr :: string
  APIPort :: int

text \<open>The values of the flags that are not given.\<close>

definition default_config :: config where
  "default_config =
     \<lparr>Architecture = ''chord'', Encryption = ''AES'', csplit = False, JoinAddr = [],
      ListenAddr = ''127.0.0.1:3000'', APIPort = 8080\<rparr>"

definition isFirstNode :: "string \<Rightarrow> bool" where
  "isFirstNode a = suffix '':3000'' a"

text \<open>The checks of \<open>ParseConfig\<close> on the parsed flags, and whether it warns.\<close>

definition ParseConfig :: "config \<Rightarrow> (config \<times> bool) res" where
  "ParseConfig c =
     (if Architecture c \<noteq> ''mesh'' \<and> Architecture c \<noteq> ''chord''
      then Fail (Errorf ''invalid architecture'' [Architecture c])
      else if Encryption c \<noteq> ''AES'' \<and> Encryption c \<noteq> ''CC20'' \<and> Encryption c \<noteq> ''None''
      then Fail (Errorf ''unsupported encryption type'' [Encryption c])
      else if csplit c \<and> Architecture c \<noteq> ''mesh''
      then Fail (Errorf ''file splitting is only supported with mesh architecture'' [])
      else Ret (c, JoinAddr c = [] \<and> \<not> isFirstNode (ListenAddr c)))"

definition InitializeNetwork :: "env \<Rightarrow> config \<Rightarrow> server \<Rightarrow> server" where
  "InitializeNetwork e c s =
     (if Architecture c = ''mesh'' then
        s\<lparr>net := \<lparr>EncType = Encryption c, EncKey = NewEncryptionKey e (drawn s), Nonce = GenerateNonce e (drawn s + 1),
                  Nodes = [ListenAddr c], Split = csplit c\<rparr>,
          drawn := drawn s + 2\<rparr>
      else s)"

section \<open>Starting a node\<close>

text \<open>
  \<open>Start\<close>: the error of the listener, or else the message loop over the RPCs that come until
  the server is stopped. The API runs beside it.
\<close>

definition Start :: "env \<Rightarrow> error option \<Rightarrow> RPC list \<Rightarrow> server \<Rightarrow> unit res \<times> server" where
  "Start e listen rpcs s =
     (case listen of
        Some er \<Rightarrow> (Fail er, s)
      | None \<Rightarrow> andthen (loop e rpcs s) (\<lambda>_ s. if stopped s then (Ret (), s) else (Hang, s)))"

text \<open>
  \<open>listen\<close> is the error of the listener, if it has one; the server then ends the process.
\<close>

definition StartServer :: "env \<Rightarrow> error option \<Rightarrow> config \<Rightarrow> disk \<Rightarrow> unit res \<times> server" where
  "StartServer e listen c d =
     (let s = InitializeNetwork e c
                (NewFileServer (ListenAddr c) (ListenAddr c @ ''_'' @ Architecture c @ ''_network'')
                  (Some CASPathTransformFunc) d)
      in if listen \<noteq> None then (Panic ''log.Fatal'', s)
         else if Architecture c = ''chord'' then
           (if JoinAddr c = [] then (Ret (), InitChord s)
            else wrapping ''failed to join Chord ring'' (JoinChord e (JoinAddr c) s))
         else if Architecture c = ''mesh'' then
           (if JoinAddr c \<noteq> [] then wrapping ''failed to join mesh network'' (Add e (JoinAddr c) s)
            else (Ret (), s))
         else (Ret (), s))"

definition main_node :: "env \<Rightarrow> error option \<Rightarrow> config \<Rightarrow> disk \<Rightarrow> server res" where
  "main_node e listen flags d =
     (case ParseConfig flags of
        Ret (c, warning) \<Rightarrow>
          (case StartServer e listen c d of
             (Ret u, s) \<Rightarrow> Ret s
           | (Hang, s) \<Rightarrow> Hang
           | (_, s) \<Rightarrow> Panic ''log.Fatal'')
      | _ \<Rightarrow> Panic ''log.Fatal'')"

section \<open>Requests and responses\<close>

text \<open>
  Of a request the handlers use the method, the result of parsing the form, the uploaded
  file, and the content id of the query and of the form. The response is an error with its
  status, a JSON object, or a download with its file name.
\<close>

record request =
  Method :: string
  form_error :: "error option"
  form_file :: "error + string \<times> stream"
  query_cid :: string
  form_cid :: string

datatype json = JString string | JNumber nat | JBool bool | JNetwork network

datatype response =
    HttpError nat string
  | Object "(string \<times> json) list"
  | Download string bytes

text \<open>\<open>filepath.Base\<close>\<close>

definition base_name :: "string \<Rightarrow> string" where
  "base_name p =
     (let q = rev (dropWhile (\<lambda>c. c = CHR ''/'') (rev p)) in
      if p = [] then ''.'' else if q = [] then ''/'' else last (split_on (CHR ''/'') q))"

section \<open>The API handlers\<close>

definition api_error :: "nat \<Rightarrow> string \<Rightarrow> 'a res \<times> server \<Rightarrow> ('a \<Rightarrow> response) \<Rightarrow> response res \<times> server" where
  "api_error status msg m ok =
     (case m of
        (Ret x, s) \<Rightarrow> (Ret (ok x), s)
      | (Fail er, s) \<Rightarrow> (Ret (HttpError status msg), s)
      | (Hang, s) \<Rightarrow> (Hang, s)
      | (Panic p, s) \<Rightarrow> (Panic p, s))"

definition handleAPIStore ::
  "env \<Rightarrow> config \<Rightarrow> node_ref option list \<Rightarrow> request \<Rightarrow> server \<Rightarrow> response res \<times> server" where
  "handleAPIStore e c replies r s =
     (if Method r \<noteq> ''POST'' then (Ret (HttpError 405 ''Method not allowed''), s)
      else if form_error r \<noteq> None then (Ret (HttpError 400 ''Error parsing form''), s)
      else
        (case form_file r of
           Inl er \<Rightarrow> (Ret (HttpError 400 ''Error getting file''), s)
         | Inr (filename, file) \<Rightarrow>
             api_error 500 ''Error storing file''
               (if Architecture c = ''chord'' then StoreChord e replies filename file s
                else StoreFileMesh e filename file s)
               (\<lambda>cid. Object [(''cid'', JString cid), (''filename'', JString filename),
                        (''status'', JString ''success'')])))"

definition handleAPIRetrieve ::
  "env \<Rightarrow> config \<Rightarrow> node_ref option list \<Rightarrow> request \<Rightarrow> server \<Rightarrow> response res \<times> server" where
  "handleAPIRetrieve e c replies r s =
     (if Method r \<noteq> ''GET'' then (Ret (HttpError 405 ''Method not allowed''), s)
      else if query_cid r = [] then (Ret (HttpError 400 ''Missing CID parameter''), s)
      else
        api_error 500 ''Error retrieving file''
          (if Architecture c = ''chord'' then GetChord e replies (query_cid r) s
           else Get e (query_cid r) s)
          (\<lambda>(data, filename). Download (base_name filename) data))"

definition handleAPIDelete ::
  "env \<Rightarrow> config \<Rightarrow> node_ref option list \<Rightarrow> request \<Rightarrow> server \<Rightarrow> response res \<times> server" where
  "handleAPIDelete e c replies r s =
     (if Method r \<noteq> ''DELETE'' \<and> Method r \<noteq> ''POST'' then (Ret (HttpError 405 ''Method not allowed''), s)
      else
        (let cid = (if Method r = ''DELETE'' then query_cid r else form_cid r) in
         if cid = [] then (Ret (HttpError 400 ''Missing CID parameter''), s)
         else
           api_error 500 ''Error deleting file''
             (if Architecture c = ''chord'' then DeleteChord e replies cid s else Remove e cid s)
             (\<lambda>_. Object [(''cid'', JString cid), (''status'', JString ''deleted'')])))"

text \<open>The decimal text of a ring position.\<close>

fun decimal :: "nat \<Rightarrow> string" where
  "decimal n =
     (if n < 10 then [''0123456789'' ! n] else decimal (n div 10) @ [''0123456789'' ! (n mod 10)])"

declare decimal.simps [simp del]

definition handleAPIStatus :: "config \<Rightarrow> request \<Rightarrow> server \<Rightarrow> response res \<times> server" where
  "handleAPIStatus c r s =
     (if Method r \<noteq> ''GET'' then (Ret (HttpError 405 ''Method not allowed''), s)
      else
        (let common = [(''split'', JBool (Split (net s))), (''encryption'', JString (EncType (net s)))] in
         if Architecture c = ''chord'' then
           with_node (\<lambda>n.
             case successor n of
               None \<Rightarrow> (Panic ''nil pointer dereference'', s)
             | Some succ \<Rightarrow>
                 (Ret (Object
                   ([(''architecture'', JString ''chord''), (''address'', JString (naddr (self n))),
                     (''id'', JString (decimal (nid (self n)))), (''successor'', JString (naddr succ)),
                     (''predecessor'', JString (case predecessor n of None \<Rightarrow> ''nil'' | Some p \<Rightarrow> naddr p)),
                     (''fileCount'', JNumber (length (responsibles n)))] @ common)), s)) s
         else
           (Ret (Object
             ([(''architecture'', JString ''mesh''), (''address'', JString (saddr s)),
               (''peers'', JNumber (length (peers s))), (''network'', JNetwork (net s))] @ common)), s)))"

section \<open>The routes\<close>

text \<open>\<open>startAPIServer\<close>: the multiplexer knows four paths, any other is not found.\<close>

definition api ::
  "env \<Rightarrow> config \<Rightarrow> node_ref option list \<Rightarrow> string \<Rightarrow> request \<Rightarrow> server \<Rightarrow> response res \<times> server" where
  "api e c replies path r s =
     (if path = ''/api/store'' then handleAPIStore e c replies r s
      else if path = ''/api/retrieve'' then handleAPIRetrieve e c replies r s
      else if path = ''/api/delete'' then handleAPIDelete e c replies r s
      else if path = ''/api/status'' then handleAPIStatus c r s
      else (Ret (HttpError 404 ''404 page not found''), s))"

end
