(* ===== verification/Lookup.thy ===== *)
theory Lookup
  imports Node
begin

text \<open>
  The distributed lookup: \<open>FindSuccessor\<close> decides locally or asks the node it deems closest,
  which runs the same code. On a consistent ring the answer is the owner of the identifier
  and it takes at most one hop per node; the proof of progress is \<open>ring.forward_progress\<close>.
\<close>

section \<open>Lookup over several nodes\<close>

text \<open>
  \<open>lookup hops ring n ident\<close> follows the chain of requests over the nodes of \<open>ring\<close>, with
  \<open>None\<close> when a node cannot be reached or more than \<open>hops\<close> nodes are involved.
\<close>

fun lookup :: "nat \<Rightarrow> (string \<Rightarrow> chord_node option) \<Rightarrow> chord_node \<Rightarrow> nat \<Rightarrow> node_ref option" where
  "lookup 0 ring n ident = None"
| "lookup (Suc hops) ring n ident =
     (case find_step n ident of
        Answer r \<Rightarrow> Some r
      | Ask c \<Rightarrow>
          (case ring (naddr c) of
             None \<Rightarrow> None
           | Some m \<Rightarrow> lookup hops ring m ident))"

text \<open>The specification: the first of the nodes at or after the identifier, going clockwise.\<close>

definition is_owner :: "string list \<Rightarrow> nat \<Rightarrow> string \<Rightarrow> bool" where
  "is_owner addrs ident a \<longleftrightarrow> a \<in> set addrs \<and>
     (\<forall>b \<in> set addrs. cdist ident (hashToNodeID a) \<le> cdist ident (hashToNodeID b))"

text \<open>
  A consistent node of a ring of addresses: its successor is the next address, the first
  finger is the successor, and all fingers are members.
\<close>

definition next_addr :: "string list \<Rightarrow> string \<Rightarrow> string \<Rightarrow> bool" where
  "next_addr addrs a s \<longleftrightarrow> s \<in> set addrs \<and>
     (if s = a then set addrs = {a}
      else (\<forall>b \<in> set addrs. b \<noteq> a \<longrightarrow>
        cdist (hashToNodeID a) (hashToNodeID s) \<le> cdist (hashToNodeID a) (hashToNodeID b)))"

definition consistent_node :: "string list \<Rightarrow> string \<Rightarrow> chord_node \<Rightarrow> bool" where
  "consistent_node addrs a n \<longleftrightarrow>
     self n = ref_of a \<and>
     length (fingers n) = M \<and>
     successor n = fingers n ! 0 \<and>
     (\<exists>s \<in> set addrs. successor n = Some (ref_of s) \<and> next_addr addrs a s) \<and>
     (\<forall>f \<in> set (fingers n). f = None \<or> f \<in> (\<lambda>b. Some (ref_of b)) ` set addrs)"

definition consistent_ring :: "string list \<Rightarrow> (string \<Rightarrow> chord_node option) \<Rightarrow> bool" where
  "consistent_ring addrs ring \<longleftrightarrow>
     inj_on hashToNodeID (set addrs) \<and>
     (\<forall>a \<in> set addrs. case ring a of Some n \<Rightarrow> consistent_node addrs a n | None \<Rightarrow> False)"

section \<open>Arcs and owners\<close>

text \<open>An identifier in the arc from a node to its successor belongs to the successor.\<close>

lemma owner_next:
  assumes next_: "next_addr addrs a s" and "s \<noteq> a" and "a \<in> set addrs"
    and "ident < ringN" and "ident \<noteq> hashToNodeID a"
    and arc: "cdist (hashToNodeID a) ident \<le> cdist (hashToNodeID a) (hashToNodeID s)"
  shows "is_owner addrs ident s"
proof -
  let ?h = hashToNodeID
  have h: "?h x < ringN" for x by (rule hashToNodeID_bound)
  have s: "s \<in> set addrs"
    and min: "\<And>b. b \<in> set addrs \<Longrightarrow> b \<noteq> a \<Longrightarrow> cdist (?h a) (?h s) \<le> cdist (?h a) (?h b)"
    using next_ assms(2) by (auto simp: next_addr_def)
  have eq: "cdist (?h a) (?h b) = cdist (?h a) ident + cdist ident (?h b)"
    if "cdist (?h a) ident \<le> cdist (?h a) (?h b)" for b
    using cdist_triangle [OF h assms(4) h that] .
  have "cdist ident (?h s) \<le> cdist ident (?h b)" if b: "b \<in> set addrs" for b
  proof (cases "b = a")
    case True
    have "cdist (?h a) ident + cdist ident (?h a) = ringN"
      using cdist_around [OF h assms(4)] assms(5) by metis
    moreover have "cdist (?h a) (?h s) < ringN" by (rule cdist_bound [OF h h])
    ultimately show ?thesis unfolding True using eq [OF arc] by linarith
  next
    case False
    then show ?thesis using min [OF b] eq [OF arc] eq [of b] arc by linarith
  qed
  with s show ?thesis by (simp add: is_owner_def)
qed

text \<open>The scan of the finger table stops at a finger inside the arc, if there is one.\<close>

lemma closest_loop_hit:
  assumes "j < i" and "fingers n ! j = Some f" and "isBetween (nid f) (nid (self n)) ident False"
  shows "\<exists>k < i. fingers n ! k = Some (closest_loop n ident i) \<and>
    isBetween (nid (closest_loop n ident i)) (nid (self n)) ident False"
  using assms(1)
proof (induction i)
  case 0
  then show ?case by simp
next
  case (Suc i)
  show ?case
  proof (cases "j = i")
    case True
    then show ?thesis using assms(2,3) by auto
  next
    case False
    then have IH: "\<exists>k < i. fingers n ! k = Some (closest_loop n ident i) \<and>
        isBetween (nid (closest_loop n ident i)) (nid (self n)) ident False"
      using Suc by simp
    have keep: ?thesis if "closest_loop n ident (Suc i) = closest_loop n ident i"
      unfolding that using IH less_SucI by blast
    show ?thesis
    proof (cases "fingers n ! i")
      case None
      show ?thesis by (rule keep) (simp add: None)
    next
      case (Some g)
      show ?thesis
      proof (cases "isBetween (nid g) (nid (self n)) ident False")
        case True
        then show ?thesis using Some by (intro exI [of _ i]) simp
      next
        case False
        show ?thesis by (rule keep) (simp add: Some False)
      qed
    qed
  qed
qed

section \<open>One step on a consistent node\<close>

lemma find_step_consistent:
  assumes c: "consistent_node addrs a n" and a: "a \<in> set addrs" and inj: "inj_on hashToNodeID (set addrs)"
    and ident: "ident < ringN" "ident \<noteq> hashToNodeID a"
  shows "(\<exists>s. find_step n ident = Answer (ref_of s) \<and> is_owner addrs ident s) \<or>
    (\<exists>b \<in> set addrs. find_step n ident = Ask (ref_of b) \<and>
       isBetween (hashToNodeID b) (hashToNodeID a) ident False)"
proof -
  let ?h = hashToNodeID
  have h: "?h x < ringN" for x by (rule hashToNodeID_bound)
  obtain s where s: "s \<in> set addrs" "successor n = Some (ref_of s)" "next_addr addrs a s"
    using c by (auto simp: consistent_node_def)
  have self: "self n = ref_of a" using c by (simp add: consistent_node_def)
  show ?thesis
  proof (cases "s = a")
    case True
    then have "is_owner addrs ident a" using s(3) by (simp add: next_addr_def is_owner_def)
    moreover have "find_step n ident = Answer (ref_of a)"
      using True s(2) self by (simp add: find_step_def)
    ultimately show ?thesis by blast
  next
    case False
    then have ne: "?h a \<noteq> ?h s" using inj a s(1) by (auto dest: inj_onD)
    show ?thesis
    proof (cases "isBetween ident (?h a) (?h s) True")
      case True
      then have "cdist (?h a) ident \<le> cdist (?h a) (?h s)"
        using isBetween_closed [OF ident(1) h h ne] by simp
      from owner_next [OF s(3) False a ident this]
      show ?thesis using True False s(2) self by (auto simp: find_step_def)
    next
      case out: False
      then have "cdist (?h a) (?h s) < cdist (?h a) ident"
        using isBetween_closed [OF ident(1) h h ne] by simp
      moreover have "0 < cdist (?h a) (?h s)" using cdist_eq_0 [OF h h, of a s] ne by simp
      ultimately have "isBetween (?h s) (?h a) ident False"
        using isBetween_open [OF h h ident(1)] by simp
      then obtain k where k: "k < M" "fingers n ! k = Some (closestPrecedingNode n ident)"
        "isBetween (nid (closestPrecedingNode n ident)) (?h a) ident False"
        using closest_loop_hit [of 0 M n "ref_of s" ident] c s(2) self
        by (auto simp: consistent_node_def closestPrecedingNode_def M_def)
      moreover have "fingers n ! k \<in> set (fingers n)" using k(1) c by (simp add: consistent_node_def)
      ultimately obtain b where b: "b \<in> set addrs" "closestPrecedingNode n ident = ref_of b"
        using c by (auto simp: consistent_node_def)
      moreover have "b \<noteq> a" using k(3) b(2) by (auto simp: isBetween_not_lower)
      ultimately have "find_step n ident = Ask (ref_of b)"
        using out False s(2) self by (simp add: find_step_def Let_def)
      then show ?thesis using b k(3) by auto
    qed
  qed
qed

section \<open>The whole lookup\<close>

text \<open>The nodes closer to the identifier than \<open>a\<close>: their number bounds the hops.\<close>

definition closer :: "string list \<Rightarrow> nat \<Rightarrow> string \<Rightarrow> string set" where
  "closer addrs ident a =
     {b \<in> set addrs. cdist (hashToNodeID b) ident < cdist (hashToNodeID a) ident}"

lemma closer_shrinks:
  assumes "b \<in> set addrs" and "ident < ringN" and "isBetween (hashToNodeID b) (hashToNodeID a) ident False"
  shows "card (closer addrs ident b) < card (closer addrs ident a)"
proof (rule psubset_card_mono)
  show "finite (closer addrs ident a)" by (simp add: closer_def)
  have "cdist (hashToNodeID b) ident < cdist (hashToNodeID a) ident"
    using ring.forward_progress(1) [OF hashToNodeID_bound hashToNodeID_bound assms(2,3)] .
  then show "closer addrs ident b \<subset> closer addrs ident a"
    using assms(1) by (auto simp: closer_def)
qed

lemma lookup_owner:
  assumes "consistent_ring addrs ring" and "ident < ringN" and "ident \<noteq> hashToNodeID a"
    and "a \<in> set addrs" and "ring a = Some n" and "card (closer addrs ident a) < hops"
  shows "\<exists>s. lookup hops ring n ident = Some (ref_of s) \<and> is_owner addrs ident s"
  using assms(3-6)
proof (induction hops arbitrary: a n)
  case 0
  then show ?case by simp
next
  case (Suc hops)
  have inj: "inj_on hashToNodeID (set addrs)" using assms(1) by (simp add: consistent_ring_def)
  have node: "consistent_node addrs b m" if "b \<in> set addrs" "ring b = Some m" for b m
    using assms(1) that by (auto simp: consistent_ring_def split: option.splits)
  have some: "\<exists>m. ring b = Some m" if "b \<in> set addrs" for b
    using assms(1) that by (auto simp: consistent_ring_def split: option.splits)
  from find_step_consistent [OF node [OF Suc.prems(2,3)] Suc.prems(2) inj assms(2) Suc.prems(1)]
  show ?case
  proof
    assume "\<exists>s. find_step n ident = Answer (ref_of s) \<and> is_owner addrs ident s"
    then show ?thesis by auto
  next
    assume "\<exists>b \<in> set addrs. find_step n ident = Ask (ref_of b) \<and>
       isBetween (hashToNodeID b) (hashToNodeID a) ident False"
    then obtain b where b: "b \<in> set addrs" "find_step n ident = Ask (ref_of b)"
      "isBetween (hashToNodeID b) (hashToNodeID a) ident False" by blast
    obtain m where m: "ring b = Some m" using some [OF b(1)] by blast
    have "card (closer addrs ident b) < hops"
      using closer_shrinks [OF b(1) assms(2) b(3)] Suc.prems(4) by linarith
    moreover have "ident \<noteq> hashToNodeID b" using b(3) isBetween_not_upper by blast
    ultimately have "\<exists>s. lookup hops ring m ident = Some (ref_of s) \<and> is_owner addrs ident s"
      using Suc.IH b(1) m by blast
    then show ?thesis using b(2) m by simp
  qed
qed

lemma closer_bound:
  assumes "a \<in> set addrs"
  shows "card (closer addrs ident a) < length addrs"
proof -
  have "closer addrs ident a \<subseteq> set addrs - {a}" by (auto simp: closer_def)
  then have "card (closer addrs ident a) \<le> card (set addrs - {a})"
    by (intro card_mono) simp_all
  also have "\<dots> < card (set addrs)" using assms by (intro card_Diff1_less) simp_all
  also have "\<dots> \<le> length addrs" by (rule card_length)
  finally show ?thesis .
qed

lemma consistent_lookups:
  assumes "consistent_ring addrs ring"
  shows "\<forall>a \<in> set addrs. \<forall>k < ringN. k \<noteq> hashToNodeID a \<longrightarrow>
    (\<exists>n s. ring a = Some n \<and> lookup (length addrs) ring n k = Some (ref_of s) \<and> is_owner addrs k s)"
proof (intro ballI allI impI)
  fix a k
  assume a: "a \<in> set addrs" "k < ringN" "k \<noteq> hashToNodeID a"
  then obtain n where n: "ring a = Some n" using assms by (auto simp: consistent_ring_def split: option.splits)
  then show "\<exists>n s. ring a = Some n \<and> lookup (length addrs) ring n k = Some (ref_of s) \<and> is_owner addrs k s"
    using lookup_owner [OF assms a(2,3,1) n closer_bound [OF a(1)]] by blast
qed

lemma lookup_mono:
  "lookup hops ring n ident = Some r \<Longrightarrow> hops \<le> hops' \<Longrightarrow> lookup hops' ring n ident = Some r"
proof (induction hops ring n ident arbitrary: hops' rule: lookup.induct)
  case (1 ring n ident)
  then show ?case by simp
next
  case (2 hops ring n ident)
  obtain k where k: "hops' = Suc k" "hops \<le> k" using "2.prems"(2) by (cases hops') auto
  show ?case
  proof (cases "find_step n ident")
    case (Answer r')
    then show ?thesis using "2.prems"(1) k(1) by simp
  next
    case (Ask c)
    then obtain m where m: "ring (naddr c) = Some m" "lookup hops ring m ident = Some r"
      using "2.prems"(1) by (cases "ring (naddr c)") simp_all
    from "2.IH" [OF Ask m k(2)] show ?thesis using Ask m(1) k(1) by simp
  qed
qed

end
