(* ===== verification/Sha1_Eval.thy ===== *)
theory Sha1_Eval
  imports Ring
begin

text \<open>
  Evaluation of SHA-1 inside the kernel: the compression function over integers, where the
  simplifier computes quickly, proved equal to the one over words. It gives the digests of
  published test vectors, and distinct ring positions for the examples.
\<close>

unbundle bit_operations_syntax

type_synonym int_state = "int \<times> int \<times> int \<times> int \<times> int"

definition rotl_int :: "nat \<Rightarrow> int \<Rightarrow> int" where
  "rotl_int k w = push_bit k w mod 4294967296 OR drop_bit (32 - k) w"

definition choose_int :: "int \<Rightarrow> int \<Rightarrow> int \<Rightarrow> int" where
  "choose_int b c d = (b AND c) OR (NOT b AND d)"

definition parity_int :: "int \<Rightarrow> int \<Rightarrow> int \<Rightarrow> int" where
  "parity_int b c d = b XOR c XOR d"

definition majority_int :: "int \<Rightarrow> int \<Rightarrow> int \<Rightarrow> int" where
  "majority_int b c d = (b AND c) OR (b AND d) OR (c AND d)"

fun phase_int :: "(int \<Rightarrow> int \<Rightarrow> int \<Rightarrow> int) \<Rightarrow> int \<Rightarrow> int list \<Rightarrow> int_state \<Rightarrow> int_state" where
  "phase_int f k [] s = s"
| "phase_int f k (w # ws) (a, b, c, d, e) =
     phase_int f k ws ((rotl_int 5 a + (f b c d + k) + e + w) mod 4294967296, a, rotl_int 30 b, c, d)"

fun schedule_int :: "nat \<Rightarrow> int list \<Rightarrow> int list" where
  "schedule_int 0 ws = ws"
| "schedule_int (Suc n) ws =
     schedule_int n (rotl_int 1 (ws ! 2 XOR ws ! 7 XOR ws ! 13 XOR ws ! 15) # ws)"

fun add_state_int :: "int_state \<Rightarrow> int_state \<Rightarrow> int_state" where
  "add_state_int (a, b, c, d, e) (a', b', c', d', e') =
     ((a + a') mod 4294967296, (b + b') mod 4294967296, (c + c') mod 4294967296,
      (d + d') mod 4294967296, (e + e') mod 4294967296)"

definition compress_int :: "int list \<Rightarrow> int_state \<Rightarrow> int_state" where
  "compress_int ws s =
     phase_int parity_int 0xCA62C1D6 (drop 60 ws)
       (phase_int majority_int 0x8F1BBCDC (take 20 (drop 40 ws))
         (phase_int parity_int 0x6ED9EBA1 (take 20 (drop 20 ws))
           (phase_int choose_int 0x5A827999 (take 20 ws) s)))"

definition block_int :: "int_state \<Rightarrow> int list \<Rightarrow> int_state" where
  "block_int s ws = add_state_int s (compress_int (rev (schedule_int 64 (rev ws))) s)"

fun state_int :: "sha_state \<Rightarrow> int_state" where
  "state_int (a, b, c, d, e) = (uint a, uint b, uint c, uint d, uint e)"

section \<open>Agreement with the words\<close>

lemma uint_mod [simp]: "uint (w :: u32) mod 4294967296 = uint w"
  using uint_lt2p [of w] by (simp add: mod_pos_pos_trivial)

lemma uint_rotl: "uint (rotl k w) = rotl_int k (uint w)"
  by (simp add: rotl_def rotl_int_def unsigned_or_eq unsigned_push_bit_eq unsigned_drop_bit_eq
      take_bit_eq_mod)

lemma uint_schedule:
  assumes "16 \<le> length ws"
  shows "map uint (schedule n ws) = schedule_int n (map uint ws)"
  using assms
proof (induction n arbitrary: ws)
  case 0
  then show ?case by simp
next
  case (Suc n)
  have "map uint (rotl 1 (ws ! 2 XOR ws ! 7 XOR ws ! 13 XOR ws ! 15) # ws) =
      rotl_int 1 (map uint ws ! 2 XOR map uint ws ! 7 XOR map uint ws ! 13 XOR map uint ws ! 15) # map uint ws"
    using Suc.prems by (simp add: uint_rotl unsigned_xor_eq)
  then show ?case
    using Suc.IH [of "rotl 1 (ws ! 2 XOR ws ! 7 XOR ws ! 13 XOR ws ! 15) # ws"] Suc.prems by simp
qed

definition agrees :: "nat \<Rightarrow> nat \<Rightarrow> (int \<Rightarrow> int \<Rightarrow> int \<Rightarrow> int) \<Rightarrow> int \<Rightarrow> bool" where
  "agrees lo hi f k \<longleftrightarrow>
     (\<forall>t b c d. lo \<le> t \<and> t < hi \<longrightarrow>
        uint (sha1_fk t b c d) = (f (uint b) (uint c) (uint d) + k) mod 4294967296)"

lemma uint_NOT_AND: "(NOT (uint b) AND uint d) = uint (NOT b AND (d :: u32))"
proof -
  have d: "take_bit 32 (uint d) = uint d" by (simp add: take_bit_eq_mod)
  have "uint (NOT b AND d) = take_bit 32 (NOT (uint b)) AND take_bit 32 (uint d)"
    by (simp add: unsigned_and_eq unsigned_not_eq d)
  also have "\<dots> = NOT (uint b) AND take_bit 32 (uint d)"
    by (rule bit_eqI) (auto simp: bit_simps)
  finally show ?thesis by (simp only: d)
qed

lemma agrees_phases:
  "agrees 0 20 choose_int 0x5A827999"
  "agrees 20 40 parity_int 0x6ED9EBA1"
  "agrees 40 60 majority_int 0x8F1BBCDC"
  "agrees 60 80 parity_int 0xCA62C1D6"
  by (simp_all add: agrees_def choose_int_def parity_int_def majority_int_def uint_word_ariths
      unsigned_and_eq unsigned_or_eq unsigned_xor_eq uint_NOT_AND)

lemma uint_phase:
  assumes "agrees lo hi f k" and "lo \<le> t" and "t + length ws \<le> hi"
  shows "state_int (sha1_rounds t ws s) = phase_int f k (map uint ws) (state_int s)"
  using assms(2,3)
proof (induction t ws s rule: sha1_rounds.induct)
  case (1 t s)
  then show ?case by simp
next
  case (2 t w ws a b c d e)
  have "uint (sha1_fk t b c d) = (f (uint b) (uint c) (uint d) + k) mod 4294967296"
    using assms(1) "2.prems" by (simp add: agrees_def del: sha1_fk.simps)
  then have "uint (rotl 5 a + sha1_fk t b c d + e + w) =
      (rotl_int 5 (uint a) + (f (uint b) (uint c) (uint d) + k) + uint e + uint w) mod 4294967296"
    by (simp add: uint_word_ariths uint_rotl mod_simps del: sha1_fk.simps)
  then show ?case
    using "2.IH" "2.prems" by (simp add: uint_rotl del: sha1_fk.simps)
qed

lemma rounds_append:
  "sha1_rounds t (us @ ws) s = sha1_rounds (t + length us) ws (sha1_rounds t us s)"
  by (induction t us s rule: sha1_rounds.induct) simp_all

lemma length_schedule [simp]: "length (schedule n ws) = n + length ws"
  by (induction n ws rule: schedule.induct) simp_all

lemma uint_rounds:
  assumes "length ws = 80"
  shows "state_int (sha1_rounds 0 ws s) = compress_int (map uint ws) (state_int s)"
proof -
  let ?a = "take 20 ws" and ?b = "take 20 (drop 20 ws)" and ?c = "take 20 (drop 40 ws)" and ?d = "drop 60 ws"
  have "drop 40 ws = ?c @ ?d" using append_take_drop_id [of 20 "drop 40 ws"] by simp
  moreover have "drop 20 ws = ?b @ drop 40 ws" using append_take_drop_id [of 20 "drop 20 ws"] by simp
  moreover have "ws = ?a @ drop 20 ws" by simp
  ultimately have "ws = ?a @ ?b @ ?c @ ?d" by metis
  then have "sha1_rounds 0 ws s =
      sha1_rounds 60 ?d (sha1_rounds 40 ?c (sha1_rounds 20 ?b (sha1_rounds 0 ?a s)))"
    using assms rounds_append [of 0 ?a "?b @ ?c @ ?d" s]
      rounds_append [of 20 ?b "?c @ ?d"] rounds_append [of 40 ?c ?d] by simp
  then show ?thesis
    using assms by (simp add: compress_int_def uint_phase [OF agrees_phases(1)]
        uint_phase [OF agrees_phases(2)] uint_phase [OF agrees_phases(3)]
        uint_phase [OF agrees_phases(4)] take_map drop_map)
qed

lemma state_int_add:
  "state_int (case r of (a', b', c', d', e') \<Rightarrow> (a + a', b + b', c + c', d + d', e + e')) =
    add_state_int (state_int (a, b, c, d, e)) (state_int r)"
  by (cases r) (simp add: uint_word_ariths)

lemma uint_block:
  assumes "length ws = 16"
  shows "state_int (sha1_block s ws) = block_int (state_int s) (map uint ws)"
proof -
  obtain a b c d e where s: "s = (a, b, c, d, e)" by (cases s)
  let ?ws = "rev (schedule 64 (rev ws))"
  have "state_int (sha1_rounds 0 ?ws s) = compress_int (map uint ?ws) (state_int s)"
    using assms by (intro uint_rounds) simp
  moreover have "map uint ?ws = rev (schedule_int 64 (rev (map uint ws)))"
    using uint_schedule [of "rev ws" 64] assms by (simp add: rev_map [symmetric])
  ultimately show ?thesis
    unfolding s block_int_def sha1_block.simps state_int_add by simp
qed

section \<open>Positions of short addresses\<close>

lemma schedule_int_add: "schedule_int (m + n) ws = schedule_int n (schedule_int m ws)"
  by (induction m ws rule: schedule_int.induct) simp_all

lemma schedule_64: "schedule_int 64 ws =
    schedule_int 16 (schedule_int 16 (schedule_int 16 (schedule_int 16 ws)))"
  using schedule_int_add [of 16 48 ws] schedule_int_add [of 16 32] schedule_int_add [of 16 16] by simp

definition number_of :: "int_state \<Rightarrow> nat" where
  "number_of s = (case s of (a, b, c, d, e) \<Rightarrow>
     nat ((((a * 4294967296 + b) * 4294967296 + c) * 4294967296 + d) * 4294967296 + e))"

lemma set_bytes_append: "set_bytes (xs @ ys) = set_bytes xs * 256 ^ length ys + set_bytes ys"
  by (induction ys rule: rev_induct) (simp_all add: append_assoc [symmetric] algebra_simps del: append_assoc)

lemma set_bytes_word: "set_bytes (word_bytes w) = unat w"
proof -
  let ?n = "unat w"
  have n: "?n < 4294967296" using unsigned_less [of w] by simp
  have q: "?n div 65536 = ?n div 256 div 256" "?n div 16777216 = ?n div 256 div 256 div 256"
    by (simp_all only: div_mult2_eq [symmetric]) simp_all
  have top: "?n div 16777216 mod 256 = ?n div 16777216"
    using n by simp
  then have "256 * (256 * (256 * (?n div 16777216 mod 256) + ?n div 65536 mod 256) + ?n div 256 mod 256)
      + ?n mod 256 = ?n"
    unfolding q by (simp only: mult_div_mod_eq)
  then show ?thesis using top
    by (simp add: set_bytes_def unsigned_ucast_eq unsigned_drop_bit_eq drop_bit_eq_div take_bit_eq_mod unat_div)
qed

lemma length_word_bytes [simp]: "length (word_bytes w) = 4"
  by simp

lemma rev_sixteen: "rev [a, b, c, d, e, f, g, h, i, j, k, l, m, n, p, q] = [q, p, n, m, l, k, j, i, h, g, f, e, d, c, b, a]"
  by simp

lemma state_int_init: "state_int sha1_init = (1732584193, 4023233417, 2562383102, 271733878, 3285377520)"
  by (simp add: sha1_init_def)

lemma block_int_phases:
  assumes "rev (schedule_int 64 (rev ws)) = a @ b @ c @ d" and "length a = 20" "length b = 20" "length c = 20"
  shows "block_int s ws = add_state_int s (phase_int parity_int 0xCA62C1D6 d
     (phase_int majority_int 0x8F1BBCDC c (phase_int parity_int 0x6ED9EBA1 b (phase_int choose_int 0x5A827999 a s))))"
  using assms(2-4) by (simp add: block_int_def compress_int_def assms(1))

lemma set_bytes_digest: "set_bytes (sha1_digest s) = number_of (state_int s)"
proof -
  obtain a b c d e where s: "s = (a, b, c, d, e)" by (cases s)
  show ?thesis
    by (simp add: s number_of_def set_bytes_append set_bytes_word nat_add_distrib nat_mult_distrib
        del: word_bytes.simps)
qed

lemma position_one_block:
  assumes "map uint (words_of (bytes_of s @ sha1_padding (length s))) = ws" and "length ws = 16"
    and "block_int (state_int sha1_init) ws = r"
  shows "hashToNodeID s = number_of r"
proof -
  let ?m = "words_of (bytes_of s @ sha1_padding (length s))"
  have l: "length ?m = 16" using assms(1,2) by (metis length_map)
  then have "sha1_blocks sha1_init ?m = sha1_block sha1_init ?m"
    by (subst sha1_blocks.simps) (simp add: sha1_blocks.simps)
  then show ?thesis using uint_block [OF l, of sha1_init] assms(1,3)
    by (simp add: hashToNodeID_def sha1_def set_bytes_digest)
qed
lemma replicate_pred: "replicate (numeral k) x = x # replicate (pred_numeral k) x"
  by (simp add: numeral_eq_Suc)

lemma be_bytes_eight: "be_bytes 8 n =
    [of_nat (n div 256 div 256 div 256 div 256 div 256 div 256 div 256),
     of_nat (n div 256 div 256 div 256 div 256 div 256 div 256),
     of_nat (n div 256 div 256 div 256 div 256 div 256),
     of_nat (n div 256 div 256 div 256 div 256),
     of_nat (n div 256 div 256 div 256),
     of_nat (n div 256 div 256),
     of_nat (n div 256),
     of_nat (n)]"
proof -
  have eq: "(8::nat) = Suc (Suc (Suc (Suc (Suc (Suc (Suc (Suc 0)))))))" by simp
  show ?thesis unfolding eq by simp
qed

end
