(* ===== verification/Addresses.thy ===== *)
theory Addresses
  imports Sha1_Eval
begin

text \<open>
  Three addresses and their positions on the ring, computed by \<open>Sha1_Eval\<close>: concrete nodes
  for the examples. The numbers are the intermediate states of SHA-1 on each address.
\<close>

section \<open>Port 3000\<close>

definition addr3000 :: string where
  "addr3000 = ''127.0.0.1:3000''"

lemma addr3000_bytes: "bytes_of addr3000 = [49, 50, 55, 46, 48, 46, 48, 46, 49, 58, 51, 48, 48, 48]"
  by (simp add: addr3000_def bytes_of_def)

lemma addr3000_padding: "sha1_padding (length addr3000) =
    [128, 0, 0, 0, 0, 0, 0, 0, 0, 0, 0, 0, 0, 0, 0, 0, 0, 0, 0, 0, 0, 0, 0, 0, 0, 0, 0, 0, 0, 0,
       0, 0, 0, 0, 0, 0, 0, 0, 0, 0, 0, 0, 0, 0, 0, 0, 0, 0, 0, 112]"
  by (simp add: addr3000_def sha1_padding_def be_bytes_eight replicate_pred)

lemma addr3000_words: "map uint (words_of (bytes_of addr3000 @ sha1_padding (length addr3000))) =
    [825374510, 808333358, 825897776, 808484864, 0, 0, 0, 0, 0, 0, 0, 0, 0, 0, 0, 112]"
  by (simp only: addr3000_bytes addr3000_padding append.simps words_of.simps) simp

lemma addr3000_schedule0: "schedule_int 16
     [112, 0, 0, 0, 0, 0, 0, 0, 0, 0, 0, 0, 808484864, 825897776, 808333358, 825374510] =
     [92325118, 669399454, 64358048, 34112451, 3546362883, 3305360928, 2172551513, 2314308217,
       16089488, 3229753584, 3303591168, 8044728, 1614876792, 1651795584, 4022364, 1050684, 112,
       0, 0, 0, 0, 0, 0, 0, 0, 0, 0, 0, 808484864, 825897776, 808333358, 825374510]"
  by (simp add: eval_nat_numeral rotl_int_def)

lemma addr3000_schedule1: "schedule_int 16
     [92325118, 669399454, 64358048, 34112451, 3546362883, 3305360928, 2172551513, 2314308217,
       16089488, 3229753584, 3303591168, 8044728, 1614876792, 1651795584, 4022364, 1050684, 112,
       0, 0, 0, 0, 0, 0, 0, 0, 0, 0, 0, 808484864, 825897776, 808333358, 825374510] =
     [1762324565, 3638839093, 3698105992, 138177613, 1527008803, 1841343201, 1065576675,
       866864851, 888160606, 1075286252, 94382075, 2658395288, 1319000929, 1159420365, 2378797511,
       3498558667, 92325118, 669399454, 64358048, 34112451, 3546362883, 3305360928, 2172551513,
       2314308217, 16089488, 3229753584, 3303591168, 8044728, 1614876792, 1651795584, 4022364,
       1050684, 112, 0, 0, 0, 0, 0, 0, 0, 0, 0, 0, 0, 808484864, 825897776, 808333358, 825374510]"
  by (simp add: eval_nat_numeral rotl_int_def)

lemma addr3000_schedule2: "schedule_int 16
     [1762324565, 3638839093, 3698105992, 138177613, 1527008803, 1841343201, 1065576675,
       866864851, 888160606, 1075286252, 94382075, 2658395288, 1319000929, 1159420365, 2378797511,
       3498558667, 92325118, 669399454, 64358048, 34112451, 3546362883, 3305360928, 2172551513,
       2314308217, 16089488, 3229753584, 3303591168, 8044728, 1614876792, 1651795584, 4022364,
       1050684, 112, 0, 0, 0, 0, 0, 0, 0, 0, 0, 0, 0, 808484864, 825897776, 808333358, 825374510]
       =
     [3413790463, 2568755002, 3114255719, 2026038652, 2757706760, 3445351346, 3502963829,
       475931304, 3155490998, 3296956954, 2767351772, 1014212019, 3373879303, 3209023427,
       1214368480, 4105607866, 1762324565, 3638839093, 3698105992, 138177613, 1527008803,
       1841343201, 1065576675, 866864851, 888160606, 1075286252, 94382075, 2658395288, 1319000929,
       1159420365, 2378797511, 3498558667, 92325118, 669399454, 64358048, 34112451, 3546362883,
       3305360928, 2172551513, 2314308217, 16089488, 3229753584, 3303591168, 8044728, 1614876792,
       1651795584, 4022364, 1050684, 112, 0, 0, 0, 0, 0, 0, 0, 0, 0, 0, 0, 808484864, 825897776,
       808333358, 825374510]"
  by (simp add: eval_nat_numeral rotl_int_def)

lemma addr3000_schedule3: "schedule_int 16
     [3413790463, 2568755002, 3114255719, 2026038652, 2757706760, 3445351346, 3502963829,
       475931304, 3155490998, 3296956954, 2767351772, 1014212019, 3373879303, 3209023427,
       1214368480, 4105607866, 1762324565, 3638839093, 3698105992, 138177613, 1527008803,
       1841343201, 1065576675, 866864851, 888160606, 1075286252, 94382075, 2658395288, 1319000929,
       1159420365, 2378797511, 3498558667, 92325118, 669399454, 64358048, 34112451, 3546362883,
       3305360928, 2172551513, 2314308217, 16089488, 3229753584, 3303591168, 8044728, 1614876792,
       1651795584, 4022364, 1050684, 112, 0, 0, 0, 0, 0, 0, 0, 0, 0, 0, 0, 808484864, 825897776,
       808333358, 825374510] =
     [634702996, 614374369, 2643135896, 1111267725, 66128463, 1787671993, 1646058888, 3080337716,
       183521897, 3569825256, 1454225645, 584868616, 732052860, 170888827, 2438783825, 3697632621,
       3413790463, 2568755002, 3114255719, 2026038652, 2757706760, 3445351346, 3502963829,
       475931304, 3155490998, 3296956954, 2767351772, 1014212019, 3373879303, 3209023427,
       1214368480, 4105607866, 1762324565, 3638839093, 3698105992, 138177613, 1527008803,
       1841343201, 1065576675, 866864851, 888160606, 1075286252, 94382075, 2658395288, 1319000929,
       1159420365, 2378797511, 3498558667, 92325118, 669399454, 64358048, 34112451, 3546362883,
       3305360928, 2172551513, 2314308217, 16089488, 3229753584, 3303591168, 8044728, 1614876792,
       1651795584, 4022364, 1050684, 112, 0, 0, 0, 0, 0, 0, 0, 0, 0, 0, 0, 808484864, 825897776,
       808333358, 825374510]"
  by (simp add: eval_nat_numeral rotl_int_def)

lemma addr3000_phase0: "phase_int choose_int 0x5A827999
     [825374510, 808333358, 825897776, 808484864, 0, 0, 0, 0, 0, 0, 0, 0, 0, 0, 0, 112, 1050684,
       4022364, 1651795584, 1614876792]
     (1732584193, 4023233417, 2562383102, 271733878, 3285377520) = (1806431262, 654237650,
       298065883, 250729447, 3576426613)"
  by (simp add: rotl_int_def choose_int_def parity_int_def majority_int_def)

lemma addr3000_phase1: "phase_int parity_int 0x6ED9EBA1
     [8044728, 3303591168, 3229753584, 16089488, 2314308217, 2172551513, 3305360928, 3546362883,
       34112451, 64358048, 669399454, 92325118, 3498558667, 2378797511, 1159420365, 1319000929,
       2658395288, 94382075, 1075286252, 888160606]
     (1806431262, 654237650, 298065883, 250729447, 3576426613) = (376776570, 3609627554,
       3497798533, 2925642766, 712591043)"
  by (simp add: rotl_int_def choose_int_def parity_int_def majority_int_def)

lemma addr3000_phase2: "phase_int majority_int 0x8F1BBCDC
     [866864851, 1065576675, 1841343201, 1527008803, 138177613, 3698105992, 3638839093,
       1762324565, 4105607866, 1214368480, 3209023427, 3373879303, 1014212019, 2767351772,
       3296956954, 3155490998, 475931304, 3502963829, 3445351346, 2757706760]
     (376776570, 3609627554, 3497798533, 2925642766, 712591043) = (1300744341, 2563813407,
       2291480430, 634053793, 27470734)"
  by (simp add: rotl_int_def choose_int_def parity_int_def majority_int_def)

lemma addr3000_phase3: "phase_int parity_int 0xCA62C1D6
     [2026038652, 3114255719, 2568755002, 3413790463, 3697632621, 2438783825, 170888827,
       732052860, 584868616, 1454225645, 3569825256, 183521897, 3080337716, 1646058888,
       1787671993, 66128463, 1111267725, 2643135896, 614374369, 634702996]
     (1300744341, 2563813407, 2291480430, 634053793, 27470734) = (773180766, 1097007315,
       3621408054, 2574785686, 3689717563)"
  by (simp add: rotl_int_def choose_int_def parity_int_def majority_int_def)

lemma addr3000_block: "block_int (state_int sha1_init)
     [825374510, 808333358, 825897776, 808484864, 0, 0, 0, 0, 0, 0, 0, 0, 0, 0, 0, 112] =
     (2505764959, 825273436, 1888823860, 2846519564, 2680127787)"
proof -
  have s: "rev (schedule_int 64 (rev [825374510, 808333358, 825897776, 808484864, 0, 0, 0, 0, 0,
       0, 0, 0, 0, 0, 0, 112])) =
      [825374510, 808333358, 825897776, 808484864, 0, 0, 0, 0, 0, 0, 0, 0, 0, 0, 0, 112, 1050684,
       4022364, 1651795584, 1614876792] @
      [8044728, 3303591168, 3229753584, 16089488, 2314308217, 2172551513, 3305360928, 3546362883,
       34112451, 64358048, 669399454, 92325118, 3498558667, 2378797511, 1159420365, 1319000929,
       2658395288, 94382075, 1075286252, 888160606] @
      [866864851, 1065576675, 1841343201, 1527008803, 138177613, 3698105992, 3638839093,
       1762324565, 4105607866, 1214368480, 3209023427, 3373879303, 1014212019, 2767351772,
       3296956954, 3155490998, 475931304, 3502963829, 3445351346, 2757706760] @
      [2026038652, 3114255719, 2568755002, 3413790463, 3697632621, 2438783825, 170888827,
       732052860, 584868616, 1454225645, 3569825256, 183521897, 3080337716, 1646058888,
       1787671993, 66128463, 1111267725, 2643135896, 614374369, 634702996]"
    by (simp only: rev_sixteen schedule_64 addr3000_schedule0 addr3000_schedule1
       addr3000_schedule2 addr3000_schedule3) simp
  show ?thesis
    by (subst block_int_phases [OF s])
      (simp_all only: state_int_init addr3000_phase0 addr3000_phase1 addr3000_phase2
       addr3000_phase3, simp_all)
qed

lemma addr3000_position: "hashToNodeID addr3000 = 852667631261453223082781850448955663227037909291"
  by (subst position_one_block [OF addr3000_words _ addr3000_block]) (simp_all add: number_of_def)

section \<open>Port 4000\<close>

definition addr4000 :: string where
  "addr4000 = ''127.0.0.1:4000''"

lemma addr4000_bytes: "bytes_of addr4000 = [49, 50, 55, 46, 48, 46, 48, 46, 49, 58, 52, 48, 48, 48]"
  by (simp add: addr4000_def bytes_of_def)

lemma addr4000_padding: "sha1_padding (length addr4000) =
    [128, 0, 0, 0, 0, 0, 0, 0, 0, 0, 0, 0, 0, 0, 0, 0, 0, 0, 0, 0, 0, 0, 0, 0, 0, 0, 0, 0, 0, 0,
       0, 0, 0, 0, 0, 0, 0, 0, 0, 0, 0, 0, 0, 0, 0, 0, 0, 0, 0, 112]"
  by (simp add: addr4000_def sha1_padding_def be_bytes_eight replicate_pred)

lemma addr4000_words: "map uint (words_of (bytes_of addr4000 @ sha1_padding (length addr4000))) =
    [825374510, 808333358, 825898032, 808484864, 0, 0, 0, 0, 0, 0, 0, 0, 0, 0, 0, 112]"
  by (simp only: addr4000_bytes addr4000_padding append.simps words_of.simps) simp

lemma addr4000_schedule0: "schedule_int 16
     [112, 0, 0, 0, 0, 0, 0, 0, 0, 0, 0, 0, 808484864, 825898032, 808333358, 825374510] =
     [92341502, 669431198, 64358048, 34104259, 3546366979, 3305361952, 2172580185, 2314317433,
       16089488, 3229751536, 3303592192, 8044728, 1614875768, 1651796096, 4022364, 1050172, 112,
       0, 0, 0, 0, 0, 0, 0, 0, 0, 0, 0, 808484864, 825898032, 808333358, 825374510]"
  by (simp add: eval_nat_numeral rotl_int_def)

lemma addr4000_schedule1: "schedule_int 16
     [92341502, 669431198, 64358048, 34104259, 3546366979, 3305361952, 2172580185, 2314317433,
       16089488, 3229751536, 3303592192, 8044728, 1614875768, 1651796096, 4022364, 1050172, 112,
       0, 0, 0, 0, 0, 0, 0, 0, 0, 0, 0, 808484864, 825898032, 808333358, 825374510] =
     [1762492501, 3638447925, 3698368136, 137942093, 1528319523, 1841830625, 1065576675,
       866471635, 888619358, 1075204332, 94853115, 2658260120, 1318988641, 1159265741, 2378715591,
       3498544331, 92341502, 669431198, 64358048, 34104259, 3546366979, 3305361952, 2172580185,
       2314317433, 16089488, 3229751536, 3303592192, 8044728, 1614875768, 1651796096, 4022364,
       1050172, 112, 0, 0, 0, 0, 0, 0, 0, 0, 0, 0, 0, 808484864, 825898032, 808333358, 825374510]"
  by (simp add: eval_nat_numeral rotl_int_def)

lemma addr4000_schedule2: "schedule_int 16
     [1762492501, 3638447925, 3698368136, 137942093, 1528319523, 1841830625, 1065576675,
       866471635, 888619358, 1075204332, 94853115, 2658260120, 1318988641, 1159265741, 2378715591,
       3498544331, 92341502, 669431198, 64358048, 34104259, 3546366979, 3305361952, 2172580185,
       2314317433, 16089488, 3229751536, 3303592192, 8044728, 1614875768, 1651796096, 4022364,
       1050172, 112, 0, 0, 0, 0, 0, 0, 0, 0, 0, 0, 0, 808484864, 825898032, 808333358, 825374510]
       =
     [3430764287, 2564708154, 3202925927, 2062640508, 2754561032, 3472532402, 3507354741,
       471306920, 3184851126, 3289080346, 2767445980, 1016321459, 3379093511, 3210307523,
       1209449184, 4103422650, 1762492501, 3638447925, 3698368136, 137942093, 1528319523,
       1841830625, 1065576675, 866471635, 888619358, 1075204332, 94853115, 2658260120, 1318988641,
       1159265741, 2378715591, 3498544331, 92341502, 669431198, 64358048, 34104259, 3546366979,
       3305361952, 2172580185, 2314317433, 16089488, 3229751536, 3303592192, 8044728, 1614875768,
       1651796096, 4022364, 1050172, 112, 0, 0, 0, 0, 0, 0, 0, 0, 0, 0, 0, 808484864, 825898032,
       808333358, 825374510]"
  by (simp add: eval_nat_numeral rotl_int_def)

lemma addr4000_schedule3: "schedule_int 16
     [3430764287, 2564708154, 3202925927, 2062640508, 2754561032, 3472532402, 3507354741,
       471306920, 3184851126, 3289080346, 2767445980, 1016321459, 3379093511, 3210307523,
       1209449184, 4103422650, 1762492501, 3638447925, 3698368136, 137942093, 1528319523,
       1841830625, 1065576675, 866471635, 888619358, 1075204332, 94853115, 2658260120, 1318988641,
       1159265741, 2378715591, 3498544331, 92341502, 669431198, 64358048, 34104259, 3546366979,
       3305361952, 2172580185, 2314317433, 16089488, 3229751536, 3303592192, 8044728, 1614875768,
       1651796096, 4022364, 1050172, 112, 0, 0, 0, 0, 0, 0, 0, 0, 0, 0, 0, 808484864, 825898032,
       808333358, 825374510] =
     [3855862933, 2892930017, 2621099416, 2723092877, 1916848719, 1981961657, 359456136,
       2487408948, 226513513, 4006557160, 1252702445, 644113160, 933576060, 43695739, 2438718289,
       3529958765, 3430764287, 2564708154, 3202925927, 2062640508, 2754561032, 3472532402,
       3507354741, 471306920, 3184851126, 3289080346, 2767445980, 1016321459, 3379093511,
       3210307523, 1209449184, 4103422650, 1762492501, 3638447925, 3698368136, 137942093,
       1528319523, 1841830625, 1065576675, 866471635, 888619358, 1075204332, 94853115, 2658260120,
       1318988641, 1159265741, 2378715591, 3498544331, 92341502, 669431198, 64358048, 34104259,
       3546366979, 3305361952, 2172580185, 2314317433, 16089488, 3229751536, 3303592192, 8044728,
       1614875768, 1651796096, 4022364, 1050172, 112, 0, 0, 0, 0, 0, 0, 0, 0, 0, 0, 0, 808484864,
       825898032, 808333358, 825374510]"
  by (simp add: eval_nat_numeral rotl_int_def)

lemma addr4000_phase0: "phase_int choose_int 0x5A827999
     [825374510, 808333358, 825898032, 808484864, 0, 0, 0, 0, 0, 0, 0, 0, 0, 0, 0, 112, 1050172,
       4022364, 1651796096, 1614875768]
     (1732584193, 4023233417, 2562383102, 271733878, 3285377520) = (619840599, 3775820702,
       553807331, 149179048, 3666886698)"
  by (simp add: rotl_int_def choose_int_def parity_int_def majority_int_def)

lemma addr4000_phase1: "phase_int parity_int 0x6ED9EBA1
     [8044728, 3303592192, 3229751536, 16089488, 2314317433, 2172580185, 3305361952, 3546366979,
       34104259, 64358048, 669431198, 92341502, 3498544331, 2378715591, 1159265741, 1318988641,
       2658260120, 94853115, 1075204332, 888619358]
     (619840599, 3775820702, 553807331, 149179048, 3666886698) = (2042918317, 382629416,
       4027617313, 2610805107, 2633697588)"
  by (simp add: rotl_int_def choose_int_def parity_int_def majority_int_def)

lemma addr4000_phase2: "phase_int majority_int 0x8F1BBCDC
     [866471635, 1065576675, 1841830625, 1528319523, 137942093, 3698368136, 3638447925,
       1762492501, 4103422650, 1209449184, 3210307523, 3379093511, 1016321459, 2767445980,
       3289080346, 3184851126, 471306920, 3507354741, 3472532402, 2754561032]
     (2042918317, 382629416, 4027617313, 2610805107, 2633697588) = (2381500718, 3010672251,
       2733624337, 2833408007, 3103610124)"
  by (simp add: rotl_int_def choose_int_def parity_int_def majority_int_def)

lemma addr4000_phase3: "phase_int parity_int 0xCA62C1D6
     [2062640508, 3202925927, 2564708154, 3430764287, 3529958765, 2438718289, 43695739, 933576060,
       644113160, 1252702445, 4006557160, 226513513, 2487408948, 359456136, 1981961657,
       1916848719, 2723092877, 2621099416, 2892930017, 3855862933]
     (2381500718, 3010672251, 2733624337, 2833408007, 3103610124) = (1672722103, 1857158680,
       2349885389, 410713619, 919692408)"
  by (simp add: rotl_int_def choose_int_def parity_int_def majority_int_def)

lemma addr4000_block: "block_int (state_int sha1_init)
     [825374510, 808333358, 825898032, 808484864, 0, 0, 0, 0, 0, 0, 0, 0, 0, 0, 0, 112] =
     (3405306296, 1585424801, 617301195, 682447497, 4205069928)"
proof -
  have s: "rev (schedule_int 64 (rev [825374510, 808333358, 825898032, 808484864, 0, 0, 0, 0, 0,
       0, 0, 0, 0, 0, 0, 112])) =
      [825374510, 808333358, 825898032, 808484864, 0, 0, 0, 0, 0, 0, 0, 0, 0, 0, 0, 112, 1050172,
       4022364, 1651796096, 1614875768] @
      [8044728, 3303592192, 3229751536, 16089488, 2314317433, 2172580185, 3305361952, 3546366979,
       34104259, 64358048, 669431198, 92341502, 3498544331, 2378715591, 1159265741, 1318988641,
       2658260120, 94853115, 1075204332, 888619358] @
      [866471635, 1065576675, 1841830625, 1528319523, 137942093, 3698368136, 3638447925,
       1762492501, 4103422650, 1209449184, 3210307523, 3379093511, 1016321459, 2767445980,
       3289080346, 3184851126, 471306920, 3507354741, 3472532402, 2754561032] @
      [2062640508, 3202925927, 2564708154, 3430764287, 3529958765, 2438718289, 43695739,
       933576060, 644113160, 1252702445, 4006557160, 226513513, 2487408948, 359456136, 1981961657,
       1916848719, 2723092877, 2621099416, 2892930017, 3855862933]"
    by (simp only: rev_sixteen schedule_64 addr4000_schedule0 addr4000_schedule1
       addr4000_schedule2 addr4000_schedule3) simp
  show ?thesis
    by (subst block_int_phases [OF s])
      (simp_all only: state_int_init addr4000_phase0 addr4000_phase1 addr4000_phase2
       addr4000_phase3, simp_all)
qed

lemma addr4000_position: "hashToNodeID addr4000 = 1158765686619264177659555910348061081210510919272"
  by (subst position_one_block [OF addr4000_words _ addr4000_block]) (simp_all add: number_of_def)

section \<open>Port 5000\<close>

definition addr5000 :: string where
  "addr5000 = ''127.0.0.1:5000''"

lemma addr5000_bytes: "bytes_of addr5000 = [49, 50, 55, 46, 48, 46, 48, 46, 49, 58, 53, 48, 48, 48]"
  by (simp add: addr5000_def bytes_of_def)

lemma addr5000_padding: "sha1_padding (length addr5000) =
    [128, 0, 0, 0, 0, 0, 0, 0, 0, 0, 0, 0, 0, 0, 0, 0, 0, 0, 0, 0, 0, 0, 0, 0, 0, 0, 0, 0, 0, 0,
       0, 0, 0, 0, 0, 0, 0, 0, 0, 0, 0, 0, 0, 0, 0, 0, 0, 0, 0, 112]"
  by (simp add: addr5000_def sha1_padding_def be_bytes_eight replicate_pred)

lemma addr5000_words: "map uint (words_of (bytes_of addr5000 @ sha1_padding (length addr5000))) =
    [825374510, 808333358, 825898288, 808484864, 0, 0, 0, 0, 0, 0, 0, 0, 0, 0, 0, 112]"
  by (simp only: addr5000_bytes addr5000_padding append.simps words_of.simps) simp

lemma addr5000_schedule0: "schedule_int 16
     [112, 0, 0, 0, 0, 0, 0, 0, 0, 0, 0, 0, 808484864, 825898288, 808333358, 825374510] =
     [92357886, 669417886, 64358048, 34096067, 3546371075, 3305362976, 2172576089, 2314314361,
       16089488, 3229749488, 3303593216, 8044728, 1614874744, 1651796608, 4022364, 1049660, 112,
       0, 0, 0, 0, 0, 0, 0, 0, 0, 0, 0, 808484864, 825898288, 808333358, 825374510]"
  by (simp add: eval_nat_numeral rotl_int_def)

lemma addr5000_schedule1: "schedule_int 16
     [92357886, 669417886, 64358048, 34096067, 3546371075, 3305362976, 2172576089, 2314314361,
       16089488, 3229749488, 3303593216, 8044728, 1614874744, 1651796608, 4022364, 1049660, 112,
       0, 0, 0, 0, 0, 0, 0, 0, 0, 0, 0, 808484864, 825898288, 808333358, 825374510] =
     [1762431061, 3637942069, 3698630280, 137976909, 1528581667, 1842039521, 1065576675,
       866602707, 888553822, 1075187948, 94783483, 2658206872, 1318992737, 1159229901, 2378699207,
       3498546379, 92357886, 669417886, 64358048, 34096067, 3546371075, 3305362976, 2172576089,
       2314314361, 16089488, 3229749488, 3303593216, 8044728, 1614874744, 1651796608, 4022364,
       1049660, 112, 0, 0, 0, 0, 0, 0, 0, 0, 0, 0, 0, 808484864, 825898288, 808333358, 825374510]"
  by (simp add: eval_nat_numeral rotl_int_def)

lemma addr5000_schedule2: "schedule_int 16
     [1762431061, 3637942069, 3698630280, 137976909, 1528581667, 1842039521, 1065576675,
       866602707, 888553822, 1075187948, 94783483, 2658206872, 1318992737, 1159229901, 2378699207,
       3498546379, 92357886, 669417886, 64358048, 34096067, 3546371075, 3305362976, 2172576089,
       2314314361, 16089488, 3229749488, 3303593216, 8044728, 1614874744, 1651796608, 4022364,
       1049660, 112, 0, 0, 0, 0, 0, 0, 0, 0, 0, 0, 0, 808484864, 825898288, 808333358, 825374510]
       =
     [3447475967, 2560530234, 3220817255, 2049041788, 2755609608, 3463930802, 3511483509,
       470794920, 3180656822, 3292459546, 2767425500, 1018414515, 3380129799, 3210567619,
       1208462048, 4103629498, 1762431061, 3637942069, 3698630280, 137976909, 1528581667,
       1842039521, 1065576675, 866602707, 888553822, 1075187948, 94783483, 2658206872, 1318992737,
       1159229901, 2378699207, 3498546379, 92357886, 669417886, 64358048, 34096067, 3546371075,
       3305362976, 2172576089, 2314314361, 16089488, 3229749488, 3303593216, 8044728, 1614874744,
       1651796608, 4022364, 1049660, 112, 0, 0, 0, 0, 0, 0, 0, 0, 0, 0, 0, 808484864, 825898288,
       808333358, 825374510]"
  by (simp add: eval_nat_numeral rotl_int_def)

lemma addr5000_schedule3: "schedule_int 16
     [3447475967, 2560530234, 3220817255, 2049041788, 2755609608, 3463930802, 3511483509,
       470794920, 3180656822, 3292459546, 2767425500, 1018414515, 3380129799, 3210567619,
       1208462048, 4103629498, 1762431061, 3637942069, 3698630280, 137976909, 1528581667,
       1842039521, 1065576675, 866602707, 888553822, 1075187948, 94783483, 2658206872, 1318992737,
       1159229901, 2378699207, 3498546379, 92357886, 669417886, 64358048, 34096067, 3546371075,
       3305362976, 2172576089, 2314314361, 16089488, 3229749488, 3303593216, 8044728, 1614874744,
       1651796608, 4022364, 1049660, 112, 0, 0, 0, 0, 0, 0, 0, 0, 0, 0, 0, 808484864, 825898288,
       808333358, 825374510] =
     [2782055573, 2583600097, 2624228760, 2187303309, 1645251151, 1914402233, 75292040,
       2573924660, 210784873, 3860280808, 1319876845, 669803272, 866401660, 30109307, 2438652753,
       3496371565, 3447475967, 2560530234, 3220817255, 2049041788, 2755609608, 3463930802,
       3511483509, 470794920, 3180656822, 3292459546, 2767425500, 1018414515, 3380129799,
       3210567619, 1208462048, 4103629498, 1762431061, 3637942069, 3698630280, 137976909,
       1528581667, 1842039521, 1065576675, 866602707, 888553822, 1075187948, 94783483, 2658206872,
       1318992737, 1159229901, 2378699207, 3498546379, 92357886, 669417886, 64358048, 34096067,
       3546371075, 3305362976, 2172576089, 2314314361, 16089488, 3229749488, 3303593216, 8044728,
       1614874744, 1651796608, 4022364, 1049660, 112, 0, 0, 0, 0, 0, 0, 0, 0, 0, 0, 0, 808484864,
       825898288, 808333358, 825374510]"
  by (simp add: eval_nat_numeral rotl_int_def)

lemma addr5000_phase0: "phase_int choose_int 0x5A827999
     [825374510, 808333358, 825898288, 808484864, 0, 0, 0, 0, 0, 0, 0, 0, 0, 0, 0, 112, 1049660,
       4022364, 1651796608, 1614874744]
     (1732584193, 4023233417, 2562383102, 271733878, 3285377520) = (3958847805, 2120949344,
       1369379167, 1605518847, 2788170364)"
  by (simp add: rotl_int_def choose_int_def parity_int_def majority_int_def)

lemma addr5000_phase1: "phase_int parity_int 0x6ED9EBA1
     [8044728, 3303593216, 3229749488, 16089488, 2314314361, 2172576089, 3305362976, 3546371075,
       34096067, 64358048, 669417886, 92357886, 3498546379, 2378699207, 1159229901, 1318992737,
       2658206872, 94783483, 1075187948, 888553822]
     (3958847805, 2120949344, 1369379167, 1605518847, 2788170364) = (524518517, 2148454421,
       430006170, 1409002217, 1561032534)"
  by (simp add: rotl_int_def choose_int_def parity_int_def majority_int_def)

lemma addr5000_phase2: "phase_int majority_int 0x8F1BBCDC
     [866602707, 1065576675, 1842039521, 1528581667, 137976909, 3698630280, 3637942069,
       1762431061, 4103629498, 1208462048, 3210567619, 3380129799, 1018414515, 2767425500,
       3292459546, 3180656822, 470794920, 3511483509, 3463930802, 2755609608]
     (524518517, 2148454421, 430006170, 1409002217, 1561032534) = (2090101324, 3673231260,
       3578378983, 2000813666, 1836250649)"
  by (simp add: rotl_int_def choose_int_def parity_int_def majority_int_def)

lemma addr5000_phase3: "phase_int parity_int 0xCA62C1D6
     [2049041788, 3220817255, 2560530234, 3447475967, 3496371565, 2438652753, 30109307, 866401660,
       669803272, 1319876845, 3860280808, 210784873, 2573924660, 75292040, 1914402233, 1645251151,
       2187303309, 2624228760, 2583600097, 2782055573]
     (2090101324, 3673231260, 3578378983, 2000813666, 1836250649) = (1327213152, 2429990674,
       4121190272, 2663086441, 1141520685)"
  by (simp add: rotl_int_def choose_int_def parity_int_def majority_int_def)

lemma addr5000_block: "block_int (state_int sha1_init)
     [825374510, 808333358, 825898288, 808484864, 0, 0, 0, 0, 0, 0, 0, 0, 0, 0, 0, 112] =
     (3059797345, 2158256795, 2388606078, 2934820319, 131930909)"
proof -
  have s: "rev (schedule_int 64 (rev [825374510, 808333358, 825898288, 808484864, 0, 0, 0, 0, 0,
       0, 0, 0, 0, 0, 0, 112])) =
      [825374510, 808333358, 825898288, 808484864, 0, 0, 0, 0, 0, 0, 0, 0, 0, 0, 0, 112, 1049660,
       4022364, 1651796608, 1614874744] @
      [8044728, 3303593216, 3229749488, 16089488, 2314314361, 2172576089, 3305362976, 3546371075,
       34096067, 64358048, 669417886, 92357886, 3498546379, 2378699207, 1159229901, 1318992737,
       2658206872, 94783483, 1075187948, 888553822] @
      [866602707, 1065576675, 1842039521, 1528581667, 137976909, 3698630280, 3637942069,
       1762431061, 4103629498, 1208462048, 3210567619, 3380129799, 1018414515, 2767425500,
       3292459546, 3180656822, 470794920, 3511483509, 3463930802, 2755609608] @
      [2049041788, 3220817255, 2560530234, 3447475967, 3496371565, 2438652753, 30109307,
       866401660, 669803272, 1319876845, 3860280808, 210784873, 2573924660, 75292040, 1914402233,
       1645251151, 2187303309, 2624228760, 2583600097, 2782055573]"
    by (simp only: rev_sixteen schedule_64 addr5000_schedule0 addr5000_schedule1
       addr5000_schedule2 addr5000_schedule3) simp
  show ?thesis
    by (subst block_int_phases [OF s])
      (simp_all only: state_int_init addr5000_phase0 addr5000_phase1 addr5000_phase2
       addr5000_phase3, simp_all)
qed

lemma addr5000_position: "hashToNodeID addr5000 = 1041195083025998055559450424623959893298787457821"
  by (subst position_one_block [OF addr5000_words _ addr5000_block]) (simp_all add: number_of_def)

end
