(* ===== verification/Chord_Props.thy ===== *)
theory Chord_Props
  imports Lookup Addresses
begin

text \<open>
  Properties of one Chord node and of lookups over a ring, with a ring of three concrete
  nodes as the example: going clockwise, port 3000, port 5000, port 4000.
\<close>

section \<open>A concrete ring\<close>

lemmas demo_positions = addr3000_position addr4000_position addr5000_position

lemma addr_distinct [simp]:
  "addr3000 \<noteq> addr4000" "addr3000 \<noteq> addr5000" "addr4000 \<noteq> addr5000"
  "addr4000 \<noteq> addr3000" "addr5000 \<noteq> addr3000" "addr5000 \<noteq> addr4000"
  by (simp_all add: addr3000_def addr4000_def addr5000_def)

definition demo_addrs :: "string list" where
  "demo_addrs = [addr3000, addr4000, addr5000]"

definition demo_node :: "string \<Rightarrow> string \<Rightarrow> chord_node" where
  "demo_node a s =
     \<lparr>self = ref_of a, successor = Some (ref_of s), predecessor = None,
      fingers = replicate M (Some (ref_of s)), responsibles = []\<rparr>"

definition demo_ring :: "string \<Rightarrow> chord_node option" where
  "demo_ring = [addr3000 \<mapsto> demo_node addr3000 addr5000, addr5000 \<mapsto> demo_node addr5000 addr4000,
     addr4000 \<mapsto> demo_node addr4000 addr3000]"

lemma demo_node_consistent:
  assumes "s \<in> set demo_addrs" and "next_addr demo_addrs a s"
  shows "consistent_node demo_addrs a (demo_node a s)"
  using assms by (auto simp: consistent_node_def demo_node_def M_def)

lemma demo_ring_simps:
  "demo_ring addr3000 = Some (demo_node addr3000 addr5000)"
  "demo_ring addr5000 = Some (demo_node addr5000 addr4000)"
  "demo_ring addr4000 = Some (demo_node addr4000 addr3000)"
  by (simp_all add: demo_ring_def)

lemma demo_next:
  "next_addr demo_addrs addr3000 addr5000" "next_addr demo_addrs addr5000 addr4000"
  "next_addr demo_addrs addr4000 addr3000"
  by (simp_all add: next_addr_def demo_addrs_def demo_positions cdist_def ringN_def M_def)

lemma demo_ring_consistent: "consistent_ring demo_addrs demo_ring"
  using demo_node_consistent [OF _ demo_next(1)] demo_node_consistent [OF _ demo_next(2)]
    demo_node_consistent [OF _ demo_next(3)]
  by (simp add: consistent_ring_def demo_addrs_def demo_ring_simps demo_positions)

section \<open>Lookups\<close>



text \<open>A node whose finger table is still empty (it has just joined) or still points at the node
  itself (it created the ring and another node came) answers its successor for every
  identifier, also for those it owns itself.\<close>

theorem unrepaired_answers_successor:
  assumes "successor n = Some s" and "naddr s \<noteq> naddr (self n)" and "length (fingers n) = M"
    and "set (fingers n) \<subseteq> {None, Some (self n)}"
  shows "find_step n ident = Answer s"
proof -
  have "closest_loop n ident i = self n" if "i \<le> M" for i
    using that
  proof (induction i)
    case 0
    then show ?case by simp
  next
    case (Suc i)
    then have "fingers n ! i \<in> set (fingers n)" using assms(3) by simp
    then have "fingers n ! i = None \<or> fingers n ! i = Some (self n)" using assms(4) by blast
    then show ?case using Suc by (auto simp: isBetween_not_lower)
  qed
  then have "closestPrecedingNode n ident = self n" by (simp add: closestPrecedingNode_def)
  then show ?thesis using assms(1,2) by (simp add: find_step_def Let_def)
qed

theorem unrepaired_answers_successor_witness:
  "find_step (fst (notify (ref_of addr4000) (Create (NewChordNode addr3000)))) 7 = Answer (ref_of addr4000) \<and>
   is_owner [addr3000, addr4000] 7 addr3000"
proof
  let ?n = "fst (notify (ref_of addr4000) (Create (NewChordNode addr3000)))"
  have f: "length (fingers ?n) = M" "set (fingers ?n) \<subseteq> {None, Some (self ?n)}"
    by (auto simp: notify_def Create_def NewChordNode_def)
  have s: "successor ?n = Some (ref_of addr4000)" "naddr (ref_of addr4000) \<noteq> naddr (self ?n)"
    by (simp_all add: notify_def Create_def NewChordNode_def)
  show "find_step ?n 7 = Answer (ref_of addr4000)" by (rule unrepaired_answers_successor [OF s f])
  show "is_owner [addr3000, addr4000] 7 addr3000"
    by (simp add: is_owner_def demo_positions cdist_def ringN_def M_def)
qed

text \<open>The owner of an identifier is unique, as no two nodes share a position.\<close>

lemma owner_unique:
  assumes "inj_on hashToNodeID (set addrs)" and "ident < ringN" and "is_owner addrs ident s" and "is_owner addrs ident t"
  shows "s = t"
proof -
  have "cdist ident (hashToNodeID s) = cdist ident (hashToNodeID t)"
    using assms(3,4) by (auto simp: is_owner_def intro: antisym)
  then have "hashToNodeID s = hashToNodeID t"
    using cdist_inj [OF assms(2) hashToNodeID_bound hashToNodeID_bound] by blast
  then show ?thesis using assms(1,3,4) by (auto simp: is_owner_def dest: inj_onD)
qed

lemma first_finger_owner:
  assumes "consistent_node addrs a n" and "a \<in> set addrs" and "inj_on hashToNodeID (set addrs)"
    and "is_owner addrs (fingerID (hashToNodeID a) 0) t"
    and "fingerID (hashToNodeID a) 0 \<noteq> hashToNodeID a"
  shows "successor n = Some (ref_of t)"
proof -
  let ?h = hashToNodeID and ?i = "fingerID (hashToNodeID a) 0"
  obtain s where s: "s \<in> set addrs" "successor n = Some (ref_of s)" "next_addr addrs a s"
    using assms(1) by (auto simp: consistent_node_def)
  have "s = t"
  proof (cases "s = a")
    case True
    then have "set addrs = {a}" using s(3) by (simp add: next_addr_def)
    then show ?thesis using True assms(4) by (simp add: is_owner_def)
  next
    case False
    then have "?h a \<noteq> ?h s" using assms(2,3) s(1) by (auto dest: inj_onD)
    then have "0 < cdist (?h a) (?h s)"
      using cdist_eq_0 [OF hashToNodeID_bound hashToNodeID_bound, of a s] by simp
    moreover have "cdist (?h a) ?i = 1"
      using fingerID_distance [OF hashToNodeID_bound, of 0 a] by (simp add: M_def)
    ultimately have "is_owner addrs ?i s"
      using owner_next [OF s(3) False assms(2) fingerID_bound assms(5)] by simp
    then show ?thesis using owner_unique [OF assms(3) fingerID_bound] assms(4) by blast
  qed
  then show ?thesis using s(2) by simp
qed

lemma consistent_nodeE:
  assumes "consistent_node addrs a n"
  obtains s where "self n = ref_of a" and "length (fingers n) = M" and "s \<in> set addrs"
    and "successor n = Some (ref_of s)" and "fingers n ! 0 = Some (ref_of s)" and "next_addr addrs a s"
    and "\<forall>f \<in> set (fingers n). f = None \<or> f \<in> (\<lambda>b. Some (ref_of b)) ` set addrs"
  using assms unfolding consistent_node_def by metis

lemma set_finger_consistent:
  assumes "consistent_node addrs a n" and "s \<in> set addrs" and "i = 0 \<Longrightarrow> successor n = Some (ref_of s)"
  shows "consistent_node addrs a (set_finger i (ref_of s) n)"
proof -
  from assms(1) obtain t where t: "self n = ref_of a" "length (fingers n) = M" "t \<in> set addrs"
    "successor n = Some (ref_of t)" "fingers n ! 0 = Some (ref_of t)" "next_addr addrs a t"
    "\<forall>f \<in> set (fingers n). f = None \<or> f \<in> (\<lambda>b. Some (ref_of b)) ` set addrs"
    by (rule consistent_nodeE)
  have "f = None \<or> f \<in> (\<lambda>b. Some (ref_of b)) ` set addrs"
    if "f \<in> set ((fingers n)[i := Some (ref_of s)])" for f
    using set_update_subset_insert [THEN subsetD, OF that] assms(2) t(7) by auto
  moreover have "(fingers n)[i := Some (ref_of s)] ! 0 = Some (ref_of t)"
    using assms(3) t(2,4,5) by (cases "i = 0") (simp_all add: M_def)
  ultimately show ?thesis using t by (auto simp: consistent_node_def set_finger_def)
qed

lemma repaired_ring:
  assumes "consistent_ring addrs ring" and "a \<in> set addrs" and "ring a = Some n"
    and "is_owner addrs (fingerID (nid (self n)) i) s"
  shows "consistent_ring addrs (ring(a \<mapsto> set_finger i (ref_of s) n))"
proof -
  have c: "consistent_node addrs a n" and inj: "inj_on hashToNodeID (set addrs)"
    using assms(1-3) by (auto simp: consistent_ring_def)
  then have self: "self n = ref_of a" by (simp add: consistent_node_def)
  have "i = 0 \<Longrightarrow> successor n = Some (ref_of s)"
    using first_finger_owner [OF c assms(2) inj] fingerID_not_own [OF hashToNodeID_bound, of 0 a] assms(4) self
    by (simp add: M_def)
  moreover have "s \<in> set addrs" using assms(4) by (simp add: is_owner_def)
  ultimately have "consistent_node addrs a (set_finger i (ref_of s) n)" by (intro set_finger_consistent [OF c])
  then show ?thesis using assms(1) by (auto simp: consistent_ring_def)
qed



text \<open>The closed interval test of \<open>FindSuccessor\<close> contains its lower end: on a consistent ring of
  at least two nodes, a node asked for its own position answers its successor, while its
  predecessor answers the node, which is the owner.\<close>

theorem own_position_disputed:
  assumes "consistent_ring addrs ring" and "a \<in> set addrs" and "b \<in> set addrs" and "a \<noteq> b"
    and "ring a = Some n" and "ring b = Some m" and "successor m = Some (ref_of a)"
  shows "is_owner addrs (hashToNodeID a) a \<and> find_step m (hashToNodeID a) = Answer (ref_of a) \<and>
    (\<exists>s. s \<noteq> a \<and> find_step n (hashToNodeID a) = Answer (ref_of s))"
proof (intro conjI)
  have c: "consistent_node addrs a n" "consistent_node addrs b m"
    using assms(1-3,5,6) by (auto simp: consistent_ring_def)
  show "is_owner addrs (hashToNodeID a) a" using assms(2) by (simp add: is_owner_def)
  show "find_step m (hashToNodeID a) = Answer (ref_of a)"
  proof -
    have "self m = ref_of b" using c(2) by (simp add: consistent_node_def)
    then show ?thesis using assms(4,7) by (simp add: find_step_def isBetween_upper)
  qed
  obtain s where s: "successor n = Some (ref_of s)" "next_addr addrs a s" "self n = ref_of a"
    using c(1) by (rule consistent_nodeE) blast
  have "s \<noteq> a" using s(2) assms(3,4) by (auto simp: next_addr_def)
  moreover have "find_step n (hashToNodeID a) = Answer (ref_of s)"
    using s \<open>s \<noteq> a\<close> by (simp add: find_step_def isBetween_lower)
  ultimately show "\<exists>s. s \<noteq> a \<and> find_step n (hashToNodeID a) = Answer (ref_of s)" by blast
qed

theorem own_position_disputed_witness:
  "\<exists>s. s \<noteq> addr5000 \<and> find_step (demo_node addr5000 addr4000) (hashToNodeID addr5000) = Answer (ref_of s)"
proof -
  have "addr5000 \<in> set demo_addrs" "addr3000 \<in> set demo_addrs" by (simp_all add: demo_addrs_def)
  moreover have "successor (demo_node addr3000 addr5000) = Some (ref_of addr5000)"
    by (simp add: demo_node_def)
  ultimately show ?thesis
    using own_position_disputed [OF demo_ring_consistent, of addr5000 addr3000] demo_ring_simps by auto
qed

section \<open>Maintenance\<close>

lemma not_inside_farther:
  assumes "p < ringN" "r < ringN" "n < ringN" and "\<not> isBetween r p n False" and "p \<noteq> n" and "r \<noteq> n"
  shows "cdist p n \<le> cdist r n"
proof (cases "r = p")
  case True
  then show ?thesis by simp
next
  case False
  then have "0 < cdist p r" using cdist_eq_0 [OF assms(1,2)] by simp
  then have far: "cdist p n \<le> cdist p r" using assms(4) isBetween_open [OF assms(2,1,3)] by simp
  have "cdist p r = cdist p n + cdist n r" by (rule cdist_triangle [OF assms(1,3,2) far])
  moreover have "cdist r n + cdist n r = ringN" by (rule cdist_around [OF assms(2,3,6)])
  moreover have "cdist p r < ringN" by (rule cdist_bound [OF assms(1,2)])
  ultimately show ?thesis by linarith
qed

lemma notify_step:
  assumes "node_ok n" and "proper r" and "nid r \<noteq> nid (self n)"
    and "\<forall>p. predecessor n = Some p \<longrightarrow> nid p \<noteq> nid (self n)"
  shows "\<exists>p. predecessor (fst (notify r n)) = Some p \<and> p \<in> insert r (set_option (predecessor n)) \<and>
    (\<forall>q \<in> insert r (set_option (predecessor n)). cdist (nid p) (nid (self n)) \<le> cdist (nid q) (nid (self n)))"
proof (cases "predecessor n")
  case None
  then show ?thesis by (auto simp: notify_def Let_def split: option.split)
next
  case (Some p)
  have pos: "nid p < ringN" "nid r < ringN" "nid (self n) < ringN"
    using assms(1,2) Some by (simp_all add: node_ok_def proper_bound)
  have "nid p \<noteq> nid (self n)" using assms(4) Some by simp
  show ?thesis
  proof (cases "isBetween (nid r) (nid p) (nid (self n)) False")
    case True
    then have "cdist (nid r) (nid (self n)) < cdist (nid p) (nid (self n))"
      by (rule ring.closer_predecessor [OF pos])
    moreover have "predecessor (fst (notify r n)) = Some r"
      using True Some by (simp add: notify_def Let_def split: option.split)
    ultimately show ?thesis using Some by auto
  next
    case False
    then have "cdist (nid p) (nid (self n)) \<le> cdist (nid r) (nid (self n))"
      using not_inside_farther [OF pos] assms(3) \<open>nid p \<noteq> nid (self n)\<close> by simp
    moreover have "predecessor (fst (notify r n)) = Some p" using False Some by (simp add: notify_def)
    ultimately show ?thesis using Some by auto
  qed
qed

text \<open>C19: after any number of notifications a node's predecessor is, among the one it had and all that
  notified it, the one closest before it; notifications in any order, repeated or not, end
  the same way.\<close>

theorem notifications_converge:
  assumes "node_ok n" and "\<forall>r \<in> set rs. proper r \<and> nid r \<noteq> nid (self n)"
    and "predecessor n \<noteq> None \<or> rs \<noteq> []"
    and "\<forall>p. predecessor n = Some p \<longrightarrow> nid p \<noteq> nid (self n)"
  shows "\<exists>p. predecessor (fold (\<lambda>r m. fst (notify r m)) rs n) = Some p \<and>
    p \<in> set rs \<union> set_option (predecessor n) \<and>
    (\<forall>q \<in> set rs \<union> set_option (predecessor n). cdist (nid p) (nid (self n)) \<le> cdist (nid q) (nid (self n)))"
  using assms
proof (induction rs arbitrary: n)
  case Nil
  then show ?case by (cases "predecessor n") simp_all
next
  case (Cons r rs)
  let ?n = "fst (notify r n)"
  obtain p where p: "predecessor ?n = Some p" "p \<in> insert r (set_option (predecessor n))"
    "\<forall>q \<in> insert r (set_option (predecessor n)). cdist (nid p) (nid (self n)) \<le> cdist (nid q) (nid (self n))"
    using notify_step [OF Cons.prems(1) _ _ Cons.prems(4), of r] Cons.prems(2) by auto
  have "node_ok ?n" using notify_ok Cons.prems(1,2) by simp
  moreover have "\<forall>p. predecessor ?n = Some p \<longrightarrow> nid p \<noteq> nid (self ?n)"
    using p(1,2) Cons.prems(2,4) by auto
  ultimately obtain p' where p': "predecessor (fold (\<lambda>r m. fst (notify r m)) rs ?n) = Some p'"
    "p' \<in> set rs \<union> {p}"
    "\<forall>q \<in> set rs \<union> {p}. cdist (nid p') (nid (self n)) \<le> cdist (nid q) (nid (self n))"
    using Cons.IH [of ?n] Cons.prems(2) p(1) by auto
  then show ?case using p(2,3) by (auto intro: order_trans)
qed

theorem notifications_converge_witness:
  "\<exists>p. predecessor (fold (\<lambda>r m. fst (notify r m)) [ref_of addr3000, ref_of addr5000, ref_of addr3000]
      (NewChordNode addr4000)) = Some p \<and> cdist (nid p) (hashToNodeID addr4000) \<le>
    cdist (hashToNodeID addr5000) (hashToNodeID addr4000)"
proof -
  have "\<forall>r \<in> set [ref_of addr3000, ref_of addr5000, ref_of addr3000].
      proper r \<and> nid r \<noteq> nid (self (NewChordNode addr4000))"
    by (simp add: NewChordNode_def demo_positions)
  from notifications_converge [OF NewChordNode_ok this] show ?thesis
    by (auto simp: NewChordNode_def)
qed

text \<open>An answer from the successor to a predecessor query never moves the successor farther away,
  takes over the reported node exactly when it lies strictly between, and an answer from any
  other address changes nothing.\<close>

theorem predecessor_answer_progress:
  assumes "node_ok n" and "proper r" and "successor n = Some s" and "nid s \<noteq> nid (self n)"
  shows "(a \<noteq> naddr s \<longrightarrow> got_predecessor a r n = n) \<and>
    got_predecessor (naddr s) r n =
      (if 0 < cdist (nid (self n)) (nid r) \<and> cdist (nid (self n)) (nid r) < cdist (nid (self n)) (nid s)
       then n\<lparr>successor := Some r\<rparr> else n)"
proof -
  have pos: "nid (self n) < ringN" "nid r < ringN" "nid s < ringN"
    using assms by (simp_all add: node_ok_def proper_bound)
  show ?thesis
    using assms(3) isBetween_open [OF pos(2,1,3)] by (simp add: got_predecessor_def)
qed

theorem predecessor_answer_progress_witness:
  "successor (got_predecessor addr4000 (ref_of addr5000) (join_state addr4000 (NewChordNode addr3000))) =
     Some (ref_of addr5000)"
proof -
  let ?n = "join_state addr4000 (NewChordNode addr3000)"
  have n: "node_ok ?n" "successor ?n = Some (ref_of addr4000)" "self ?n = ref_of addr3000"
    by (simp_all add: join_state_ok NewChordNode_ok) (simp_all add: join_state_def NewChordNode_def)
  have "nid (ref_of addr4000) \<noteq> nid (self ?n)" using n(3) by (simp add: demo_positions)
  from predecessor_answer_progress [OF n(1) proper_ref_of n(2) this, of addr4000 addr5000] n(3)
  show ?thesis by (simp add: demo_positions cdist_def)
qed

end
