(* ===== verification/Frames.thy ===== *)
theory Frames
  imports Server_Laws
begin

text \<open>
  What the operations on files leave alone: they work on the peers, the disk, the random source and
  the network configuration of a server. A property of a server that does not look at these
  is kept by every one of them.
\<close>

lemma snd_wrapping [simp]: "snd (wrapping msg m) = snd m"
  by (auto simp: wrapping_def split: prod.split res.split)

lemma snd_ignoring [simp]: "snd (ignoring m) = snd m"
  by (auto simp: ignoring_def split: prod.split res.split)

locale outer =
  fixes P :: "server \<Rightarrow> bool"
  assumes on_peers: "P (s\<lparr>peers := ps\<rparr>) = P s" and on_disk: "P (s\<lparr>fdisk := d\<rparr>) = P s"
    and on_draws: "P (s\<lparr>drawn := k\<rparr>) = P s" and on_net: "P (s\<lparr>net := n\<rparr>) = P s"
begin

lemmas blind = on_peers on_disk on_draws on_net

lemmas seq = keeps_andthen [where P = P]

section \<open>Sending and dialling\<close>

lemma on_peer: "P s \<Longrightarrow> P (snd (on_peer a f s))"
  by (simp add: on_peer_def blind split: option.split prod.split)

lemma sendMessage: "P s \<Longrightarrow> P (snd (sendMessage e a m s))"
  by (simp add: sendMessage_def on_peer)

lemma broadcast: "P s \<Longrightarrow> P (snd (broadcast e m s))"
  by (simp add: broadcast_def blind split: prod.split)

lemma Dial: "P s \<Longrightarrow> P (snd (Dial e a s))"
  by (simp add: Dial_def OnPeer_def blind split: dial_result.split)

lemma target_peer: "P s \<Longrightarrow> P (snd (target_peer e a s))"
  by (auto simp: target_peer_def Dial intro!: seq split: option.split)

lemma reach: "P s \<Longrightarrow> P (snd (reach e a s))"
  by (auto simp: reach_def Dial intro!: seq split: option.split)

section \<open>The store\<close>

lemma srv_write: "P s \<Longrightarrow> P (snd (srv_write e cid key r i n s))"
  by (simp add: srv_write_def blind split: prod.split)

lemma srv_delete: "P s \<Longrightarrow> P (snd (srv_delete cid s))"
  by (simp add: srv_delete_def blind split: prod.split)

lemma Remove: "P s \<Longrightarrow> P (snd (Remove e cid s))"
  unfolding Remove_def
proof (rule seq)
  show "P (snd (case srv_delete cid t of
      (Fail er, s) \<Rightarrow> (Fail (Errorf ''Failed to delete file from the disk'' [saddr s, cid]), s) | rs \<Rightarrow> rs))"
    if "P t" for t
    using srv_delete [OF that, of cid] by (auto split: prod.split res.split)
qed (simp add: broadcast)

section \<open>Mesh\<close>

lemma serve_file: "P s \<Longrightarrow> P (snd (serve_file e a md n r s))"
  unfolding serve_file_def Let_def by (intro seq) (simp_all add: on_peer)

lemma GetFile_handler: "P s \<Longrightarrow> P (snd (handleMessageGetFile e a cid s))"
  by (auto simp: handleMessageGetFile_def serve_file intro!: seq split: option.split)

lemma StoreFile_handler: "P s \<Longrightarrow> P (snd (handleMessageStoreFile e a cid key i n z s))"
  by (auto simp: handleMessageStoreFile_def on_peer srv_write intro!: seq split: option.split)

lemma DeleteFile_handler: "P s \<Longrightarrow> P (snd (handleMessageDeleteFile cid s))"
  using srv_delete [of s cid] by (auto simp: handleMessageDeleteFile_def split: prod.split res.split)

lemma dial_nodes: "P s \<Longrightarrow> P (dial_nodes e ns l a s)"
  by (induction e ns l a s rule: dial_nodes.induct) (simp_all add: Dial)

lemma AddFile_handler: "P s \<Longrightarrow> P (snd (handleMessageAddFile e from a l n s))"
  by (simp add: handleMessageAddFile_def blind dial_nodes Let_def split: option.split)

lemma getAll_peer: "P s \<Longrightarrow> P (snd (getAll_peer e cid a s))"
  unfolding getAll_peer_def by (intro seq) (simp_all add: on_peer blind split: prod.split)

lemma getAll_loop: "P s \<Longrightarrow> P (snd (getAll_loop e cid as s))"
  by (induction as arbitrary: s) (auto simp: getAll_peer intro!: seq)

lemma getAll: "P s \<Longrightarrow> P (snd (getAll e cid s))"
  by (auto simp: getAll_def broadcast getAll_loop intro!: seq)

section \<open>Chord\<close>

lemma take_chord_file: "P s \<Longrightarrow> P (snd (take_chord_file e a cid key s))"
  by (auto simp: take_chord_file_def on_peer srv_write intro!: seq split: option.split)

lemma GetChordFile_handler: "P s \<Longrightarrow> P (snd (handleMessageGetChordFile e a cid s))"
  by (auto simp: handleMessageGetChordFile_def on_peer intro!: seq split: option.split prod.split)

lemma transfer_send: "P s \<Longrightarrow> P (snd (transfer_send e own pred cid s))"
  by (auto simp: transfer_send_def getAll sendMessage on_peer intro!: seq split: option.split)

end

end
