(* ===== verification/Node_Invariant.thy ===== *)
theory Node_Invariant
  imports Frames
begin

text \<open>
  Which calls of a server touch its Chord node, and the invariant of the node under the
  message loop. \<open>frame\<close> collects the calls that leave the node as it was.
\<close>

named_theorems frame "calls that keep the Chord node"

section \<open>What sending and dialling keep\<close>

text \<open>
  Most operations reach the state of a server through two calls only, sending a message and
  dialling. What both keep, for the messages of a set, every such operation keeps.
\<close>

locale keeps =
  fixes e :: env and P :: "server \<Rightarrow> bool" and Q :: "string \<Rightarrow> payload \<Rightarrow> bool"
  assumes send: "P s \<Longrightarrow> Q a m \<Longrightarrow> P (snd (sendMessage e a m s))"
    and dial: "P s \<Longrightarrow> P (snd (Dial e a s))"
begin

lemmas sequence = keeps_andthen [where P = P]

lemma target_peer: "P s \<Longrightarrow> P (snd (target_peer e a s))"
  using dial by (auto simp: target_peer_def intro!: sequence split: option.split)

lemma answer_peer: "P s \<Longrightarrow> P (snd (answer_peer e from a s))"
  using dial [of s a] by (auto simp: answer_peer_def split: option.split prod.split res.split)

lemma request_successor:
  assumes "P s" and "\<And>b a q. Q b (MessageFindSuccessor (int_bytes k) a q)"
  shows "P (snd (request_successor e q a k s))"
  using assms send by (auto simp: request_successor_def target_peer intro!: sequence split: prod.split)

lemma forward_response: "P s \<Longrightarrow> (\<And>a. Q a m) \<Longrightarrow> P (forward_response e m r as s)"
  by (induction as arbitrary: s) (simp_all add: send)

lemma sendNotify:
  assumes "P s" and "\<And>n. chord s = Some n \<Longrightarrow> Q a (MessageNotify (int_bytes (nid (self n))) (naddr (self n)))"
  shows "P (snd (sendNotify e a s))"
  using assms send by (auto simp: sendNotify_def with_node_def split: option.split)

lemma stabilize:
  assumes "P s"
    and "\<And>n t. chord s = Some n \<Longrightarrow> successor n = Some t \<Longrightarrow> naddr t \<noteq> naddr (self n) \<Longrightarrow>
      Q (naddr t) (MessageNotify (int_bytes (nid (self n))) (naddr (self n)))"
    and "\<And>b a. Q b (MessageGetPredecessor a)"
  shows "P (snd (stabilize e s))"
  using assms send by (auto simp: stabilize_def with_node_def intro!: sequence split: option.split)

end

section \<open>Frames\<close>

lemma frame_andthen [intro]:
  assumes "chord (snd m) = c" and "\<And>x t. chord t = c \<Longrightarrow> chord (snd (k x t)) = c"
  shows "chord (snd (andthen m k)) = c"
  using assms by (auto simp: andthen_def split: prod.split res.split)

interpretation chord_fixed: outer "\<lambda>s. chord s = c" for c
  by unfold_locales simp_all

lemmas frame_outer [frame] =
  chord_fixed.on_peer [OF refl] chord_fixed.sendMessage [OF refl] chord_fixed.broadcast [OF refl]
  chord_fixed.Dial [OF refl] chord_fixed.target_peer [OF refl] chord_fixed.srv_write [OF refl]
  chord_fixed.srv_delete [OF refl] chord_fixed.Remove [OF refl] chord_fixed.serve_file [OF refl]
  chord_fixed.GetFile_handler [OF refl] chord_fixed.StoreFile_handler [OF refl]
  chord_fixed.DeleteFile_handler [OF refl] chord_fixed.dial_nodes [OF refl] chord_fixed.AddFile_handler [OF refl]
  chord_fixed.take_chord_file [OF refl] chord_fixed.GetChordFile_handler [OF refl]

lemma frame_update [simp]: "update_node f s = s\<lparr>chord := map_option f (chord s)\<rparr>"
  by (simp add: update_node_def)

interpretation chord_kept: keeps e "\<lambda>s. chord s = c" "\<lambda>_ _. True" for e c
  by unfold_locales (simp_all add: frame)

lemma frame_answer_peer [frame]: "chord (snd (answer_peer e from a s)) = chord s"
  by (rule chord_kept.answer_peer) simp

lemma frame_request [frame]: "chord (snd (request_successor e q a ident s)) = chord s"
  by (rule chord_kept.request_successor) simp_all

lemma frame_forward [frame]: "chord (forward_response e m r as s) = chord s"
  by (rule chord_kept.forward_response) simp_all

lemma frame_stabilize [frame]: "chord (snd (stabilize e s)) = chord s"
  by (rule chord_kept.stabilize) simp_all

lemma frame_deferring [intro]:
  "(\<And>t. chord (f t) = chord t) \<Longrightarrow> chord (snd m) = c \<Longrightarrow> chord (snd (deferring f m)) = c"
  by (auto simp: deferring_def split: prod.split res.split)

lemma frame_requests [frame, simp]:
  "chord (register_request q s) = chord s" "chord (forget_request q s) = chord s"
  by (simp_all add: register_request_def forget_request_def)

lemma frame_signal [frame, simp]: "chord (signal_request q r s) = chord s"
  by (simp add: signal_request_def split: option.split)

lemma frame_remote [frame]: "chord (snd (findSuccessorRemote e rs a ident s)) = chord s"
proof (induction e rs a ident s rule: findSuccessorRemote.induct)
  case (1 e a ident s)
  then show ?case by (auto simp: frame intro!: frame_deferring frame_andthen)
next
  case (2 e reply replies a ident s)
  then show ?case by (auto simp: frame Let_def intro!: frame_deferring frame_andthen split: option.split)
qed

lemma frame_FindSuccessor [frame]: "chord (snd (FindSuccessor e rs ident s)) = chord s"
  by (auto simp: FindSuccessor_def with_node_def frame split: option.split decision.split)

lemma frame_find_handler [frame]: "chord (snd (handleMessageFindSuccessor e from idb a q s)) = chord s"
proof -
  have "chord (snd (case answer_peer e from a t of
      (None, s) \<Rightarrow> (Fail (Errorf ''couldn't find or establish connection'' [a]), s)
    | (Some b, s) \<Rightarrow> sendMessage e b m s)) = chord t" for t m
    using frame_answer_peer [of e "from" a t] by (auto simp: frame_outer split: prod.split option.split)
  then show ?thesis by (auto simp: handleMessageFindSuccessor_def frame intro!: frame_andthen)
qed

lemma frame_GetPredecessor [frame]: "chord (snd (handleMessageGetPredecessor e from s)) = chord s"
  by (auto simp: handleMessageGetPredecessor_def Let_def frame split: option.split)

lemma frame_FindSuccessorResponse [frame]: "chord (snd (handleMessageFindSuccessorResponse e from idb a q s)) = chord s"
  by (auto simp: handleMessageFindSuccessorResponse_def frame Let_def)

section \<open>The invariant\<close>

text \<open>The node of the server is well-formed and is the node with these fixed fields.\<close>

definition sound :: "node_ref option \<Rightarrow> server \<Rightarrow> bool" where
  "sound me s \<longleftrightarrow> pred_option node_ok (chord s) \<and> map_option self (chord s) = me"

text \<open>A message names nodes by the digest of their address.\<close>

fun msg_ok :: "payload \<Rightarrow> bool" where
  "msg_ok (MessageNotify idb a) = (set_bytes idb = hashToNodeID a)"
| "msg_ok (MessageGetPredecessorResponse idb a hasPred) = (hasPred \<longrightarrow> set_bytes idb = hashToNodeID a)"
| "msg_ok _ = True"

lemma sound_frame: "chord t = chord s \<Longrightarrow> sound me s \<Longrightarrow> sound me t"
  by (simp add: sound_def)

lemma sound_andthen:
  assumes "sound me (snd m)" and "\<And>x t. sound me t \<Longrightarrow> sound me (snd (k x t))"
  shows "sound me (snd (andthen m k))"
  using assms by (auto simp: andthen_def split: prod.split res.split)

lemma sound_responsibles [simp]:
  "sound me (s\<lparr>chord := map_option (\<lambda>n. n\<lparr>responsibles := f n\<rparr>) (chord s)\<rparr>) = sound me s"
  by (auto simp: sound_def node_ok_def option.pred_set option.map_comp o_def set_eq_iff split: option.splits)

lemma node_of_proper: "set_bytes idb = hashToNodeID a \<Longrightarrow> proper (node_of idb a)"
  by (simp add: node_of_def proper_def)

lemma sound_StoreChordFile:
  assumes "sound me s"
  shows "sound me (snd (handleMessageStoreChordFile e a cid key s))"
proof -
  have f: "sound me (snd (on_peer a g t))" if "sound me t" for g :: "peer \<Rightarrow> 'x res \<times> peer" and t
    by (rule sound_frame [OF chord_fixed.on_peer [OF refl] that])
  have w: "sound me (snd (srv_write e cid key r 0 0 t))" if "sound me t" for r t
    by (rule sound_frame [OF chord_fixed.srv_write [OF refl] that])
  show ?thesis
    using assms by (auto simp: handleMessageStoreChordFile_def take_chord_file_def take_responsible_def f w intro!: sound_andthen split: option.split)
qed

lemma sound_GetChordFile: "sound me s \<Longrightarrow> sound me (snd (handleMessageGetChordFile e a cid s))"
  by (rule sound_frame [where s = s, rotated])
    (auto simp: handleMessageGetChordFile_def frame intro!: frame_andthen split: option.split prod.split)

lemma sound_DeleteChordFile:
  assumes "sound me s"
  shows "sound me (snd (handleMessageDeleteChordFile e cid s))"
proof -
  let ?s = "drop_responsible cid s"
  have "sound me ?s" using assms by (simp add: drop_responsible_def)
  then have "sound me (snd (Remove e cid ?s))" by (rule sound_frame [OF chord_fixed.Remove [OF refl]])
  then show ?thesis using assms by (simp add: handleMessageDeleteChordFile_def)
qed

lemma sound_Notify:
  assumes "sound me s" and "set_bytes idb = hashToNodeID a"
  shows "sound me (snd (handleMessageNotify idb a s))"
proof (cases "chord s")
  case None
  then show ?thesis using assms(1) by (simp add: handleMessageNotify_def)
next
  case (Some n)
  have "node_ok n" using assms(1) Some by (simp add: sound_def)
  then have "node_ok (fst (notify (node_of idb a) n))" by (rule notify_ok [OF _ node_of_proper [OF assms(2)]])
  moreover have "self (fst (notify (node_of idb a) n)) = self n" by simp
  ultimately show ?thesis
    using assms(1) Some by (cases "notify (node_of idb a) n") (simp add: handleMessageNotify_def sound_def)
qed

lemma sound_GetPredecessorResponse:
  assumes "sound me s" and "h \<longrightarrow> set_bytes idb = hashToNodeID a"
  shows "sound me (snd (handleMessageGetPredecessorResponse from idb a h s))"
proof (cases "chord s")
  case None
  then show ?thesis using assms(1) by (simp add: handleMessageGetPredecessorResponse_def)
next
  case (Some n)
  have "node_ok n" using assms(1) Some by (simp add: sound_def)
  then have "node_ok (got_predecessor from (node_of idb a) n)" if h
    using got_predecessor_ok [OF _ node_of_proper] assms(2) that by blast
  then show ?thesis
    using assms(1) Some by (simp add: handleMessageGetPredecessorResponse_def sound_def)
qed

lemma sound_handleMessage:
  assumes "sound me s" and "pred_option msg_ok m"
  shows "sound me (snd (handleMessage e from m s))"
proof (cases m)
  case None
  then show ?thesis using assms(1) by simp
next
  case (Some p)
  note keep = sound_frame [OF _ assms(1)]
  show ?thesis
    using assms unfolding Some
    by (cases p)
      (simp_all add: sound_StoreChordFile sound_GetChordFile sound_DeleteChordFile sound_Notify
        sound_GetPredecessorResponse
        keep frame)
qed

lemma sound_loop:
  assumes "sound me s" and "\<forall>rpc \<in> set rpcs. pred_option msg_ok (ungob_msg e (Payload rpc))"
  shows "sound me (snd (loop e rpcs s))"
  using assms
proof (induction rpcs arbitrary: s)
  case Nil
  then show ?case by simp
next
  case (Cons rpc rpcs)
  then show ?case
    by (auto simp: loop_turn_def sound_handleMessage intro!: sound_andthen)
qed

end
