(* ===== verification/Server_Props.thy ===== *)
theory Server_Props
  imports Mesh_Props Api Chord_Props Node_Invariant
begin

text \<open>
  Properties of a file server in Chord mode and of its outer layer: what reaches the disk
  and the other node, which calls can never end, the invariant of the Chord node under all
  messages, and the way from an HTTP request to the store and back.
\<close>

section \<open>Files between Chord nodes\<close>

text \<open>C35: a node that is sent a Chord file reads its connection to the end of file; while the sender
  keeps the connection open, as it does, the handler never stores the file: it hangs or
  fails, and disk and node stay as they were.\<close>

theorem remote_store_never_completes:
  assumes "map_of (peers s) a = Some p" and "fin (inp p) = Open"
  shows "fst (handleMessageStoreChordFile e a cid key s) \<noteq> Ret () \<and>
    fdisk (snd (handleMessageStoreChordFile e a cid key s)) = fdisk s \<and>
    chord (snd (handleMessageStoreChordFile e a cid key s)) = chord s"
proof (cases "chord s")
  case None
  then show ?thesis by (simp add: handleMessageStoreChordFile_def take_chord_file_def)
next
  case (Some n)
  show ?thesis
  proof (cases "content (inp p)")
    case Nil
    have "conn_read 1 p = (Hang, p\<lparr>inp := (inp p)\<lparr>segs := []\<rparr>\<rparr>)"
      using read_empty [OF Nil, of 1] assms(2) by (simp add: conn_read_def ending_def)
    then show ?thesis using Some assms(1) by (simp add: handleMessageStoreChordFile_def take_chord_file_def on_peer_first)
  next
    case (Cons b bs)
    obtain ss where r: "read 1 (inp p) = (Ret [b], (inp p)\<lparr>segs := ss\<rparr>)" by (rule read_one [OF Cons])
    then have "conn_read 1 p = (Ret [b], p\<lparr>inp := (inp p)\<lparr>segs := ss\<rparr>\<rparr>)" by (simp add: conn_read_def)
    moreover have "read_all ((inp p)\<lparr>segs := ss\<rparr>) = (Hang, (inp p)\<lparr>segs := []\<rparr>)"
      using assms(2) by (simp add: read_all_Open)
    ultimately show ?thesis
      using Some assms(1) by (simp add: handleMessageStoreChordFile_def take_chord_file_def on_peer_first read_all_peer_def)
  qed
qed

theorem remote_store_never_completes_witness:
  "fst (handleMessageStoreChordFile demo_env ''b'' ''cid1'' ''a.txt'' ((demo_server aes_network)\<lparr>
      chord := Some (NewChordNode addr3000),
      peers := [(''b'', demo_peer ''b'' \<lparr>segs = [[2], [7, 8]], fin = Open\<rparr> 0)]\<rparr>)) \<noteq> Ret ()"
proof -
  let ?p = "demo_peer ''b'' \<lparr>segs = [[2], [7, 8]], fin = Open\<rparr> 0"
  let ?s = "(demo_server aes_network)\<lparr>chord := Some (NewChordNode addr3000), peers := [(''b'', ?p)]\<rparr>"
  have "map_of (peers ?s) ''b'' = Some ?p" "fin (inp ?p) = Open" by simp_all
  from remote_store_never_completes [OF this] show ?thesis by blast
qed

text \<open>The answer to a request for a Chord file, with the byte that announces it.\<close>

definition chord_reply :: "string \<Rightarrow> bytes \<Rightarrow> bytes list" where
  "chord_reply name raw = [[IncomingStream], put_uint32 (length name), bytes_of name, raw]"

text \<open>A Chord node serves a file as it lies on its disk, that is encrypted; the node that asks
  parses the answer, but returns it only at the end of the connection, with the encrypted
  bytes as the file; as long as the connection is open it does not return.\<close>

theorem remote_get_serves_ciphertext:
  assumes "chord B \<noteq> None" and "has_entry e B cid raw md" and "map_of (peers B) a = Some p" and "broken p = None"
    and "length (MetaFileName md) \<le> 1000" and "content (inp q) = concat (chord_reply (MetaFileName md) raw)"
  shows "(\<exists>B' p'. handleMessageGetChordFile e a cid B = (Ret (), B') \<and> map_of (peers B') a = Some p' \<and>
      outp p' = outp p @ chord_reply (MetaFileName md) raw) \<and>
    (fin (inp q) = Open \<longrightarrow> fst (read_answer q) = Hang) \<and>
    (fin (inp q) = AtEOF \<longrightarrow> fst (read_answer q) = Ret (raw, MetaFileName md))"
proof (intro conjI)
  let ?name = "MetaFileName md"
  let ?p = "p\<lparr>outp := outp p @ chord_reply ?name raw\<rparr>"
  have "handleMessageGetChordFile e a cid B = (Ret (), B\<lparr>peers := AList.update a ?p (peers B)\<rparr>)"
    using assms(1,2,4)
    by (auto simp: handleMessageGetChordFile_def has_entry_def on_peer_first [OF assms(3)] assms(3)
        conn_write_def chord_reply_def)
  then show "\<exists>B' p'. handleMessageGetChordFile e a cid B = (Ret (), B') \<and> map_of (peers B') a = Some p' \<and>
      outp p' = outp p @ chord_reply ?name raw"
    by (intro exI [of _ "B\<lparr>peers := AList.update a ?p (peers B)\<rparr>"] exI [of _ ?p]) (simp add: update_conv')
next
  let ?name = "MetaFileName md"
  have c: "content (inp q) = IncomingStream # put_uint32 (length ?name) @ bytes_of ?name @ raw"
    using assms(6) by (simp add: chord_reply_def)
  obtain ss where r: "read 1 (inp q) = (Ret [IncomingStream], (inp q)\<lparr>segs := ss\<rparr>)"
    "concat ss = put_uint32 (length ?name) @ bytes_of ?name @ raw" by (rule read_one [OF c])
  let ?i1 = "(inp q)\<lparr>segs := ss\<rparr>"
  obtain x2 i2 where i2: "read_full 4 ?i1 = (x2, i2)" by (cases "read_full 4 ?i1")
  have x2: "x2 = Ret (put_uint32 (length ?name))" "content i2 = bytes_of ?name @ raw" "fin i2 = fin (inp q)"
    using fst_read_full [of 4 ?i1] snd_read_full [of 4 ?i1] i2 r(2) by simp_all
  have len: "get_uint32 (put_uint32 (length ?name)) = length ?name"
    by (rule get_put_uint32) (use assms(5) in simp)
  obtain x3 i3 where i3: "read_full (length ?name) i2 = (x3, i3)" by (cases "read_full (length ?name) i2")
  have x3: "x3 = Ret (bytes_of ?name)" "content i3 = raw" "fin i3 = fin (inp q)"
    using fst_read_full [of "length ?name" i2] snd_read_full [of "length ?name" i2] i3 x2(2,3) by simp_all
  have eq: "fst (read_answer q) =
      (case fst (read_all i3) of Ret d \<Rightarrow> Ret (d, ?name) | Fail er \<Rightarrow> Fail (Wrap ''error reading file data'' er)
       | Hang \<Rightarrow> Hang | Panic m \<Rightarrow> Panic m)"
    using r(1) i2 i3 x2(1) x3(1) assms(5) len
    by (simp add: read_answer_def conn_read_def read_full_peer_def read_all_peer_def andthen_def
        split: prod.split res.split)
  show "fin (inp q) = Open \<longrightarrow> fst (read_answer q) = Hang"
    using eq x3(3) by (simp add: read_all_Open)
  show "fin (inp q) = AtEOF \<longrightarrow> fst (read_answer q) = Ret (raw, ?name)"
    using eq x3(2,3) by (simp add: read_all_EOF)
qed

theorem remote_get_serves_ciphertext_witness:
  "fst (read_answer (demo_peer ''b'' \<lparr>segs = chord_reply ''a.txt'' (cipher_text demo_prims aes_network demo_iv [7, 8]),
      fin = AtEOF\<rparr> 0)) = Ret (cipher_text demo_prims aes_network demo_iv [7, 8], ''a.txt'')"
proof -
  let ?raw = "cipher_text demo_prims aes_network demo_iv [7, 8]" and ?md = "metadata_for demo_store ''cid1'' ''a.txt'' 0 0"
  let ?B = "demo_holder\<lparr>peers := [(''r'', demo_peer ''r'' \<lparr>segs = [], fin = Open\<rparr> 0)], chord := Some (NewChordNode addr3000)\<rparr>"
  let ?q = "demo_peer ''b'' \<lparr>segs = chord_reply ''a.txt'' ?raw, fin = AtEOF\<rparr> 0"
  have n: "MetaFileName ?md = ''a.txt''" by (simp add: metadata_for_def)
  have B: "chord ?B \<noteq> None" "has_entry demo_env ?B ''cid1'' ?raw ?md"
    "map_of (peers ?B) ''r'' = Some (demo_peer ''r'' \<lparr>segs = [], fin = Open\<rparr> 0)"
    "broken (demo_peer ''r'' \<lparr>segs = [], fin = Open\<rparr> 0) = None" "length (MetaFileName ?md) \<le> 1000"
    "content (inp ?q) = concat (chord_reply (MetaFileName ?md) ?raw)"
    using entry_cong [OF demo_holder_entry, of ?B] by (simp_all add: n)
  from remote_get_serves_ciphertext [OF B] show ?thesis by (simp add: n)
qed

section \<open>Lookups that never end\<close>

text \<open>C34: a request for a successor that the node cannot answer from its own tables is never answered:
  the handler waits in the message loop for a response that only the message loop could
  receive. With an exact connection to the next node it waits forever, else it fails.\<close>

theorem nested_lookup_never_answers:
  assumes "chord s = Some n" and "find_step n (set_bytes idb) = Ask c"
  shows "fst (handleMessageFindSuccessor e from idb fromAddr requestID s) \<noteq> Ret () \<and>
    (\<forall>p. map_of (peers s) (naddr c) = Some p \<and> broken p = None \<longrightarrow>
      fst (handleMessageFindSuccessor e from idb fromAddr requestID s) = Hang)"
proof -
  have f: "FindSuccessor e [] (set_bytes idb) s = findSuccessorRemote e [] (naddr c) (set_bytes idb) s"
    using assms by (simp add: FindSuccessor_def with_node_def)
  have "\<forall>r t. findSuccessorRemote e [] (naddr c) (set_bytes idb) s \<noteq> (Ret r, t)"
    by (auto simp: deferring_def elim!: andthen_RetE split: if_splits prod.splits res.splits)
  then have "fst (handleMessageFindSuccessor e from idb fromAddr requestID s) \<noteq> Ret ()"
    using assms(1) f
    by (cases "findSuccessorRemote e [] (naddr c) (set_bytes idb) s")
      (auto simp: handleMessageFindSuccessor_def andthen_def split: res.splits)
  moreover have "fst (handleMessageFindSuccessor e from idb fromAddr requestID s) = Hang"
    if p: "map_of (peers s) (naddr c) = Some p" "broken p = None" for p
    using assms(1) f p
    by (simp add: handleMessageFindSuccessor_def request_successor_def target_peer_def sendMessage_def
        on_peer_def send_frame_ok deferring_def register_request_def)
  ultimately show ?thesis by blast
qed

theorem nested_lookup_never_answers_witness:
  "fst (handleMessageFindSuccessor demo_env ''b'' [7] addr3000 ''r-1'' ((demo_server aes_network)\<lparr>
      chord := Some (demo_node addr5000 addr4000),
      peers := [(addr4000, demo_peer addr4000 \<lparr>segs = [], fin = Open\<rparr> 0)]\<rparr>)) = Hang"
proof -
  let ?n = "demo_node addr5000 addr4000" and ?p = "demo_peer addr4000 \<lparr>segs = [], fin = Open\<rparr> 0"
  let ?s = "(demo_server aes_network)\<lparr>chord := Some ?n, peers := [(addr4000, ?p)]\<rparr>"
  have "set_bytes [7] = 7" by (simp add: set_bytes_def)
  moreover have "closestPrecedingNode ?n 7 = ref_of addr4000"
  proof -
    have "isBetween (hashToNodeID addr4000) (hashToNodeID addr5000) 7 False"
      by (simp add: isBetween_def demo_positions)
    then have "closest_loop ?n 7 (Suc 159) = ref_of addr4000"
      by (simp only: closest_loop.simps) (simp add: demo_node_def M_def)
    moreover have "M = Suc 159" by (simp add: M_def)
    ultimately show ?thesis by (simp only: closestPrecedingNode_def)
  qed
  moreover have "\<not> isBetween 7 (hashToNodeID addr5000) (hashToNodeID addr4000) True"
    by (simp add: isBetween_def demo_positions)
  ultimately have "find_step ?n (set_bytes [7]) = Ask (ref_of addr4000)"
    by (simp add: find_step_def Let_def) (simp add: demo_node_def)
  moreover have "chord ?s = Some ?n" by simp
  ultimately show ?thesis
    using nested_lookup_never_answers [of ?s ?n "[7]" "ref_of addr4000"] by simp
qed

section \<open>Joining a ring\<close>

text \<open>A node that joins a ring of one node makes that node its successor and notifies it, and the
  notification makes the joining node both neighbours of the first one. The first node
  knows the connection under the address it came from, not under the address the other
  listens on, and as long as it has no connection under that one its stabilization does
  nothing.\<close>

theorem join_forms_pair:
  assumes "chord B = Some (NewChordNode b)" and "dialing e a = Connected p True" and "RemoteAddr p = a"
    and "broken p = None" and "a \<noteq> b" and "chord A = Some (Create (NewChordNode a))"
  shows "(\<exists>B' p'. Join e a B = (Ret (), B') \<and> chord B' = Some (join_state a (NewChordNode b)) \<and>
      map_of (peers B') a = Some p' \<and>
      outp p' = outp p @ [[IncomingMessage], gob_msg e (MessageNotify (int_bytes (hashToNodeID b)) b)]) \<and>
    (\<exists>A' n. handleMessage e' from (Some (MessageNotify (int_bytes (hashToNodeID b)) b)) A = (Ret (), A') \<and>
      chord A' = Some n \<and> self n = ref_of a \<and> successor n = Some (ref_of b) \<and> predecessor n = Some (ref_of b) \<and>
      transfers A' = transfers A + 1 \<and>
      (map_of (peers A) b = None \<longrightarrow> stabilize e' A' = (Ret (), A')))"
proof
  let ?m = "MessageNotify (int_bytes (hashToNodeID b)) b"
  let ?p = "p\<lparr>outp := outp p @ [[IncomingMessage], gob_msg e ?m]\<rparr>"
  let ?n = "NewChordNode b"
  have self: "self ?n = ref_of b" by (simp add: NewChordNode_def)
  let ?B = "B\<lparr>chord := Some (join_state a ?n), peers := AList.update a ?p (peers B)\<rparr>"
  have "join_state a (?n\<lparr>predecessor := None\<rparr>) = join_state a ?n" by (simp add: join_state_def)
  then have "Join e a B = (Ret (), ?B)"
    using assms(1-5) self
    by (simp add: Join_def with_node_def Dial_def OnPeer_def update_node_def sendNotify_def sendMessage_def
        on_peer_def send_frame_ok update_conv')
  then show "\<exists>B' p'. Join e a B = (Ret (), B') \<and> chord B' = Some (join_state a ?n) \<and>
      map_of (peers B') a = Some p' \<and> outp p' = outp p @ [[IncomingMessage], gob_msg e ?m]"
    by (intro exI [of _ ?B] exI [of _ ?p]) (simp add: update_conv')
next
  let ?n = "(Create (NewChordNode a))\<lparr>predecessor := Some (ref_of b), successor := Some (ref_of b)\<rparr>"
  let ?A = "A\<lparr>chord := Some ?n, transfers := transfers A + 1\<rparr>"
  have node: "node_of (int_bytes (hashToNodeID b)) b = ref_of b" by (simp add: node_of_def ref_of_def)
  have self: "self (Create (NewChordNode a)) = ref_of a" by (simp add: NewChordNode_def)
  have "handleMessage e' from (Some (MessageNotify (int_bytes (hashToNodeID b)) b)) A = (Ret (), ?A)"
    using assms(6) by (simp add: handleMessageNotify_def node notify_def Let_def Create_def NewChordNode_def)
  moreover have "stabilize e' ?A = (Ret (), ?A)" if "map_of (peers A) b = None"
    using that assms(5) self by (simp add: stabilize_def with_node_def)
  ultimately show "\<exists>A' n. handleMessage e' from (Some (MessageNotify (int_bytes (hashToNodeID b)) b)) A = (Ret (), A') \<and>
      chord A' = Some n \<and> self n = ref_of a \<and> successor n = Some (ref_of b) \<and> predecessor n = Some (ref_of b) \<and>
      transfers A' = transfers A + 1 \<and>
      (map_of (peers A) b = None \<longrightarrow> stabilize e' A' = (Ret (), A'))"
    using self by (intro exI [of _ ?A] exI [of _ ?n]) simp
qed

theorem join_forms_pair_witness:
  "\<exists>B'. Join (demo_env\<lparr>dialing := (\<lambda>x. Connected (demo_peer addr3000 \<lparr>segs = [], fin = Open\<rparr> 0) True)\<rparr>) addr3000
      ((demo_server aes_network)\<lparr>chord := Some (NewChordNode addr4000)\<rparr>) = (Ret (), B') \<and>
    chord B' = Some (join_state addr3000 (NewChordNode addr4000))"
proof -
  let ?p = "demo_peer addr3000 \<lparr>segs = [], fin = Open\<rparr> 0"
  let ?e = "demo_env\<lparr>dialing := (\<lambda>x. Connected ?p True)\<rparr>"
  let ?B = "(demo_server aes_network)\<lparr>chord := Some (NewChordNode addr4000)\<rparr>"
  let ?A = "(demo_server aes_network)\<lparr>chord := Some (Create (NewChordNode addr3000))\<rparr>"
  have "chord ?B = Some (NewChordNode addr4000)" "dialing ?e addr3000 = Connected ?p True" "RemoteAddr ?p = addr3000"
    "broken ?p = None" "addr3000 \<noteq> addr4000" "chord ?A = Some (Create (NewChordNode addr3000))"
    by simp_all
  from join_forms_pair [OF this] show ?thesis by blast
qed

section \<open>The node under its message loop\<close>

text \<open>Whatever messages a server handles, in whatever order and with whatever outcome, as long as they
  name nodes by the digest of their address its Chord node stays well-formed (a successor, 160
  fingers, all references proper) and keeps its identity.\<close>

theorem node_invariant:
  assumes "chord s = Some n" and "node_ok n"
    and "\<forall>rpc \<in> set rpcs. pred_option msg_ok (ungob_msg e (Payload rpc))"
  shows "\<exists>n'. chord (snd (loop e rpcs s)) = Some n' \<and> node_ok n' \<and> self n' = self n"
proof -
  have "sound (Some (self n)) s" using assms(1,2) by (simp add: sound_def)
  from sound_loop [OF this assms(3)] show ?thesis
    by (cases "chord (snd (loop e rpcs s))") (auto simp: sound_def)
qed

theorem node_invariant_witness:
  "\<exists>n. chord (snd (loop (demo_env\<lparr>ungob_msg := (\<lambda>bs. Some (MessageNotify (int_bytes (hashToNodeID addr4000)) addr4000))\<rparr>)
      [zero_RPC, zero_RPC] ((demo_server aes_network)\<lparr>chord := Some (Create (NewChordNode addr3000))\<rparr>))) = Some n \<and> node_ok n"
proof -
  let ?s = "(demo_server aes_network)\<lparr>chord := Some (Create (NewChordNode addr3000))\<rparr>"
  let ?e = "demo_env\<lparr>ungob_msg := (\<lambda>bs. Some (MessageNotify (int_bytes (hashToNodeID addr4000)) addr4000))\<rparr>"
  have "chord ?s = Some (Create (NewChordNode addr3000))" "node_ok (Create (NewChordNode addr3000))"
    "\<forall>rpc \<in> set [zero_RPC, zero_RPC]. pred_option msg_ok (ungob_msg ?e (Payload rpc))"
    by (simp_all add: Create_ok NewChordNode_ok)
  from node_invariant [OF this] show ?thesis by blast
qed

section \<open>A node that is alone\<close>

lemma StoreChord_alone:
  assumes "chord s = Some n" and "successor n = Some (self n)" and "fin r = AtEOF"
    and "srv_write e (hex (sha1 (content r))) key (buffer (content r)) 0 0 s = (Ret k, s1)" and "chord s1 = chord s"
  shows "StoreChord e replies key r s =
    (Ret (hex (sha1 (content r))),
     s1\<lparr>chord := Some (n\<lparr>responsibles := List.insert (hex (sha1 (content r))) (responsibles n)\<rparr>)\<rparr>)"
  using assms
  by (simp add: StoreChord_def StoreFile_def place_file_def take_responsible_def with_node_def GenerateCID_def read_all_EOF update_node_def)

text \<open>C32: a Chord node that is alone in its ring, with a usable cipher and connections that work, stores a
  file under the digest of its content, becomes responsible for it, and returns it with its
  name; deleted, the file is gone from its disk and its list, and fetching it is the error that
  no such file was found.\<close>

theorem chord_local_roundtrip:
  assumes "good_server e s" and "chord s = Some n" and "successor n = Some (self n)" and "fin r = AtEOF"
    and "\<forall>x \<in> set (peers s). broken (snd x) = None"
  shows "\<exists>s1 n1 s2 n2. StoreChord e replies key r s = (Ret (hex (sha1 (content r))), s1) \<and>
    chord s1 = Some n1 \<and> hex (sha1 (content r)) \<in> set (responsibles n1) \<and>
    GetChord e replies (hex (sha1 (content r))) s1 = (Ret (content r, key), s1) \<and>
    DeleteChord e replies (hex (sha1 (content r))) s1 = (Ret (), s2) \<and>
    chord s2 = Some n2 \<and> hex (sha1 (content r)) \<notin> set (responsibles n2) \<and>
    GetChord e replies (hex (sha1 (content r))) s2 = (Fail ErrFileNotFound, s2)"
proof -
  let ?d = "content r" and ?cid = "hex (sha1 (content r))"
  have cid: "plain ?cid" by (rule plain_hex) simp
  obtain s1 where w: "srv_write e ?cid key (buffer ?d) 0 0 s = (Ret (cipher_count (net s) ?d), s1)"
    and s1: "net s1 = net s" "chord s1 = chord s" "good_server e s1" "peers s1 = peers s"
      "has_entry e s1 ?cid (cipher_text (prims (elib e)) (net s) (rnd e (drawn s) 16) ?d) (metadata_for (fstore s) ?cid key 0 0)"
    using srv_write_entry [OF assms(1) cid, of key ?d 0 0] by blast
  let ?n = "n\<lparr>responsibles := List.insert ?cid (responsibles n)\<rparr>"
  let ?s = "s1\<lparr>chord := Some ?n\<rparr>"
  have st: "StoreChord e replies key r s = (Ret ?cid, ?s)"
    by (rule StoreChord_alone [OF assms(2-4) w s1(2)])
  have en: "has_entry e ?s ?cid (cipher_text (prims (elib e)) (net ?s) (rnd e (drawn s) 16) ?d) (metadata_for (fstore s) ?cid key 0 0)"
    using entry_cong [OF s1(5), of ?s] s1(1) by simp
  have g: "good_server e ?s" by (rule good_server_cong [OF s1(3)]) simp_all
  have "srv_read e ?s ?cid = Ret (cipher_count (net ?s) ?d, ?d, metadata_for (fstore s) ?cid key 0 0)"
    by (rule entry_decrypts [OF en g good_serverD(5) [OF assms(1)]])
  moreover have "srv_has ?s ?cid" using en by (simp add: has_entry_def)
  ultimately have get: "GetChord e replies ?cid ?s = (Ret (?d, key), ?s)"
    by (simp add: GetChord_def GetFile_def with_node_def named_file_def metadata_for_def)
  let ?n2 = "?n\<lparr>responsibles := removeAll ?cid (responsibles ?n)\<rparr>"
  have "good_server e (?s\<lparr>chord := Some ?n2\<rparr>)" by (rule good_server_cong [OF g]) simp_all
  from Remove_good [OF this cid] assms(5) s1(4)
  obtain s2 where s2: "Remove e ?cid (?s\<lparr>chord := Some ?n2\<rparr>) = (Ret (), s2)" "\<not> srv_has s2 ?cid" "chord s2 = Some ?n2"
    by auto
  have alone: "find_step m k = Answer (self m)" if "successor m = Some (self m)" for m k
    using that by (simp add: find_step_def)
  have "DeleteChord e replies ?cid ?s = (Ret (), s2)"
    using s2(1) assms(3) alone [of ?n]
    by (simp add: DeleteChord_def DeleteFile_def route_delete_def with_node_def FindSuccessor_def drop_responsible_def)
  moreover have "GetChord e replies ?cid s2 = (Fail ErrFileNotFound, s2)"
    using s2(2,3) assms(3) alone [of ?n2] by (simp add: GetChord_def GetFile_def with_node_def FindSuccessor_def)
  ultimately show ?thesis using st get s2(3)
    by (intro exI [of _ ?s] exI [of _ ?n] exI [of _ s2] exI [of _ ?n2]) simp
qed

theorem chord_local_roundtrip_witness:
  "\<exists>s1 s2. StoreChord demo_env [] ''a.txt'' (buffer [7, 8]) (InitChord (demo_server aes_network)) = (Ret (hex (sha1 [7, 8])), s1) \<and>
    GetChord demo_env [] (hex (sha1 [7, 8])) s1 = (Ret ([7, 8], ''a.txt''), s1) \<and>
    DeleteChord demo_env [] (hex (sha1 [7, 8])) s1 = (Ret (), s2) \<and>
    GetChord demo_env [] (hex (sha1 [7, 8])) s2 = (Fail ErrFileNotFound, s2)"
proof -
  let ?n = "Create (NewChordNode ''127.0.0.1:3000'')"
  have g: "good_server demo_env (InitChord (demo_server aes_network))"
    by (rule good_server_cong [OF demo_server_good(1)]) (simp_all add: InitChord_def)
  have "chord (InitChord (demo_server aes_network)) = Some ?n" "successor ?n = Some (self ?n)"
    by (simp_all add: InitChord_def Create_def)
  moreover have "\<forall>x \<in> set (peers (InitChord (demo_server aes_network))). broken (snd x) = None" by (simp add: InitChord_def)
  ultimately show ?thesis
    using chord_local_roundtrip [OF g _ _ fin_buffer [of "[7, 8]"], of ?n "[]" "''a.txt''"] by auto
qed

text \<open>C36: a node that starts its own ring in Chord mode has no encryption configured: it accepts every file, reports its id,
  and cannot return any of them.\<close>

theorem chord_mode_loses_files:
  assumes "Architecture c = ''chord''" and "JoinAddr c = []" and "lib_ok (elib e)" and "fin r = AtEOF"
    and "store_inv 8 (NewStore (ListenAddr c @ ''_chord_network'') (Some CASPathTransformFunc)) d"
  shows "\<exists>s s1. StartServer e None c d = (Ret (), s) \<and>
    StoreChord e replies key r s = (Ret (hex (sha1 (content r))), s1) \<and>
    GetChord e replies (hex (sha1 (content r))) s1 = (Fail EOF, s1)"
proof -
  let ?cid = "hex (sha1 (content r))"
  let ?st = "NewStore (ListenAddr c @ ''_chord_network'') (Some CASPathTransformFunc)"
  let ?n = "Create (NewChordNode (ListenAddr c))"
  let ?s0 = "NewFileServer (ListenAddr c) (ListenAddr c @ ''_chord_network'') (Some CASPathTransformFunc) d"
  let ?s = "?s0\<lparr>chord := Some ?n\<rparr>"
  have start: "StartServer e None c d = (Ret (), ?s)"
    using assms(1,2) by (simp add: StartServer_def InitializeNetwork_def InitChord_def NewFileServer_def)
  have cid: "plain ?cid" by (rule plain_hex) simp
  have T: "PathTransform ?st = CASPathTransformFunc" by (simp add: NewStore_def)
  have z: "EncType zero_network \<notin> {''AES'', ''CC20'', ''None''}" by (simp add: zero_network_def)
  note lost = unset_cipher_effect [OF z assms(3) T assms(5) cid]
  let ?s1 = "?s\<lparr>fdisk := stored ?st ?cid [] [] d, drawn := 2\<rparr>"
  have "srv_write e ?cid key (buffer (content r)) 0 0 ?s = (Ret 0, ?s1)"
    using lost(1) by (simp add: srv_write_def NewFileServer_def)
  from StoreChord_alone [OF _ _ assms(4) this]
  have st: "StoreChord e replies key r ?s = (Ret ?cid, ?s1\<lparr>chord := Some (?n\<lparr>responsibles := List.insert ?cid (responsibles ?n)\<rparr>)\<rparr>)"
    by (simp add: Create_def)
  let ?s2 = "?s1\<lparr>chord := Some (?n\<lparr>responsibles := List.insert ?cid (responsibles ?n)\<rparr>)\<rparr>"
  have "GetChord e replies ?cid ?s2 = (Fail EOF, ?s2)"
    using lost(2,4) by (simp add: GetChord_def GetFile_def with_node_def srv_has_def srv_read_def named_file_def NewFileServer_def)
  with start st show ?thesis by blast
qed

theorem chord_mode_loses_files_witness:
  "\<exists>s s1. StartServer demo_env None default_config demo_disk = (Ret (), s) \<and>
    StoreChord demo_env [] ''a.txt'' (buffer [7, 8]) s = (Ret (hex (sha1 [7, 8])), s1) \<and>
    GetChord demo_env [] (hex (sha1 [7, 8])) s1 = (Fail EOF, s1)"
proof -
  have "store_inv 8 (NewStore (ListenAddr default_config @ ''_chord_network'') (Some CASPathTransformFunc)) demo_disk"
    using demo_wf by (simp add: store_inv_def base_def NewStore_def default_config_def plain_def) (simp add: demo_disk_def)
  from chord_mode_loses_files [OF _ _ _ fin_buffer [of "[7, 8]"] this, of demo_env "[]" "''a.txt''"] show ?thesis
    by (simp add: default_config_def demo_lib_ok)
qed

section \<open>The API and the start of a node\<close>

lemma api_roundtrip_effect:
  assumes "good_server e s" and "\<not> Split (net s)" and "Architecture c = ''mesh''"
    and "\<forall>x \<in> set (peers s). broken (snd x) = None"
    and "Method r = ''POST''" and "form_error r = None" and "form_file r = Inr (name, file)" and "fin file = AtEOF"
    and "Method q = ''GET''" and "query_cid q = hex (sha1 (content file))"
  shows "\<exists>s1. api e c replies ''/api/store'' r s =
      (Ret (Object [(''cid'', JString (hex (sha1 (content file)))), (''filename'', JString name),
         (''status'', JString ''success'')]), s1) \<and>
    api e c replies ''/api/retrieve'' q s1 = (Ret (Download (base_name name) (content file)), s1)"
proof -
  let ?cid = "hex (sha1 (content file))"
  obtain s1 where st: "storeAll e name file s = (Ret ?cid, s1)" and s1: "net s1 = net s" "srv_has s1 ?cid"
    "srv_read e s1 ?cid = Ret (cipher_count (net s) (content file), content file, metadata_for (fstore s) ?cid name 0 0)"
    using storeAll_effect [OF assms(1,8,4)] by blast
  have "?cid \<noteq> []" using plain_hex [of "sha1 (content file)"] by (auto simp: plain_def)
  then have "api e c replies ''/api/retrieve'' q s1 = (Ret (Download (base_name name) (content file)), s1)"
    using s1 assms(2,3,9,10)
    by (simp add: api_def handleAPIRetrieve_def api_error_def Get_def getAll_def named_file_def metadata_for_def)
  moreover have "api e c replies ''/api/store'' r s =
      (Ret (Object [(''cid'', JString ?cid), (''filename'', JString name), (''status'', JString ''success'')]), s1)"
    using st assms(2,3,5-7) by (simp add: api_def handleAPIStore_def api_error_def StoreFileMesh_def)
  ultimately show ?thesis by blast
qed



lemma dial_nodes_net [simp]: "net (dial_nodes e ns l a s) = net s"
  by (induction e ns l a s rule: dial_nodes.induct) (simp_all add: Dial_def OnPeer_def split: dial_result.split)

text \<open>C38: a mesh node that joins through another makes up a cipher, a key and a node list of its own and
  sends them; the node it joins takes them over in place of its own configuration, whatever
  that was.\<close>

theorem join_overwrites_network:
  assumes "Architecture c = ''mesh''" and "JoinAddr c \<noteq> []" and "dialing e (JoinAddr c) = Connected p True"
    and "RemoteAddr p \<noteq> []" and "broken p = None"
    and "n = \<lparr>EncType = Encryption c, EncKey = rnd e 0 32, Nonce = rnd e 1 12,
      Nodes = [ListenAddr c, JoinAddr c], Split = csplit c\<rparr>"
    and "map_of (peers A) from \<noteq> None"
  shows "\<exists>B. StartServer e None c d = (Ret (), B) \<and> net B = n \<and>
    (\<exists>q. map_of (peers B) (RemoteAddr p) = Some q \<and>
      outp q = outp p @ [[IncomingMessage], gob_msg e (MessageAddFile (RemoteAddr p) (ListenAddr c) n)]) \<and>
    (\<exists>A'. handleMessage e' from (Some (MessageAddFile (RemoteAddr p) (ListenAddr c) n)) A = (Ret (), A') \<and>
      net A' = n)"
proof -
  let ?m = "MessageAddFile (RemoteAddr p) (ListenAddr c) n"
  let ?p = "p\<lparr>outp := outp p @ [[IncomingMessage], gob_msg e ?m]\<rparr>"
  let ?s = "(NewFileServer (ListenAddr c) (ListenAddr c @ ''_mesh_network'') (Some CASPathTransformFunc) d)
    \<lparr>net := n, drawn := 2\<rparr>"
  let ?B = "?s\<lparr>peers := [(RemoteAddr p, ?p)]\<rparr>"
  have "StartServer e None c d = (Ret (), ?B)"
    using assms(1-6)
    by (simp add: StartServer_def InitializeNetwork_def Add_def Dial_def OnPeer_def NewFileServer_def
        broadcast_def sendMessage_def on_peer_def send_frame_ok Let_def)
  moreover obtain A' where "handleMessage e' from (Some ?m) A = (Ret (), A')" "net A' = n"
    using assms(4,7) by (auto simp: handleMessageAddFile_def Let_def)
  ultimately show ?thesis by (intro exI [of _ ?B]) simp
qed

theorem join_overwrites_network_witness:
  "\<exists>A'. handleMessage demo_env ''b'' (Some (MessageAddFile addr3000 addr4000
      \<lparr>EncType = ''CC20'', EncKey = replicate 32 0, Nonce = replicate 12 1, Nodes = [addr4000, addr3000], Split = True\<rparr>))
      ((demo_server aes_network)\<lparr>peers := [(''b'', demo_peer ''b'' \<lparr>segs = [], fin = Open\<rparr> 0)]\<rparr>) = (Ret (), A') \<and>
    EncType (net A') = ''CC20''"
proof -
  let ?c = "\<lparr>Architecture = ''mesh'', Encryption = ''CC20'', csplit = True, JoinAddr = addr3000,
    ListenAddr = addr4000, APIPort = 8080\<rparr>"
  let ?p = "demo_peer addr3000 \<lparr>segs = [], fin = Open\<rparr> 0"
  let ?e = "demo_env\<lparr>dialing := (\<lambda>x. Connected ?p True)\<rparr>"
  let ?A = "(demo_server aes_network)\<lparr>peers := [(''b'', demo_peer ''b'' \<lparr>segs = [], fin = Open\<rparr> 0)]\<rparr>"
  have ne: "addr3000 \<noteq> []" by (simp add: addr3000_def)
  have "Architecture ?c = ''mesh''" "JoinAddr ?c \<noteq> []" "dialing ?e (JoinAddr ?c) = Connected ?p True"
    "RemoteAddr ?p \<noteq> []" "broken ?p = None" "map_of (peers ?A) ''b'' \<noteq> None"
    using ne by simp_all
  from join_overwrites_network [OF this(1-5) refl this(6), where e' = demo_env and d = demo_disk] show ?thesis
    by (auto simp: ne)
qed

end
