(* ===== verification/Network_Props.thy ===== *)
theory Network_Props
  imports Server_Props
begin

text \<open>
  Properties of the network of a server: what a connection that has broken does to the
  operations, how connections are accepted, and that the configurations the program accepts
  start a mesh node that stores and serves files.
\<close>

section \<open>Broken connections\<close>

lemma broadcast_loop_broken:
  assumes "\<forall>x \<in> set ps. broken (snd x) = None" and "broken p = Some er"
  shows "broadcast_loop buf (ps @ (a, p) # qs) = (Fail er, map (sent [[IncomingMessage], buf]) ps @ (a, p) # qs)"
  using assms(1)
proof (induction ps)
  case Nil
  then show ?case using assms(2) by (simp add: send_frame_broken)
next
  case (Cons x ps)
  then show ?case by (cases x) (simp add: send_frame_ok sent_def)
qed



section \<open>Accepting connections\<close>

text \<open>The accept loop registers the connections in order, ends with the listener, and panics on an error.\<close>

lemma accept_loop:
  "startAcceptLoop (map Accepted ps @ as) s = startAcceptLoop as (fold (\<lambda>p s. snd (OnPeer p s)) ps s)"
  by (induction ps arbitrary: s) (simp_all add: OnPeer_def)

lemma accepted_peers:
  "map_of (peers (fold (\<lambda>p s. snd (OnPeer p s)) ps s)) a =
    (case find (\<lambda>p. RemoteAddr p = a) (rev ps) of None \<Rightarrow> map_of (peers s) a | Some p \<Rightarrow> Some p)"
  by (induction ps rule: rev_induct) (auto simp: OnPeer_def update_conv')

text \<open>The accept loop registers every connection under its remote address, the last one of an address
  replacing those before; it returns when the listener is closed, and an error of \<open>Accept\<close>,
  which it only means to print, ends the process.\<close>

theorem accept_loop_registers:
  "map_of (peers (snd (startAcceptLoop (map Accepted ps @ ListenerClosed # as) s))) a =
      (case find (\<lambda>p. RemoteAddr p = a) (rev ps) of None \<Rightarrow> map_of (peers s) a | Some p \<Rightarrow> Some p) \<and>
    fst (startAcceptLoop (map Accepted ps @ ListenerClosed # as) s) = Ret () \<and>
    fst (startAcceptLoop (map Accepted ps @ AcceptFailed er # as) s) = Panic ''nil pointer dereference''"
  by (simp add: accept_loop accepted_peers)

section \<open>Starting a mesh\<close>

text \<open>C15: whatever flags the program accepts for a first mesh node without splitting, the node it starts has
  a usable cipher with keys of the right size, and over HTTP an uploaded file comes back under
  the id that the upload has returned.\<close>

theorem accepted_config_serves:
  assumes "ParseConfig c = Ret (c', warning)" and "Architecture c = ''mesh''" and "JoinAddr c = []" and "\<not> csplit c"
    and "good_env e" and "store_inv 8 (NewStore (ListenAddr c @ ''_mesh_network'') (Some CASPathTransformFunc)) d"
    and "Method r = ''POST''" and "form_error r = None" and "form_file r = Inr (name, file)" and "fin file = AtEOF"
    and "Method q = ''GET''" and "query_cid q = hex (sha1 (content file))"
  shows "\<exists>s s1. main_node e None c d = Ret s \<and> usable (net s) \<and>
    api e c replies ''/api/store'' r s =
      (Ret (Object [(''cid'', JString (query_cid q)), (''filename'', JString name), (''status'', JString ''success'')]), s1) \<and>
    api e c replies ''/api/retrieve'' q s1 = (Ret (Download (base_name name) (content file)), s1)"
proof -
  let ?n = "\<lparr>EncType = Encryption c, EncKey = rnd e 0 32, Nonce = rnd e 1 12, Nodes = [ListenAddr c], Split = False\<rparr>"
  let ?s = "(NewFileServer (ListenAddr c) (ListenAddr c @ ''_mesh_network'') (Some CASPathTransformFunc) d)
    \<lparr>net := ?n, drawn := 2\<rparr>"
  have c: "c' = c" "Encryption c \<in> {''AES'', ''CC20'', ''None''}"
    using assms(1,2) by (auto simp: ParseConfig_def split: if_splits)
  have "length (rnd e i k) = k" for i k using assms(5) by (simp add: good_env_def)
  then have u: "usable ?n" using c(2) by (auto simp: usable_def)
  have start: "main_node e None c d = Ret ?s"
    using assms(1-4) c(1) by (simp add: main_node_def StartServer_def InitializeNetwork_def NewFileServer_def)
  have "good_server e ?s"
    using assms(5,6) u by (simp add: good_server_def good_env_def good_store_def NewFileServer_def NewStore_def)
  moreover have "\<not> Split (net ?s)" "\<forall>x \<in> set (peers ?s). broken (snd x) = None" by (simp_all add: NewFileServer_def)
  ultimately obtain s1 where "api e c replies ''/api/store'' r ?s =
      (Ret (Object [(''cid'', JString (query_cid q)), (''filename'', JString name), (''status'', JString ''success'')]), s1)"
    "api e c replies ''/api/retrieve'' q s1 = (Ret (Download (base_name name) (content file)), s1)"
    using api_roundtrip_effect [OF _ _ assms(2) _ assms(7-12), of e ?s replies] assms(12) by auto
  with start u show ?thesis by (intro exI [of _ ?s] exI [of _ s1]) simp
qed

theorem accepted_config_serves_witness:
  "\<exists>s s1 r q. main_node demo_env None (default_config\<lparr>Architecture := ''mesh''\<rparr>) demo_disk = Ret s \<and>
    api demo_env (default_config\<lparr>Architecture := ''mesh''\<rparr>) [] ''/api/retrieve'' q s1 = (Ret (Download ''a.txt'' [7, 8]), s1) \<and>
    fst (api demo_env (default_config\<lparr>Architecture := ''mesh''\<rparr>) [] ''/api/store'' r s) =
      Ret (Object [(''cid'', JString (query_cid q)), (''filename'', JString ''a.txt''), (''status'', JString ''success'')])"
proof -
  let ?c = "default_config\<lparr>Architecture := ''mesh''\<rparr>"
  let ?r = "\<lparr>Method = ''POST'', form_error = None, form_file = Inr (''a.txt'', buffer [7, 8]), query_cid = [], form_cid = []\<rparr>"
  let ?q = "\<lparr>Method = ''GET'', form_error = None, form_file = Inl EOF, query_cid = hex (sha1 [7, 8]), form_cid = []\<rparr>"
  have inv: "store_inv 8 (NewStore (ListenAddr ?c @ ''_mesh_network'') (Some CASPathTransformFunc)) demo_disk"
    using demo_wf by (simp add: store_inv_def base_def NewStore_def default_config_def plain_def) (simp add: demo_disk_def)
  have "ParseConfig ?c = Ret (?c, False)"
    by (simp add: ParseConfig_def default_config_def isFirstNode_def suffix_def)
  moreover have "base_name ''a.txt'' = ''a.txt''" by (simp add: base_name_def)
  ultimately obtain s s1 where "main_node demo_env None ?c demo_disk = Ret s"
    "api demo_env ?c [] ''/api/store'' ?r s = (Ret (Object [(''cid'', JString (query_cid ?q)),
       (''filename'', JString ''a.txt''), (''status'', JString ''success'')]), s1)"
    "api demo_env ?c [] ''/api/retrieve'' ?q s1 = (Ret (Download ''a.txt'' [7, 8]), s1)"
    using accepted_config_serves [OF _ _ _ _ demo_env_good inv, of ?c False ?r "''a.txt''" "buffer [7, 8]" ?q "[]"]
      fin_buffer [of "[7, 8]"]
    by (auto simp: default_config_def)
  then show ?thesis by (intro exI [of _ s] exI [of _ s1] exI [of _ ?r] exI [of _ ?q]) simp
qed

section \<open>Two nodes\<close>

text \<open>Two nodes become a ring. One joins the other and notifies it, which makes it both neighbours
  of the other; the other's check of its predecessor then opens the connection under the
  address the first listens on, over which its stabilization asks and notifies; and that
  notification gives the first its predecessor.\<close>

theorem pair_converges:
  assumes "chord B = Some (NewChordNode b)" and "dialing e a = Connected p True" and "RemoteAddr p = a"
    and "broken p = None" and "a \<noteq> b" and "chord A = Some (Create (NewChordNode a))" and "map_of (peers A) b = None"
    and "dialing e' b = Connected q True" and "RemoteAddr q = b" and "broken q = None"
  shows "\<exists>B1 A1 A2 A3 B2. Join e a B = (Ret (), B1) \<and>
    handleMessage e' from (Some (MessageNotify (int_bytes (hashToNodeID b)) b)) A = (Ret (), A1) \<and>
    checkPredecessor e' A1 = (Ret (), A2) \<and> stabilize e' A2 = (Ret (), A3) \<and>
    (\<exists>q'. map_of (peers A3) b = Some q' \<and> outp q' = outp q @
      [[IncomingMessage], gob_msg e' (MessageGetPredecessor a),
       [IncomingMessage], gob_msg e' (MessageNotify (int_bytes (hashToNodeID a)) a)]) \<and>
    handleMessage e from' (Some (MessageNotify (int_bytes (hashToNodeID a)) a)) B1 = (Ret (), B2) \<and>
    (\<exists>m n. chord A3 = Some m \<and> successor m = Some (ref_of b) \<and> predecessor m = Some (ref_of b) \<and>
      chord B2 = Some n \<and> successor n = Some (ref_of a) \<and> predecessor n = Some (ref_of a))"
proof -
  have self: "self (NewChordNode x) = ref_of x" "self (Create (NewChordNode x)) = ref_of x" for x
    by (simp_all add: NewChordNode_def)
  have node: "node_of (int_bytes (hashToNodeID x)) x = ref_of x" for x by (simp add: node_of_def ref_of_def)
  let ?mb = "MessageNotify (int_bytes (hashToNodeID b)) b" and ?ma = "MessageNotify (int_bytes (hashToNodeID a)) a"
  have "join_state a ((NewChordNode b)\<lparr>predecessor := None\<rparr>) = join_state a (NewChordNode b)" by (simp add: join_state_def)
  then obtain B1 where B1: "Join e a B = (Ret (), B1)" "chord B1 = Some (join_state a (NewChordNode b))"
    using assms(1-5) self
    by (simp add: Join_def with_node_def Dial_def OnPeer_def update_node_def sendNotify_def sendMessage_def
        on_peer_def send_frame_ok update_conv')
  let ?m = "(Create (NewChordNode a))\<lparr>predecessor := Some (ref_of b), successor := Some (ref_of b)\<rparr>"
  let ?A1 = "A\<lparr>chord := Some ?m, transfers := transfers A + 1\<rparr>"
  have A1: "handleMessage e' from (Some ?mb) A = (Ret (), ?A1)"
    using assms(6) by (simp add: handleMessageNotify_def node notify_def Let_def Create_def NewChordNode_def)
  let ?A2 = "?A1\<lparr>peers := AList.update b q (peers A)\<rparr>"
  have A2: "checkPredecessor e' ?A1 = (Ret (), ?A2)"
    using assms(7-9) by (simp add: checkPredecessor_def with_node_def Dial_def OnPeer_def)
  let ?q = "q\<lparr>outp := outp q @ [[IncomingMessage], gob_msg e' (MessageGetPredecessor a), [IncomingMessage], gob_msg e' ?ma]\<rparr>"
  let ?A3 = "?A1\<lparr>peers := AList.update b ?q (peers A)\<rparr>"
  have A3: "stabilize e' ?A2 = (Ret (), ?A3)"
    using assms(5,10) self
    by (simp add: stabilize_def with_node_def sendMessage_def on_peer_def send_frame_ok update_conv')
  let ?n = "(join_state a (NewChordNode b))\<lparr>predecessor := Some (ref_of a)\<rparr>"
  have "notify (ref_of a) (join_state a (NewChordNode b)) = (?n, True)"
    using assms(5) by (simp add: notify_def join_state_def NewChordNode_def Let_def)
  then have B2: "handleMessage e from' (Some ?ma) B1 = (Ret (), B1\<lparr>chord := Some ?n, transfers := transfers B1 + 1\<rparr>)"
    using B1(2) by (simp add: handleMessageNotify_def node)
  have "map_of (peers ?A3) b = Some ?q" by (simp add: update_conv')
  moreover have "successor ?n = Some (ref_of a)" by (simp add: join_state_def)
  ultimately show ?thesis using B1(1) A1 A2 A3 B2
    by (intro exI [of _ B1] exI [of _ ?A1] exI [of _ ?A2] exI [of _ ?A3]
        exI [of _ "B1\<lparr>chord := Some ?n, transfers := transfers B1 + 1\<rparr>"]) simp
qed

theorem pair_converges_witness:
  "\<exists>A1 A2 A3. handleMessage (demo_env\<lparr>dialing := (\<lambda>x. Connected (demo_peer x \<lparr>segs = [], fin = Open\<rparr> 0) True)\<rparr>) ''c''
      (Some (MessageNotify (int_bytes (hashToNodeID addr4000)) addr4000))
      ((demo_server aes_network)\<lparr>chord := Some (Create (NewChordNode addr3000))\<rparr>) = (Ret (), A1) \<and>
    checkPredecessor (demo_env\<lparr>dialing := (\<lambda>x. Connected (demo_peer x \<lparr>segs = [], fin = Open\<rparr> 0) True)\<rparr>) A1 = (Ret (), A2) \<and>
    stabilize (demo_env\<lparr>dialing := (\<lambda>x. Connected (demo_peer x \<lparr>segs = [], fin = Open\<rparr> 0) True)\<rparr>) A2 = (Ret (), A3) \<and>
    (\<exists>m. chord A3 = Some m \<and> successor m = Some (ref_of addr4000))"
proof -
  let ?d = "\<lambda>x. Connected (demo_peer x \<lparr>segs = [], fin = Open\<rparr> 0) True"
  let ?e = "demo_env\<lparr>dialing := ?d\<rparr>"
  let ?B = "(demo_server aes_network)\<lparr>chord := Some (NewChordNode addr4000)\<rparr>"
  let ?A = "(demo_server aes_network)\<lparr>chord := Some (Create (NewChordNode addr3000))\<rparr>"
  have "chord ?B = Some (NewChordNode addr4000)" "dialing ?e addr3000 = ?d addr3000"
    "RemoteAddr (demo_peer addr3000 \<lparr>segs = [], fin = Open\<rparr> 0) = addr3000"
    "broken (demo_peer addr3000 \<lparr>segs = [], fin = Open\<rparr> 0) = None" "addr3000 \<noteq> addr4000"
    "chord ?A = Some (Create (NewChordNode addr3000))" "map_of (peers ?A) addr4000 = None"
    "dialing ?e addr4000 = ?d addr4000" "RemoteAddr (demo_peer addr4000 \<lparr>segs = [], fin = Open\<rparr> 0) = addr4000"
    "broken (demo_peer addr4000 \<lparr>segs = [], fin = Open\<rparr> 0) = None"
    by simp_all
  from pair_converges [OF this, of "''c''"] show ?thesis by blast
qed

end
