(* ===== verification/Replication.thy ===== *)
theory Replication
  imports Server_Props
begin

text \<open>
  A file on its way from one node to another: what \<open>storeAll\<close> writes to a connection, what the
  read loop of the other end makes of it, and what the message loop then does.
\<close>

section \<open>The read loop on the writes of a store\<close>

text \<open>A message in either form, the byte of a stream, and its data.\<close>

lemma announced_stream_run:
  assumes "inp q = \<lparr>segs = frame (joined, msg) @ [IncomingStream] # chunk c, fin = en\<rparr>" and "wg q = 0"
    and "msg \<noteq> []" and "length msg \<le> 2048"
  defines "q1 \<equiv> q\<lparr>inp := \<lparr>segs = [] # chunk c, fin = en\<rparr>, wg := 1\<rparr>"
  shows "\<exists>c'. loop_runs (open_conn q) c' \<and> cpeer c' = q1 \<and> phase c' = InStream \<and> (\<nexists>d. loop_step c' d) \<and>
    rpcch c' = [\<lparr>From = RemoteAddr q, Payload = msg, Stream = False\<rparr>]"
proof -
  let ?rpc = "\<lparr>From = RemoteAddr q, Payload = msg, Stream = False\<rparr>"
  let ?i = "\<lparr>segs = [] # [IncomingStream] # chunk c, fin = en\<rparr>"
  let ?c = "(set_inp ?i (open_conn q))\<lparr>phase := Reading, put := [?rpc], rpcch := [?rpc]\<rparr>"
  have "Decode (inp q) zero_RPC = (Ret (zero_RPC\<lparr>Payload := msg\<rparr>), ?i)"
    using Decode_frame_step [of "(joined, msg)" "[IncomingStream] # chunk c" en] assms(1,3,4) by simp
  then have "loop_runs (open_conn q) ?c"
    using decode_run [of "open_conn q" "zero_RPC\<lparr>Payload := msg\<rparr>" ?i] by (simp add: zero_RPC_def rpcch_cap_def)
  moreover have "Decode ?i zero_RPC = (Ret (zero_RPC\<lparr>Stream := True\<rparr>), \<lparr>segs = [] # chunk c, fin = en\<rparr>)"
    using Decode_stream [of "[]" "chunk c" en zero_RPC] by (simp add: Decode_skip)
  then have "loop_step ?c (?c\<lparr>cpeer := q1, phase := InStream\<rparr>)"
    using decode_stream_run [of ?c "zero_RPC\<lparr>Stream := True\<rparr>" "\<lparr>segs = [] # chunk c, fin = en\<rparr>"] assms(2)
    by (simp add: q1_def zero_RPC_def)
  ultimately have "loop_runs (open_conn q) (?c\<lparr>cpeer := q1, phase := InStream\<rparr>)" by (rule rtranclp.rtrancl_into_rtrancl)
  moreover have "0 < wg q1" by (simp add: q1_def)
  ultimately show ?thesis
    by (intro exI [of _ "?c\<lparr>cpeer := q1, phase := InStream\<rparr>"]) (simp add: rests_in_stream)
qed

section \<open>Replication\<close>

text \<open>The node at the other end: read loop, message loop, store, and the read loop again.\<close>

lemma replica_arrives:
  assumes "good_server e B" and "plain cid" and "ungob_msg e m = Some (MessageStoreFile cid key 0 0 (int (length c)))"
    and "m \<noteq> []" and "length m \<le> 2048" and "RemoteAddr q = a" and "wg q = 0"
    and "inp q = \<lparr>segs = frame (joined, m) @ [IncomingStream] # chunk c, fin = Open\<rparr>"
  shows "\<exists>conn B' q'. loop_runs (open_conn q) conn \<and> phase conn = InStream \<and> (\<nexists>d. loop_step conn d) \<and>
    rpcch conn = [\<lparr>From = a, Payload = m, Stream = False\<rparr>] \<and>
    loop e (rpcch conn) (B\<lparr>peers := AList.update a (cpeer conn) (peers B)\<rparr>) = (Ret (), B') \<and>
    peers B' = AList.update a q' (peers B) \<and> content (inp q') = [] \<and>
    loop_step (conn\<lparr>cpeer := q'\<rparr>) (conn\<lparr>cpeer := q', phase := Reading\<rparr>) \<and>
    net B' = net B \<and> good_server e B' \<and>
    has_entry e B' cid (cipher_text (prims (elib e)) (net B) (rnd e (drawn B) 16) c) (metadata_for (fstore B) cid key 0 0) \<and>
    srv_read e B' cid = Ret (cipher_count (net B) c, c, metadata_for (fstore B) cid key 0 0)"
proof -
  let ?q = "q\<lparr>inp := \<lparr>segs = [] # chunk c, fin = Open\<rparr>, wg := 1\<rparr>"
  obtain conn where run: "loop_runs (open_conn q) conn" "\<nexists>d. loop_step conn d"
    and conn: "cpeer conn = ?q" "phase conn = InStream" "rpcch conn = [\<lparr>From = a, Payload = m, Stream = False\<rparr>]"
    using announced_stream_run [OF assms(8,7,4,5)] assms(6) by auto
  let ?B = "B\<lparr>peers := AList.update a ?q (peers B)\<rparr>"
  have g: "good_server e ?B" by (rule good_server_cong [OF assms(1)]) simp_all
  have q: "map_of (peers ?B) a = Some ?q" "0 < wg ?q" "content (inp ?q) = c @ []" by (simp_all add: update_conv')
  obtain B' q' i where h: "handleMessageStoreFile e a cid key 0 0 (int (length c)) ?B = (Ret (), B')"
    and q': "q' = ?q\<lparr>inp := i, wg := wg ?q - 1\<rparr>" "peers B' = AList.update a q' (peers ?B)" "content (inp q') = []"
    and B': "net B' = net B" "good_server e B'"
      "has_entry e B' cid (cipher_text (prims (elib e)) (net B) (rnd e (drawn B) 16) c) (metadata_for (fstore B) cid key 0 0)"
      "srv_read e B' cid = Ret (cipher_count (net B) c, c, metadata_for (fstore B) cid key 0 0)"
    using replica_effect [OF g assms(2) q, of key 0 0] by auto
  have "loop e (rpcch conn) (B\<lparr>peers := AList.update a (cpeer conn) (peers B)\<rparr>) = (Ret (), B')"
    using h assms(3) conn(1,3) by (simp add: loop_turn_def)
  moreover have "loop_step (conn\<lparr>cpeer := q'\<rparr>) (conn\<lparr>cpeer := q', phase := Reading\<rparr>)"
    using loop_step.resume [of "conn\<lparr>cpeer := q'\<rparr>"] q'(1) conn(2) by simp
  moreover have "peers B' = AList.update a q' (peers B)" using q'(2) by simp
  ultimately show ?thesis using run conn(2,3) q'(3) B' by blast
qed

text \<open>C8: a file stored on one node reaches the node at the other end of each of its connections. What
  the first has written to it, with the message joined to its tag or not, makes the other's read loop by itself
  put exactly the announcement on the channel and then wait with the stream open; its message loop then stores
  exactly the bytes of the stream under the same id and name and closes the stream, and the read loop takes its
  next step. The replica is the file if the network is not encrypted, else its encryption.\<close>

theorem replication:
  assumes "good_server e A" and "fin r = AtEOF" and "\<forall>x \<in> set (peers A). broken (snd x) = None"
    and "map_of (peers A) b = Some p"
    and "good_server e' B" and "ungob_msg e' m = Some msg" and "m = gob_msg e msg" and "m \<noteq> []" and "length m \<le> 2048"
    and "msg = MessageStoreFile (hex (sha1 (content r))) key 0 0 (int (cipher_count (net A) (content r)))"
    and "RemoteAddr q = a" and "wg q = 0"
  shows "\<exists>A' p' c. storeAll e key r A = (Ret (hex (sha1 (content r))), A') \<and> map_of (peers A') b = Some p' \<and>
    outp p' = outp p @ [[IncomingMessage], m, [IncomingStream]] @ chunk c \<and>
    (EncType (net A) = ''None'' \<longrightarrow> c = content r) \<and>
    (inp q = \<lparr>segs = frame (joined, m) @ [IncomingStream] # chunk c, fin = Open\<rparr> \<longrightarrow>
      (\<exists>conn B' q'. loop_runs (open_conn q) conn \<and> phase conn = InStream \<and> (\<nexists>d. loop_step conn d) \<and>
        rpcch conn = [\<lparr>From = a, Payload = m, Stream = False\<rparr>] \<and>
        loop e' (rpcch conn) (B\<lparr>peers := AList.update a (cpeer conn) (peers B)\<rparr>) = (Ret (), B') \<and>
        map_of (peers B') a = Some q' \<and> content (inp q') = [] \<and>
        loop_step (conn\<lparr>cpeer := q'\<rparr>) (conn\<lparr>cpeer := q', phase := Reading\<rparr>) \<and>
        srv_read e' B' (hex (sha1 (content r))) =
          Ret (cipher_count (net B) c, c, metadata_for (fstore B) (hex (sha1 (content r))) key 0 0)))"
proof -
  let ?cid = "hex (sha1 (content r))"
  obtain A' iv c where st: "storeAll e key r A = (Ret ?cid, A')" and iv: "length iv = 16"
    and c: "c = cipher_text (prims (elib e)) (net A) iv (content r)"
    and pA: "peers A' = map (sent ([[IncomingMessage], gob_msg e (MessageStoreFile ?cid key 0 0 (int (length c))),
        [IncomingStream]] @ chunk c)) (peers A)"
    using storeAll_effect [OF assms(1-3), of key] by auto
  have len: "length c = cipher_count (net A) (content r)" unfolding c by (rule length_cipher_text [OF iv])
  let ?p = "p\<lparr>outp := outp p @ [[IncomingMessage], m, [IncomingStream]] @ chunk c\<rparr>"
  have p': "map_of (peers A') b = Some ?p" using pA assms(4,7,10) len by (simp add: map_of_sent)
  have none: "EncType (net A) = ''None'' \<longrightarrow> c = content r" by (simp add: c cipher_text_def)
  have cid: "plain ?cid" by (rule plain_hex) simp
  have m: "ungob_msg e' m = Some (MessageStoreFile ?cid key 0 0 (int (length c)))" using assms(6,10) len by simp
  have "\<exists>conn B' q'. loop_runs (open_conn q) conn \<and> phase conn = InStream \<and> (\<nexists>d. loop_step conn d) \<and>
      rpcch conn = [\<lparr>From = a, Payload = m, Stream = False\<rparr>] \<and>
      loop e' (rpcch conn) (B\<lparr>peers := AList.update a (cpeer conn) (peers B)\<rparr>) = (Ret (), B') \<and>
      map_of (peers B') a = Some q' \<and> content (inp q') = [] \<and>
      loop_step (conn\<lparr>cpeer := q'\<rparr>) (conn\<lparr>cpeer := q', phase := Reading\<rparr>) \<and>
      srv_read e' B' ?cid = Ret (cipher_count (net B) c, c, metadata_for (fstore B) ?cid key 0 0)"
    if arrived: "inp q = \<lparr>segs = frame (joined, m) @ [IncomingStream] # chunk c, fin = Open\<rparr>"
  proof -
    obtain conn B' q' where run: "loop_runs (open_conn q) conn" "phase conn = InStream" "\<nexists>d. loop_step conn d"
        "rpcch conn = [\<lparr>From = a, Payload = m, Stream = False\<rparr>]"
      and B': "loop e' (rpcch conn) (B\<lparr>peers := AList.update a (cpeer conn) (peers B)\<rparr>) = (Ret (), B')"
        "peers B' = AList.update a q' (peers B)" "content (inp q') = []"
        "loop_step (conn\<lparr>cpeer := q'\<rparr>) (conn\<lparr>cpeer := q', phase := Reading\<rparr>)"
        "srv_read e' B' ?cid = Ret (cipher_count (net B) c, c, metadata_for (fstore B) ?cid key 0 0)"
      using replica_arrives [OF assms(5) cid m assms(8,9,11,12) arrived] by blast
    moreover have "map_of (peers B') a = Some q'" using B'(2) by (simp add: update_conv')
    ultimately show ?thesis by blast
  qed
  with st p' none show ?thesis by (intro exI [of _ A'] exI [of _ ?p] exI [of _ c]) simp
qed

text \<open>A network without encryption, and an environment that decodes the announcement of a file.\<close>

definition plain_network :: network where
  "plain_network = aes_network\<lparr>EncType := ''None''\<rparr>"

definition demo_announcement :: payload where
  "demo_announcement = MessageStoreFile (hex (sha1 [7, 8])) ''a.txt'' 0 0 2"

definition demo_receiver :: env where
  "demo_receiver = demo_env\<lparr>ungob_msg := (\<lambda>bs. Some demo_announcement)\<rparr>"

definition demo_arrival :: peer where
  "demo_arrival = demo_peer ''a'' \<lparr>segs = frame (True, [0]) @ [IncomingStream] # chunk [7, 8], fin = Open\<rparr> 0"

lemma plain_network_simps [simp]:
  "EncType plain_network = ''None''" "\<not> Split plain_network" "cipher_count plain_network d = length d"
  by (simp_all add: plain_network_def cipher_count_def)

lemma plain_network_good:
  "good_server demo_env ((demo_server plain_network)\<lparr>peers := ps\<rparr>)"
  "good_server demo_receiver ((demo_server plain_network)\<lparr>peers := ps\<rparr>)"
proof -
  have "good_store (elib demo_env) plain_network demo_store demo_disk"
    using demo_good(1) by (simp add: good_store_def usable_def)
  then show "good_server demo_env ((demo_server plain_network)\<lparr>peers := ps\<rparr>)"
    "good_server demo_receiver ((demo_server plain_network)\<lparr>peers := ps\<rparr>)"
    using demo_env_good by (simp_all add: good_server_def good_env_def demo_receiver_def)
qed

lemma demo_announced:
  "demo_announcement = MessageStoreFile (hex (sha1 (content (buffer [7, 8])))) ''a.txt'' 0 0
     (int (cipher_count (net ((demo_server plain_network)\<lparr>peers := ps\<rparr>)) (content (buffer [7, 8]))))"
  "ungob_msg demo_receiver [0] = Some demo_announcement" "[0] = gob_msg demo_env demo_announcement"
  "([0] :: bytes) \<noteq> []" "length ([0] :: bytes) \<le> 2048" "RemoteAddr demo_arrival = ''a''" "wg demo_arrival = 0"
  "inp demo_arrival = \<lparr>segs = frame (True, [0]) @ [IncomingStream] # chunk [7, 8], fin = Open\<rparr>"
  by (simp_all add: demo_announcement_def demo_receiver_def demo_env_def demo_arrival_def)

lemma demo_sender:
  assumes "ps = [(''b'', demo_peer ''b'' \<lparr>segs = [], fin = Open\<rparr> 0)]"
  shows "\<forall>x \<in> set (peers ((demo_server plain_network)\<lparr>peers := ps\<rparr>)). broken (snd x) = None"
    "map_of (peers ((demo_server plain_network)\<lparr>peers := ps\<rparr>)) ''b'' = Some (demo_peer ''b'' \<lparr>segs = [], fin = Open\<rparr> 0)"
  using assms by simp_all

theorem replication_witness:
  "\<exists>conn B'. loop_runs (open_conn demo_arrival) conn \<and>
    loop demo_receiver (rpcch conn) ((demo_server plain_network)\<lparr>peers := [(''a'', cpeer conn)]\<rparr>) = (Ret (), B') \<and>
    srv_read demo_receiver B' (hex (sha1 [7, 8])) = Ret (2, [7, 8], metadata_for demo_store (hex (sha1 [7, 8])) ''a.txt'' 0 0)"
proof -
  have "\<exists>conn B'. loop_runs (open_conn demo_arrival) conn \<and>
    loop demo_receiver (rpcch conn) ((demo_server plain_network)\<lparr>peers := []\<rparr>\<lparr>peers := [(''a'', cpeer conn)]\<rparr>) = (Ret (), B') \<and>
    srv_read demo_receiver B' (hex (sha1 [7, 8])) = Ret (2, [7, 8], metadata_for demo_store (hex (sha1 [7, 8])) ''a.txt'' 0 0)"
    using replication [OF plain_network_good(1) fin_buffer demo_sender [OF refl] plain_network_good(2) [of "[]"]
        demo_announced(2-5,1,6,7), of True] demo_announced(8) by fastforce
  then show ?thesis by simp
qed

section \<open>From one node through a second to a third\<close>

text \<open>A node with an entry serves it, and a node of the same configuration makes of it what was encrypted.\<close>

lemma entry_served:
  assumes "good_server e' B" and "plain cid" and "length iv = 16"
    and "has_entry e' B cid (cipher_text (prims (elib e')) (net B) iv c) md" and "\<not> Split (net B)"
    and "map_of (peers B) d = Some t" and "broken t = None"
    and "good_server e3 C" and "net C = net B" and "prims (elib e3) = prims (elib e')" and "\<not> srv_has C cid"
    and "broken u = None" and "wg u = 1" and "length c + 16 < 2 ^ 63" and "length (MetaFileName md) < 2 ^ 63"
  shows "\<exists>B' t' reply. handleMessageGetFile e' d cid B = (Ret (), B') \<and>
    map_of (peers B') d = Some t' \<and> outp t' = outp t @ [IncomingStream] # reply \<and>
    (\<forall>i. content i = concat reply \<longrightarrow>
      fst (getAll e3 cid (C\<lparr>peers := [(x, u\<lparr>inp := i\<rparr>)]\<rparr>)) = Ret (c, MetaFileName md))"
proof -
  let ?raw = "cipher_text (prims (elib e')) (net B) iv c" and ?key = "MetaFileName md"
  have raw: "length ?raw < 2 ^ 63"
    using length_cipher_text [OF assms(3), of "prims (elib e')" "net B" c] assms(14) by (simp add: cipher_count_def)
  have serve: "\<exists>B' t'. handleMessageGetFile e' d cid B = (Ret (), B') \<and> map_of (peers B') d = Some t' \<and>
      outp t' = outp t @ [IncomingStream] # file_reply ?key ?raw"
    using GetFile_serves [OF assms(4,6)] serve_all [OF assms(6,7,5)] by (simp add: file_reply_def update_conv')
  moreover have "fst (getAll e3 cid (C\<lparr>peers := [(x, u\<lparr>inp := i\<rparr>)]\<rparr>)) = Ret (c, ?key)"
    if "content i = concat (file_reply ?key ?raw)" for i
  proof -
    let ?C = "C\<lparr>peers := [(x, u\<lparr>inp := i\<rparr>)]\<rparr>" and ?u = "u\<lparr>inp := i\<rparr>"
    have g: "good_server e3 ?C" by (rule good_server_cong [OF assms(8)]) simp_all
    have C: "\<not> Split (net ?C)" "\<not> srv_has ?C cid" "peers ?C = [(x, ?u)]" "broken ?u = None" "wg ?u = 1"
      using assms(5,9,11-13) by (simp_all add: srv_has_def)
    have dec: "decrypt_to_buffer (elib e3) (net ?C) (buffer ?raw) = Ret (cipher_count (net C) c, c)"
      using decrypt_own [OF good_serverD(2) [OF assms(8)] assms(3), of "elib e3" c] assms(9,10) by simp
    have "content (inp ?u) = concat (file_reply ?key ?raw)" using that by simp
    from mesh_fetch [OF g C(1) assms(2) C(2-5) assms(4,5,6,7) raw assms(15) dec this] show ?thesis by auto
  qed
  ultimately show ?thesis by blast
qed

text \<open>C9: a file stored on one node, replicated to a second and fetched by a third that has it not, which is
  connected to the second and shares its network configuration. The second serves the replica over its
  connection to the third, and the third, reading just that, returns what the first has sent to the
  second, under the name the file was given: the file itself when the first does not encrypt, and
  under AES never the file.\<close>

theorem mesh_store_fetch:
  assumes "good_server e A" and "fin r = AtEOF" and "\<forall>x \<in> set (peers A). broken (snd x) = None"
    and "map_of (peers A) b = Some p"
    and "good_server e' B" and "ungob_msg e' m = Some msg" and "m = gob_msg e msg" and "m \<noteq> []" and "length m \<le> 2048"
    and "msg = MessageStoreFile cid key 0 0 (int (cipher_count (net A) (content r)))" and "cid = hex (sha1 (content r))"
    and "RemoteAddr q = a" and "wg q = 0"
    and "\<not> Split (net B)" and "map_of (peers B) d = Some t" and "broken t = None" and "d \<noteq> a"
    and "good_server e3 C" and "net C = net B" and "prims (elib e3) = prims (elib e')" and "\<not> srv_has C cid"
    and "RemoteAddr u = x" and "broken u = None" and "wg u = 1"
    and "length (content r) + 32 < 2 ^ 63" and "length key < 2 ^ 63"
  shows "\<exists>A' p' c. storeAll e key r A = (Ret cid, A') \<and> map_of (peers A') b = Some p' \<and>
    outp p' = outp p @ [[IncomingMessage], m, [IncomingStream]] @ chunk c \<and>
    (EncType (net A) = ''None'' \<longrightarrow> c = content r) \<and> (EncType (net A) = ''AES'' \<longrightarrow> c \<noteq> content r) \<and>
    (inp q = \<lparr>segs = frame (joined, m) @ [IncomingStream] # chunk c, fin = Open\<rparr> \<longrightarrow>
      (\<exists>conn B' B'' t' reply. loop_runs (open_conn q) conn \<and> (\<nexists>d. loop_step conn d) \<and>
        loop e' (rpcch conn) (B\<lparr>peers := AList.update a (cpeer conn) (peers B)\<rparr>) = (Ret (), B') \<and>
        handleMessageGetFile e' d cid B' = (Ret (), B'') \<and>
        map_of (peers B'') d = Some t' \<and> outp t' = outp t @ [IncomingStream] # reply \<and>
        (\<forall>i. content i = concat reply \<longrightarrow>
          fst (getAll e3 cid (C\<lparr>peers := [(x, u\<lparr>inp := i\<rparr>)]\<rparr>)) = Ret (c, key))))"
proof -
  obtain A' iv c where st: "storeAll e key r A = (Ret cid, A')" and iv: "length iv = 16"
    and c: "c = cipher_text (prims (elib e)) (net A) iv (content r)"
    and pA: "peers A' = map (sent ([[IncomingMessage], gob_msg e (MessageStoreFile cid key 0 0 (int (length c))),
        [IncomingStream]] @ chunk c)) (peers A)"
    using storeAll_effect [OF assms(1-3), of key] unfolding assms(11) by auto
  have len: "length c = cipher_count (net A) (content r)" unfolding c by (rule length_cipher_text [OF iv])
  let ?p = "p\<lparr>outp := outp p @ [[IncomingMessage], m, [IncomingStream]] @ chunk c\<rparr>"
  have p': "map_of (peers A') b = Some ?p" using pA assms(4,7,10) len by (simp add: map_of_sent)
  have none: "EncType (net A) = ''None'' \<longrightarrow> c = content r" by (simp add: c cipher_text_def)
  have aes: "EncType (net A) = ''AES'' \<longrightarrow> c \<noteq> content r" using len by (auto simp: cipher_count_def)
  have cid: "plain cid" unfolding assms(11) by (rule plain_hex) simp
  have m: "ungob_msg e' m = Some (MessageStoreFile cid key 0 0 (int (length c)))" using assms(6,10) len by simp
  have "\<exists>conn B' B'' t' reply. loop_runs (open_conn q) conn \<and> (\<nexists>d. loop_step conn d) \<and>
        loop e' (rpcch conn) (B\<lparr>peers := AList.update a (cpeer conn) (peers B)\<rparr>) = (Ret (), B') \<and>
        handleMessageGetFile e' d cid B' = (Ret (), B'') \<and>
        map_of (peers B'') d = Some t' \<and> outp t' = outp t @ [IncomingStream] # reply \<and>
        (\<forall>i. content i = concat reply \<longrightarrow>
          fst (getAll e3 cid (C\<lparr>peers := [(x, u\<lparr>inp := i\<rparr>)]\<rparr>)) = Ret (c, key))"
    if arrived: "inp q = \<lparr>segs = frame (joined, m) @ [IncomingStream] # chunk c, fin = Open\<rparr>"
  proof -
    obtain conn B' q' where run: "loop_runs (open_conn q) conn" "\<nexists>d. loop_step conn d"
      "loop e' (rpcch conn) (B\<lparr>peers := AList.update a (cpeer conn) (peers B)\<rparr>) = (Ret (), B')"
      and B': "peers B' = AList.update a q' (peers B)" "net B' = net B" "good_server e' B'"
      "has_entry e' B' cid (cipher_text (prims (elib e')) (net B) (rnd e' (drawn B) 16) c) (metadata_for (fstore B) cid key 0 0)"
      using replica_arrives [OF assms(5) cid m assms(8,9,12,13) arrived] by blast
    have t: "map_of (peers B') d = Some t" using B'(1) assms(15,17) by (simp add: update_conv')
    have l: "length c + 16 < 2 ^ 63" "length (MetaFileName (metadata_for (fstore B) cid key 0 0)) < 2 ^ 63"
      using len assms(25,26) by (simp_all add: cipher_count_def metadata_for_def)
    have en: "has_entry e' B' cid (cipher_text (prims (elib e')) (net B') (rnd e' (drawn B) 16) c) (metadata_for (fstore B) cid key 0 0)"
      "\<not> Split (net B')" "net C = net B'" using B'(2,4) assms(14,19) by simp_all
    from entry_served [OF B'(3) cid good_serverD(5) [OF assms(5)] en(1,2) t assms(16,18) en(3) assms(20,21,23,24) l, of x]
    show ?thesis using run unfolding metadata_for_def by simp blast
  qed
  with st p' none aes show ?thesis by (intro exI [of _ A'] exI [of _ ?p] exI [of _ c]) simp
qed

theorem mesh_store_fetch_witness:
  "\<exists>conn B' B'' t' reply. loop_runs (open_conn demo_arrival) conn \<and>
    handleMessageGetFile demo_receiver ''r'' (hex (sha1 [7, 8])) B' = (Ret (), B'') \<and> map_of (peers B'') ''r'' = Some t' \<and>
    outp t' = [IncomingStream] # reply \<and>
    (\<forall>i. content i = concat reply \<longrightarrow>
      fst (getAll demo_env (hex (sha1 [7, 8])) ((demo_server plain_network)\<lparr>peers := [(''b'', demo_peer ''b'' i 1)]\<rparr>)) =
        Ret ([7, 8], ''a.txt''))"
proof -
  let ?C = "(demo_server plain_network)\<lparr>peers := []\<rparr>" and ?u = "demo_peer ''b'' \<lparr>segs = [], fin = Open\<rparr> 1"
  let ?t = "demo_peer ''r'' \<lparr>segs = [], fin = Open\<rparr> 0"
  let ?B = "(demo_server plain_network)\<lparr>peers := [(''r'', ?t)]\<rparr>"
  have B: "\<not> Split (net ?B)" "map_of (peers ?B) ''r'' = Some ?t" "broken ?t = None" "''r'' \<noteq> ''a''" by simp_all
  have "plain (hex (sha1 [7, 8]))" by (rule plain_hex) simp
  then have C: "net ?C = net ?B" "prims (elib demo_env) = prims (elib demo_receiver)"
    "\<not> srv_has ?C (hex (sha1 (content (buffer [7, 8]))))"
    "RemoteAddr ?u = ''b''" "broken ?u = None" "wg ?u = 1" "length (content (buffer [7, 8 :: byte])) + 32 < 2 ^ 63"
    "length ''a.txt'' < 2 ^ 63"
    using demo_has_not [of "hex (sha1 [7, 8])" plain_network] by (simp_all add: demo_receiver_def srv_has_def)
  have u: "demo_peer ''b'' \<lparr>segs = [], fin = Open\<rparr> 1\<lparr>inp := i\<rparr> = demo_peer ''b'' i 1" for i
    by (simp add: demo_peer_def NewTCPPeer_def)
  from mesh_store_fetch [OF plain_network_good(1) fin_buffer demo_sender [OF refl] plain_network_good(2) demo_announced(2-5,1) refl
      demo_announced(6,7) B plain_network_good(1) C, of True] demo_announced(8)
  obtain conn B' B'' t' reply where "loop_runs (open_conn demo_arrival) conn"
    "handleMessageGetFile demo_receiver ''r'' (hex (sha1 [7, 8])) B' = (Ret (), B'')" "map_of (peers B'') ''r'' = Some t'"
    "outp t' = [IncomingStream] # reply"
    "\<forall>i. content i = concat reply \<longrightarrow> fst (getAll demo_env (hex (sha1 [7, 8])) (?C\<lparr>peers := [(''b'', ?u\<lparr>inp := i\<rparr>)]\<rparr>)) =
      Ret ([7, 8], ''a.txt'')"
    by auto
  then show ?thesis unfolding u by auto
qed

end
