(* ===== verification/Goroutines.thy ===== *)
theory Goroutines
  imports Node_Invariant
begin

text \<open>
  The goroutines of one Chord node and the lock they share. \<open>FindSuccessor\<close> holds the node's
  read lock until it returns, also while \<open>findSuccessorRemote\<close> waits for a response;
  \<open>notify\<close> takes the write lock inside the message loop; storing a finger takes it after the
  lookup. A step relation interleaves the message loop, the lookups of \<open>fixFinger\<close>, the other
  maintenance steps, and new connections.

  The handler of a predecessor response takes the write lock, too, when it changes the successor.
  Of the messages the loop handles here those of the ring maintenance; \<open>Node_Files\<close> adds the
  handlers and the goroutines of files. A waiting writer keeps new readers out, as
  \<open>sync.RWMutex\<close> does.
\<close>

section \<open>State\<close>

text \<open>
  A lookup that waits: the request ids it has registered (the last one first), whom it asks,
  for which identifier and finger, and whether the connection is exact. The number of
  waiting lookups is the number of readers of the lock.
\<close>

record lookup_call =
  requests :: "string list"
  asked :: string
  ident :: nat
  finger :: nat
  direct :: bool

text \<open>
  The message loop receives, or waits in the handler of a message for the write lock; the
  handlers of files, which wait in \<open>Filing\<close>, are in \<open>Node_Files\<close>.
\<close>

datatype loop_state = Receiving | Locking string payload | Filing string payload

record system =
  srv :: server
  loop_at :: loop_state
  inbox :: "(string \<times> payload option) list"
  lookups :: "lookup_call list"
  found :: "(nat \<times> node_ref) list"

definition boot :: "server \<Rightarrow> system" where
  "boot s = \<lparr>srv = s, loop_at = Receiving, inbox = [], lookups = [], found = []\<rparr>"

section \<open>Steps\<close>

text \<open>One attempt of \<open>findSuccessorRemote\<close> up to the point where it waits.\<close>

definition begin_lookup :: "env \<Rightarrow> string \<Rightarrow> nat \<Rightarrow> server \<Rightarrow> bool res \<times> server" where
  "begin_lookup e a i s =
     request_successor e (request_id e a s) a i
       (register_request (request_id e a s) (s\<lparr>drawn := drawn s + 1\<rparr>))"

text \<open>The deferred calls of a lookup and of its repeated attempts.\<close>

definition forget_all :: "string list \<Rightarrow> server \<Rightarrow> server" where
  "forget_all qs s = fold forget_request qs s"

text \<open>The messages of the ring maintenance.\<close>

fun maintenance :: "payload \<Rightarrow> bool" where
  "maintenance (MessageFindSuccessor idb a q) = True"
| "maintenance (MessageFindSuccessorResponse idb a q) = True"
| "maintenance (MessageGetPredecessor a) = True"
| "maintenance (MessageGetPredecessorResponse idb a h) = True"
| "maintenance (MessageNotify idb a) = True"
| "maintenance m = False"

text \<open>The messages whose handlers take the write lock of the node.\<close>

fun needs_lock :: "string \<Rightarrow> payload \<Rightarrow> chord_node \<Rightarrow> bool" where
  "needs_lock from (MessageNotify idb a) n = True"
| "needs_lock from (MessageGetPredecessorResponse idb a h) n =
     (h \<and> (case successor n of
              Some s \<Rightarrow> from = naddr s \<and> isBetween (set_bytes idb) (nid (self n)) (nid s) False
            | None \<Rightarrow> False))"
| "needs_lock from m n = False"

text \<open>
  The steps: a lookup answers from the tables, asks, or fails to ask; it takes its response,
  tries again or gives up after a timeout; a finger is stored; the loop comes to a message
  that needs the lock, gets the lock and handles it, or handles another message; stabilization, the check
  of the predecessor; a new connection.
\<close>

inductive sys_step :: "env \<Rightarrow> system \<Rightarrow> system \<Rightarrow> bool" for e where
  lookup_local: "\<lbrakk>loop_at st = Receiving; chord (srv st) = Some n;
      find_step n (fingerID (nid (self n)) i) = Answer r\<rbrakk> \<Longrightarrow>
    sys_step e st (st\<lparr>found := (i, r) # found st\<rparr>)"
| lookup_asks: "\<lbrakk>loop_at st = Receiving; chord (srv st) = Some n; k = fingerID (nid (self n)) i;
      find_step n k = Ask c; begin_lookup e (naddr c) k (srv st) = (Ret d, s)\<rbrakk> \<Longrightarrow>
    sys_step e st (st\<lparr>srv := s, lookups :=
      \<lparr>requests = [request_id e (naddr c) (srv st)], asked = naddr c, ident = k, finger = i, direct = d\<rparr> # lookups st\<rparr>)"
| lookup_unsent: "\<lbrakk>loop_at st = Receiving; chord (srv st) = Some n; k = fingerID (nid (self n)) i;
      find_step n k = Ask c; begin_lookup e (naddr c) k (srv st) = (Fail er, s)\<rbrakk> \<Longrightarrow>
    sys_step e st (st\<lparr>srv := forget_request (request_id e (naddr c) (srv st)) s\<rparr>)"
| lookup_answered: "\<lbrakk>l \<in> set (lookups st); requests l = q # qs; map_of (pending (srv st)) q = Some (Some r)\<rbrakk> \<Longrightarrow>
    sys_step e st (st\<lparr>srv := forget_all (requests l) (srv st), lookups := remove1 l (lookups st),
      found := (finger l, r) # found st\<rparr>)"
| lookup_retries: "\<lbrakk>l \<in> set (lookups st); direct l; begin_lookup e (asked l) (ident l) (srv st) = (Ret d, s)\<rbrakk> \<Longrightarrow>
    sys_step e st (st\<lparr>srv := s, lookups :=
      l\<lparr>requests := request_id e (asked l) (srv st) # requests l, direct := d\<rparr> # remove1 l (lookups st)\<rparr>)"
| lookup_fails: "\<lbrakk>l \<in> set (lookups st); direct l; begin_lookup e (asked l) (ident l) (srv st) = (Fail er, s)\<rbrakk> \<Longrightarrow>
    sys_step e st (st\<lparr>srv := forget_all (request_id e (asked l) (srv st) # requests l) s,
      lookups := remove1 l (lookups st)\<rparr>)"
| lookup_times_out: "\<lbrakk>l \<in> set (lookups st); \<not> direct l\<rbrakk> \<Longrightarrow>
    sys_step e st (st\<lparr>srv := forget_all (requests l) (srv st), lookups := remove1 l (lookups st)\<rparr>)"
| finger_stored: "\<lbrakk>lookups st = []; (i, r) \<in> set (found st)\<rbrakk> \<Longrightarrow>
    sys_step e st (st\<lparr>srv := update_node (set_finger i r) (srv st), found := remove1 (i, r) (found st)\<rparr>)"
| lock_waits: "\<lbrakk>loop_at st = Receiving; inbox st = (a, Some m) # rest; chord (srv st) = Some n; needs_lock a m n\<rbrakk> \<Longrightarrow>
    sys_step e st (st\<lparr>loop_at := Locking a m, inbox := rest\<rparr>)"
| locked: "\<lbrakk>loop_at st = Locking a m; lookups st = []; handleMessage e a (Some m) (srv st) = (r, s);
      r = Ret () \<or> (\<exists>er. r = Fail er)\<rbrakk> \<Longrightarrow>
    sys_step e st (st\<lparr>srv := s, loop_at := Receiving\<rparr>)"
| handled: "\<lbrakk>loop_at st = Receiving; inbox st = (a, m) # rest; pred_option maintenance m;
      \<forall>x n. m = Some x \<and> chord (srv st) = Some n \<longrightarrow> \<not> needs_lock a x n;
      handleMessage e a m (srv st) = (r, s); r = Ret () \<or> (\<exists>er. r = Fail er)\<rbrakk> \<Longrightarrow>
    sys_step e st (st\<lparr>srv := s, inbox := rest\<rparr>)"
| stabilizes: "stabilize e (srv st) = (Ret (), s) \<Longrightarrow> sys_step e st (st\<lparr>srv := s\<rparr>)"
| checks: "\<lbrakk>lookups st = [] \<or> chord s = chord (srv st); checkPredecessor e (srv st) = (Ret (), s)\<rbrakk> \<Longrightarrow>
    sys_step e st (st\<lparr>srv := s\<rparr>)"
| connects: "\<lbrakk>broken p = None; outp p = []\<rbrakk> \<Longrightarrow> sys_step e st (st\<lparr>srv := snd (OnPeer p (srv st))\<rparr>)"

inductive_cases sys_stepE: "sys_step e st st'"

text \<open>A message comes off the transport's channel.\<close>

definition receive :: "string \<times> payload option \<Rightarrow> system \<Rightarrow> system" where
  "receive x st = st\<lparr>inbox := inbox st @ [x]\<rparr>"

definition node_step :: "env \<Rightarrow> system \<Rightarrow> system \<Rightarrow> bool" where
  "node_step e st st' \<longleftrightarrow> sys_step e st st' \<or> (\<exists>x. st' = receive x st)"

abbreviation node_run :: "env \<Rightarrow> system \<Rightarrow> system \<Rightarrow> bool" where
  "node_run e \<equiv> (node_step e)\<^sup>*\<^sup>*"

section \<open>A waiting loop and a waiting lookup\<close>

text \<open>
  The loop waits for the lock in the handler of \<open>m\<close>; a lookup waits for a response over an
  exact connection that works; its channel is empty.
\<close>

definition stuck :: "string \<Rightarrow> payload \<Rightarrow> string \<Rightarrow> system \<Rightarrow> bool" where
  "stuck from m a st \<longleftrightarrow> loop_at st = Locking from m \<and>
     (\<exists>l \<in> set (lookups st). direct l \<and> asked l = a) \<and>
     (\<exists>p. map_of (peers (srv st)) a = Some p \<and> broken p = None) \<and>
     (\<forall>l \<in> set (lookups st). direct l \<and> asked l = a \<longrightarrow>
        (\<forall>r. map_of (pending (srv st)) (hd (requests l)) \<noteq> Some (Some r)))"

section \<open>Calls that keep a working connection\<close>

definition works :: "string \<Rightarrow> server \<Rightarrow> bool" where
  "works a s \<longleftrightarrow> (\<exists>p. map_of (peers s) a = Some p \<and> broken p = None)"

text \<open>A connection that was just made works.\<close>

definition dials_work :: "env \<Rightarrow> bool" where
  "dials_work e \<longleftrightarrow> (\<forall>a p r. dialing e a = Connected p r \<longrightarrow> broken p = None)"

lemma works_update: "works a s \<Longrightarrow> broken q = None \<Longrightarrow> works a (s\<lparr>peers := AList.update b q (peers s)\<rparr>)"
  by (auto simp: works_def update_conv')

lemma works_cong: "peers t = peers s \<Longrightarrow> works a t = works a s"
  by (simp add: works_def)

lemma works_sendMessage: "works a s \<Longrightarrow> works a (snd (sendMessage e b m s))"
proof -
  assume w: "works a s"
  show ?thesis
  proof (cases "map_of (peers s) b")
    case None
    then show ?thesis using w by (simp add: sendMessage_def on_peer_def)
  next
    case (Some p)
    show ?thesis
    proof (cases "broken p")
      case None
      then show ?thesis using w Some works_update [OF w] by (simp add: sendMessage_def on_peer_def send_frame_ok)
    next
      case (Some er)
      then show ?thesis
        using w \<open>map_of (peers s) b = Some p\<close>
        by (auto simp: sendMessage_def on_peer_def send_frame_broken works_def update_conv')
    qed
  qed
qed

lemma works_Dial: "dials_work e \<Longrightarrow> works a s \<Longrightarrow> works a (snd (Dial e b s))"
  by (auto simp: Dial_def OnPeer_def dials_work_def intro: works_update split: dial_result.split)

lemma works_kept: "dials_work e \<Longrightarrow> keeps e (works a) (\<lambda>_ _. True)"
  by unfold_locales (simp_all add: works_sendMessage works_Dial)

lemma works_begin:
  assumes "dials_work e" and "works a s"
  shows "works a (snd (begin_lookup e b k s))"
  unfolding begin_lookup_def
  by (rule keeps.request_successor [OF works_kept [OF assms(1)]])
    (use assms(2) in \<open>simp_all add: works_def register_request_def\<close>)

lemma works_stabilize: "dials_work e \<Longrightarrow> works a s \<Longrightarrow> works a (snd (stabilize e s))"
  by (rule keeps.stabilize [OF works_kept]) simp_all

lemma checkPredecessor_result:
  obtains "snd (checkPredecessor e s) = s"
  | b where "snd (checkPredecessor e s) = snd (Dial e b s)"
  | b where "snd (checkPredecessor e s) = update_node (\<lambda>n. n\<lparr>predecessor := None\<rparr>) (snd (Dial e b s))"
proof (cases "chord s")
  case None
  then show ?thesis using that(1) by (simp add: checkPredecessor_def with_node_def)
next
  case (Some n)
  show ?thesis
  proof (cases "predecessor n")
    case None
    then show ?thesis using Some that(1) by (simp add: checkPredecessor_def with_node_def)
  next
    fix p assume p: "predecessor n = Some p"
    obtain r t where d: "Dial e (naddr p) s = (r, t)" by (cases "Dial e (naddr p) s")
    show ?thesis
      using Some p d that(1) that(2) [of "naddr p"] that(3) [of "naddr p"]
      by (cases "map_of (peers s) (naddr p)"; cases r)
        (simp_all add: checkPredecessor_def with_node_def del: frame_update)
  qed
qed

lemma works_checkPredecessor:
  assumes "dials_work e" and "works a s"
  shows "works a (snd (checkPredecessor e s))"
proof -
  have "works a (update_node f t) = works a t" for f t by (simp add: works_def)
  then show ?thesis
    using works_Dial [OF assms] assms(2) by (cases rule: checkPredecessor_result [of e s]) simp_all
qed

lemma works_forget [simp]: "works a (forget_all qs s) = works a s" "works a (forget_request q s) = works a s"
proof -
  have p: "peers (forget_all qs s) = peers s"
    by (induction qs arbitrary: s) (simp_all add: forget_all_def forget_request_def)
  show "works a (forget_all qs s) = works a s" by (rule works_cong [OF p])
  show "works a (forget_request q s) = works a s" by (rule works_cong) (simp add: forget_request_def)
qed

section \<open>Pending requests\<close>

lemma pending_sendMessage [simp]: "pending (snd (sendMessage e a m s)) = pending s"
  by (simp add: sendMessage_def on_peer_def split: option.split prod.split)

lemma pending_Dial [simp]: "pending (snd (Dial e a s)) = pending s"
  by (simp add: Dial_def OnPeer_def split: dial_result.split)

interpretation pending_kept: keeps e "\<lambda>s. pending s = ps" "\<lambda>_ _. True" for e ps
  by unfold_locales simp_all

lemma pending_begin [simp]:
  "pending (snd (begin_lookup e a k s)) = AList.update (request_id e a s) None (pending s)"
  unfolding begin_lookup_def
  by (rule pending_kept.request_successor) (simp_all add: register_request_def)

lemma pending_stabilize [simp]: "pending (snd (stabilize e s)) = pending s"
  by (rule pending_kept.stabilize) simp_all

lemma pending_forward [simp]: "pending (forward_response e m r as s) = pending s"
  by (rule pending_kept.forward_response) simp_all

lemma chord_forget_all [simp]: "chord (forget_all qs s) = chord s"
  by (induction qs arbitrary: s) (simp_all add: forget_all_def)

lemma pending_checkPredecessor [simp]: "pending (snd (checkPredecessor e s)) = pending s"
  by (cases rule: checkPredecessor_result [of e s]) simp_all

lemma pending_forget_all [simp]:
  "map_of (pending (forget_all qs s)) q = (if q \<in> set qs then None else map_of (pending s) q)"
  by (induction qs arbitrary: s) (auto simp: forget_all_def forget_request_def delete_conv')

lemma begin_direct:
  assumes "works a s"
  shows "fst (begin_lookup e a k s) = Ret True"
  using assms
  by (auto simp: works_def begin_lookup_def request_successor_def target_peer_def register_request_def
      sendMessage_def on_peer_def send_frame_ok)

section \<open>The deadlock\<close>

lemma stuckD:
  assumes "stuck from m a st"
  shows "loop_at st = Locking from m" "lookups st \<noteq> []" "works a (srv st)"
  using assms by (auto simp: stuck_def works_def)

lemma stuck_cong:
  assumes "stuck from m a st" and "loop_at st' = loop_at st" and "lookups st' = lookups st"
    and "works a (srv st')" and "pending (srv st') = pending (srv st)"
  shows "stuck from m a st'"
  using assms by (simp add: stuck_def works_def)

lemma remove1_other: "l \<in> set xs \<Longrightarrow> l \<noteq> x \<Longrightarrow> l \<in> set (remove1 x xs)"
  by simp

lemma stuck_without:
  assumes "stuck from m a st" and "\<not> (direct l \<and> asked l = a)"
    and "loop_at st' = loop_at st" and "lookups st' = remove1 l (lookups st)"
    and "works a (srv st')" and "\<And>q r. map_of (pending (srv st')) q = Some (Some r) \<Longrightarrow> map_of (pending (srv st)) q = Some (Some r)"
  shows "stuck from m a st'"
proof -
  obtain k where k: "k \<in> set (lookups st)" "direct k" "asked k = a" using assms(1) by (auto simp: stuck_def)
  then have "k \<in> set (remove1 l (lookups st))" using assms(2) by (auto intro: remove1_other)
  then show ?thesis
    using assms k(2,3) set_remove1_subset [of l "lookups st"] by (auto simp: stuck_def works_def)
qed

text \<open>Another attempt of the lookup that waits finds the same connection again.\<close>

lemma stuck_retry:
  assumes stuck: "stuck from m a st" and "dials_work e"
    and l: "l \<in> set (lookups st)" "direct l" and b: "begin_lookup e (asked l) (ident l) (srv st) = (Ret d, s)"
  shows "stuck from m a (st\<lparr>srv := s,
      lookups := l\<lparr>requests := request_id e (asked l) (srv st) # requests l, direct := d\<rparr> # remove1 l (lookups st)\<rparr>) \<and>
    chord s = chord (srv st)"
proof -
  let ?l = "l\<lparr>requests := request_id e (asked l) (srv st) # requests l, direct := d\<rparr>"
  have s: "s = snd (begin_lookup e (asked l) (ident l) (srv st))" using b by simp
  have w: "works a s" unfolding s by (rule works_begin [OF assms(2) stuckD(3) [OF stuck]])
  have p: "pending s = AList.update (request_id e (asked l) (srv st)) None (pending (srv st))" by (simp add: s)
  have "\<exists>k \<in> set (?l # remove1 l (lookups st)). direct k \<and> asked k = a"
  proof (cases "asked l = a")
    case True
    then have "d" using begin_direct [OF stuckD(3) [OF stuck], of e "ident l"] b by simp
    then show ?thesis using True by simp
  next
    case False
    obtain k where k: "k \<in> set (lookups st)" "direct k" "asked k = a" using stuck by (auto simp: stuck_def)
    then have "k \<in> set (remove1 l (lookups st))" using False by (auto intro: remove1_other)
    then show ?thesis using k by auto
  qed
  moreover have "chord s = chord (srv st)" by (simp add: s begin_lookup_def frame)
  ultimately show ?thesis
    using stuck w p set_remove1_subset [of l "lookups st"]
    by (auto simp: stuck_def works_def update_conv' split: if_splits)
qed

lemma stuck_step:
  assumes "sys_step e st st'" and "dials_work e" and "stuck from m a st"
  shows "stuck from m a st' \<and> inbox st' = inbox st \<and> chord (srv st') = chord (srv st)"
  using assms(1)
proof cases
  case (lookup_answered l q qs r)
  then have "\<not> (direct l \<and> asked l = a)" using assms(3) by (auto simp: stuck_def)
  then have "stuck from m a st'"
    by (rule stuck_without [OF assms(3)]) (use lookup_answered stuckD(3) [OF assms(3)] in \<open>auto split: if_splits\<close>)
  then show ?thesis using lookup_answered by simp
next
  case (lookup_retries l d s)
  from stuck_retry [OF assms(3,2) lookup_retries(2-4)] show ?thesis using lookup_retries by simp
next
  case (lookup_fails l er s)
  have s: "s = snd (begin_lookup e (asked l) (ident l) (srv st))" using lookup_fails by simp
  have w: "works a s" unfolding s by (rule works_begin [OF assms(2) stuckD(3) [OF assms(3)]])
  have c: "chord s = chord (srv st)" by (simp add: s begin_lookup_def frame)
  have p: "pending s = AList.update (request_id e (asked l) (srv st)) None (pending (srv st))" by (simp add: s)
  have "\<not> (direct l \<and> asked l = a)"
    using begin_direct [OF stuckD(3) [OF assms(3)], of e "ident l"] lookup_fails by auto
  then have "stuck from m a st'"
    by (rule stuck_without [OF assms(3)]) (use lookup_fails w p in \<open>auto simp: update_conv' split: if_splits\<close>)
  then show ?thesis using lookup_fails c by simp
next
  case (lookup_times_out l)
  then have "\<not> (direct l \<and> asked l = a)" by simp
  then have "stuck from m a st'"
    by (rule stuck_without [OF assms(3)]) (use lookup_times_out stuckD(3) [OF assms(3)] in \<open>auto split: if_splits\<close>)
  then show ?thesis using lookup_times_out by simp
next
  case (stabilizes s)
  have s: "s = snd (stabilize e (srv st))" using stabilizes by simp
  have "works a s" "pending s = pending (srv st)" "chord s = chord (srv st)"
    by (simp_all add: s works_stabilize [OF assms(2) stuckD(3) [OF assms(3)]] frame_stabilize)
  then show ?thesis using stabilizes stuck_cong [OF assms(3), of st'] by simp
next
  case (checks s)
  have s: "s = snd (checkPredecessor e (srv st))" using checks by simp
  have "works a s" "pending s = pending (srv st)"
    by (simp_all add: s works_checkPredecessor [OF assms(2) stuckD(3) [OF assms(3)]])
  then show ?thesis using checks stuck_cong [OF assms(3), of st'] stuckD(2) [OF assms(3)] by simp
next
  case (connects p)
  then show ?thesis
    using stuck_cong [OF assms(3), of st'] works_update [OF stuckD(3) [OF assms(3)], of p]
    by (simp add: OnPeer_def)
qed (use stuckD [OF assms(3)] in auto)

lemma stuck_run:
  assumes "node_run e st st'" and "dials_work e" and "stuck from m a st"
  shows "stuck from m a st' \<and> prefix (inbox st) (inbox st') \<and> chord (srv st') = chord (srv st)"
  using assms(1)
proof (induction rule: rtranclp_induct)
  case base
  then show ?case using assms(3) by simp
next
  case (step st1 st2)
  from step.hyps(2) show ?case unfolding node_step_def
  proof
    assume "sys_step e st1 st2"
    then show ?thesis using stuck_step [of e st1 st2 "from" m a] assms(2) step.IH by simp
  next
    assume "\<exists>x. st2 = receive x st1"
    then show ?thesis using step.IH stuck_cong [of "from" m a st1 st2] stuckD(3) [of "from" m a st1]
      by (auto simp: receive_def)
  qed
qed

end
