(* ===== verification/Steps.thy ===== *)
theory Steps
  imports Goroutines
begin

text \<open>
  What one step of a node does: the messages that have come in and are not handled yet are its
  mail; of its successor and predecessor it changes what the handling of one message of the
  mail changes, or drops the predecessor; and it tells others about itself and its predecessor
  only.
\<close>

section \<open>Mail\<close>

definition mail :: "system \<Rightarrow> (string \<times> payload) set" where
  "mail st = {(y, m). (y, Some m) \<in> set (inbox st) \<or> loop_at st = Locking y m}"

lemma sys_step_mail: "sys_step e st st' \<Longrightarrow> mail st' \<subseteq> mail st"
  by (induction rule: sys_step.induct) (auto simp: mail_def)

lemma mail_boot [simp]: "mail (boot s) = {}"
  by (simp add: mail_def boot_def)

lemma mail_receive: "mail (receive (y, m) st) = mail st \<union> {(y, x) |x. m = Some x}"
  by (auto simp: mail_def receive_def)

section \<open>The node\<close>

inductive node_effect :: "(string \<times> payload) set \<Rightarrow> chord_node \<Rightarrow> chord_node \<Rightarrow> bool" for ms n where
  kept: "\<lbrakk>self n' = self n; successor n' = successor n; predecessor n' \<in> {predecessor n, None};
      responsibles n' = responsibles n\<rbrakk> \<Longrightarrow>
    node_effect ms n n'"
| notified: "(y, MessageNotify idb r) \<in> ms \<Longrightarrow> node_effect ms n (fst (notify (node_of idb r) n))"
| answered: "(y, MessageGetPredecessorResponse idb r True) \<in> ms \<Longrightarrow>
    node_effect ms n (got_predecessor y (node_of idb r) n)"

lemma node_effect_refl [simp]: "node_effect ms n n"
  by (rule node_effect.kept) simp_all

lemma node_effect_mono: "node_effect ms n n' \<Longrightarrow> ms \<subseteq> ms' \<Longrightarrow> node_effect ms' n n'"
  by (induction rule: node_effect.induct) (auto intro: node_effect.intros)

lemma node_effect_files: "node_effect ms n n' \<Longrightarrow> responsibles n' = responsibles n"
  by (induction rule: node_effect.induct)
    (auto simp: notify_def got_predecessor_def Let_def split: option.split)

lemma handle_effect:
  assumes "handleMessage e y (Some m) s = (r, t)" and "r = Ret () \<or> (\<exists>er. r = Fail er)" and "maintenance m"
    and "chord s = Some n"
  shows "\<exists>n'. chord t = Some n' \<and> node_effect {(y, m)} n n'"
proof -
  have t: "t = snd (handleMessage e y (Some m) s)" using assms(1) by simp
  show ?thesis
  proof (cases m)
    case (MessageGetPredecessorResponse idb a h)
    then show ?thesis
      using assms(1,2,4) node_effect.answered [of y idb a "{(y, m)}" n]
      by (auto simp: handleMessageGetPredecessorResponse_def split: if_splits)
  next
    case (MessageNotify idb a)
    then show ?thesis
      using t assms(4) node_effect.notified [of y idb a "{(y, m)}" n]
      by (cases "notify (node_of idb a) n") (simp add: handleMessageNotify_def)
  qed (use t assms(3,4) in \<open>simp_all add: frame\<close>)
qed

lemma begin_lookup_node [simp]: "chord (snd (begin_lookup e a k s)) = chord s"
  by (simp add: begin_lookup_def frame)

lemma begin_lookup_nodeD: "begin_lookup e a k s = (r, t) \<Longrightarrow> chord t = chord s"
  using begin_lookup_node [of e a k s] by simp

lemma sys_step_node:
  assumes "sys_step e st st'" and "chord (srv st) = Some n" and "\<And>a m. loop_at st = Locking a m \<Longrightarrow> maintenance m"
  shows "\<exists>n'. chord (srv st') = Some n' \<and> node_effect (mail st) n n'"
  using assms(1)
proof cases
  case (finger_stored i r)
  then show ?thesis using assms(2) by (auto intro!: node_effect.kept simp: set_finger_def)
next
  case (locked a m r s)
  then have "maintenance m" "(a, m) \<in> mail st" using assms(3) by (simp_all add: mail_def)
  then show ?thesis using handle_effect [OF locked(4,5) _ assms(2)] node_effect_mono [of "{(a, m)}"] locked(1) by auto
next
  case (handled a m rest r s)
  show ?thesis
  proof (cases m)
    case None
    then show ?thesis using handled assms(2) by auto
  next
    case (Some x)
    then have "(a, x) \<in> mail st" using handled by (simp add: mail_def)
    then show ?thesis
      using handle_effect [of e a x "srv st" r s n] handled Some assms(2) node_effect_mono [of "{(a, x)}"] by auto
  qed
next
  case (stabilizes s)
  then show ?thesis using frame_stabilize [of e "srv st"] assms(2) by auto
next
  case (checks s)
  have s: "s = snd (checkPredecessor e (srv st))" using checks by simp
  have "\<exists>n'. chord s = Some n' \<and> node_effect (mail st) n n'"
    unfolding s by (cases rule: checkPredecessor_result [of e "srv st"])
      (use assms(2) in \<open>auto simp: frame intro: node_effect.kept\<close>)
  then show ?thesis using checks by simp
qed (use assms(2) in \<open>auto dest: begin_lookup_nodeD simp: OnPeer_def\<close>)

section \<open>What it tells others\<close>

text \<open>A node notifies its successor, and names its predecessor to anyone; other messages name no neighbour.\<close>

fun permitted :: "chord_node \<Rightarrow> string \<Rightarrow> payload \<Rightarrow> bool" where
  "permitted n x (MessageNotify idb r) \<longleftrightarrow>
     r = naddr (self n) \<and> (\<exists>t. successor n = Some t \<and> x = naddr t \<and> naddr t \<noteq> naddr (self n))"
| "permitted n x (MessageGetPredecessorResponse idb r h) \<longleftrightarrow> (h \<longrightarrow> (\<exists>p. predecessor n = Some p \<and> r = naddr p))"
| "permitted n x m \<longleftrightarrow> True"

text \<open>
  A property of a server that sending what may be said and dialling keep, and that does not
  look at the node and its requests, is kept by every step.
\<close>

locale steady = keeps +
  assumes node: "P s \<Longrightarrow> P (s\<lparr>chord := c\<rparr>)" and requests: "P s \<Longrightarrow> P (s\<lparr>pending := ps\<rparr>)"
    and draws: "P s \<Longrightarrow> P (s\<lparr>drawn := k\<rparr>)" and counts: "P s \<Longrightarrow> P (s\<lparr>transfers := k\<rparr>)"
    and accepts: "P s \<Longrightarrow> broken p = None \<Longrightarrow> outp p = [] \<Longrightarrow> P (snd (OnPeer p s))"
    and asks: "Q x (MessageFindSuccessor idb a q)" "Q x (MessageGetPredecessor a)"
    and answers: "Q x (MessageFindSuccessorResponse idb a q)"
begin

lemma register: "P s \<Longrightarrow> P (register_request q s)"
  by (simp add: register_request_def requests)

lemma signal: "P s \<Longrightarrow> P (signal_request q r s)"
  by (auto simp: signal_request_def requests split: option.split)

lemma forget: "P s \<Longrightarrow> P (forget_request q s)"
  by (simp add: forget_request_def requests)

lemma forget_all: "P s \<Longrightarrow> P (forget_all qs s)"
  by (induction qs arbitrary: s) (simp_all add: forget_all_def forget)

lemma request: "P s \<Longrightarrow> P (snd (request_successor e q a k s))"
  by (rule request_successor) (simp_all add: asks)

lemma begin_lookup: "P s \<Longrightarrow> P (snd (begin_lookup e a k s))"
  by (simp add: begin_lookup_def request register draws)

lemma begin_lookupD: "begin_lookup e a k s = (r, t) \<Longrightarrow> P s \<Longrightarrow> P t"
  using begin_lookup [of s a k] by simp

lemma deferring: "P (snd m) \<Longrightarrow> P (snd (deferring (forget_request q) m))"
  by (auto simp: deferring_def forget split: prod.split res.split)

text \<open>A lookup in the message loop has no replies.\<close>

lemma remote: "P s \<Longrightarrow> P (snd (findSuccessorRemote e [] a k s))"
  by (auto intro!: deferring sequence request register draws)

lemma find: "P s \<Longrightarrow> P (snd (FindSuccessor e [] k s))"
  by (auto simp: FindSuccessor_def with_node_def remote simp del: findSuccessorRemote.simps
      split: option.split decision.split)

lemma find_handler:
  assumes "P s"
  shows "P (snd (handleMessageFindSuccessor e from idb a q s))"
proof -
  have "P (snd (case answer_peer e from a t of
      (None, s) \<Rightarrow> (Fail (Errorf ''couldn't find or establish connection'' [a]), s)
    | (Some b, s) \<Rightarrow> sendMessage e b (MessageFindSuccessorResponse i c q) s))" if "P t" for t i c
    using answer_peer [OF that, of "from" a] send [OF _ answers] by (auto split: prod.split option.split)
  then show ?thesis
    using assms find [OF assms] by (auto simp: handleMessageFindSuccessor_def intro!: sequence)
qed

lemma handle:
  assumes "P s" and "maintenance m" and "chord s = Some n" and "\<And>x m. permitted n x m \<Longrightarrow> Q x m"
  shows "P (snd (handleMessage e y (Some m) s))"
proof (cases m)
  case (MessageFindSuccessorResponse idb a q)
  then show ?thesis
    using assms(1,3) forward_response [OF assms(1)] answers
    by (simp add: handleMessageFindSuccessorResponse_def Let_def signal)
next
  case (MessageGetPredecessor a)
  have "Q y (case predecessor n of None \<Rightarrow> MessageGetPredecessorResponse [] [] False
      | Some p \<Rightarrow> MessageGetPredecessorResponse (int_bytes (nid p)) (naddr p) True)"
    by (rule assms(4)) (simp split: option.split)
  from send [OF assms(1) this] show ?thesis
    using MessageGetPredecessor assms(1,3) by (simp add: handleMessageGetPredecessor_def Let_def split: option.split)
next
  case (MessageGetPredecessorResponse idb a h)
  then show ?thesis using assms(1,3) by (simp add: handleMessageGetPredecessorResponse_def node)
next
  case (MessageNotify idb a)
  then show ?thesis
    using counts [OF node [OF assms(1)]] node [OF assms(1)] assms(1,3)
    by (cases "notify (node_of idb a) n") (simp add: handleMessageNotify_def)
qed (use assms(1,2) in \<open>simp_all add: find_handler\<close>)

lemma handleD:
  assumes "handleMessage e y m s = (r, t)" and "P s" and "pred_option maintenance m" and "chord s = Some n"
    and "\<And>x m. permitted n x m \<Longrightarrow> Q x m"
  shows "P t"
proof (cases m)
  case None
  then show ?thesis using assms(1,2) by simp
next
  case (Some x)
  then show ?thesis using handle [OF assms(2) _ assms(4,5), of x y] assms(1,3) by simp
qed

lemma step:
  assumes "sys_step e st st'" and "P (srv st)" and n: "chord (srv st) = Some n"
    and lock: "\<And>a m. loop_at st = Locking a m \<Longrightarrow> maintenance m"
    and all: "\<And>x m. permitted n x m \<Longrightarrow> Q x m"
  shows "P (srv st')"
  using assms(1)
proof cases
  case (locked a m r s)
  then show ?thesis using handleD [OF locked(4) assms(2) _ n all] lock by simp
next
  case (handled a m rest r s)
  then show ?thesis using handleD [OF handled(6) assms(2) _ n all] by simp
next
  case (stabilizes s)
  have "P (snd (stabilize e (srv st)))"
    by (rule stabilize [OF assms(2)]) (use n all asks in auto)
  then show ?thesis using stabilizes by simp
next
  case (checks s)
  have "P (update_node f t) = P t" for f t
    using node [of t] node [of "update_node f t" "chord t"] by (auto simp: update_node_def)
  then have "P (snd (checkPredecessor e (srv st)))"
    using dial [OF assms(2)] assms(2) by (cases rule: checkPredecessor_result [of e "srv st"]) simp_all
  then show ?thesis using checks by simp
qed (use assms(2) in \<open>auto dest: begin_lookupD simp: forget forget_all node accepts\<close>)

end

text \<open>The address of a node never changes.\<close>

lemma saddr_sendMessage [simp]: "saddr (snd (sendMessage e a m s)) = saddr s"
  by (simp add: sendMessage_def on_peer_def split: option.split prod.split)

lemma saddr_Dial [simp]: "saddr (snd (Dial e a s)) = saddr s"
  by (simp add: Dial_def OnPeer_def split: dial_result.split)

interpretation address: steady e "\<lambda>s. saddr s = a" "\<lambda>_ _. True" for e a
  by unfold_locales (simp_all add: OnPeer_def)

lemma saddr_begin [simp]: "saddr (snd (begin_lookup e a k s)) = saddr s"
  by (rule address.begin_lookup) simp

end
