(* ===== verification/Confined.thy ===== *)
theory Confined
  imports Steps
begin

text \<open>
  What a node knows of others: the references it holds, and those that messages carry, are of a
  given set. Every step of its goroutines keeps them there, and keeps with it what
  sending messages about these nodes keeps of the connections.
\<close>

section \<open>References\<close>

fun msg_refs :: "payload \<Rightarrow> node_ref set" where
  "msg_refs (MessageFindSuccessorResponse idb a q) = {node_of idb a}"
| "msg_refs (MessageGetPredecessorResponse idb a h) = (if h then {node_of idb a} else {})"
| "msg_refs (MessageNotify idb a) = {node_of idb a}"
| "msg_refs m = {}"

definition node_refs :: "chord_node \<Rightarrow> node_ref set" where
  "node_refs n = insert (self n) (set_option (successor n) \<union> set_option (predecessor n) \<union>
     (\<Union>f \<in> set (fingers n). set_option f))"

definition node_in :: "node_ref set \<Rightarrow> chord_node \<Rightarrow> bool" where
  "node_in R n \<longleftrightarrow> successor n \<noteq> None \<and> length (fingers n) = M \<and> node_refs n \<subseteq> R"

lemma node_of_back [simp]: "node_of (int_bytes (nid r)) (naddr r) = r"
  by (simp add: node_of_def)

lemma node_of_hash [simp]: "node_of (int_bytes (hashToNodeID a)) a = ref_of a"
  by (simp add: node_of_def ref_of_def)

lemma node_inD:
  assumes "node_in R n"
  shows "self n \<in> R" "set_option (successor n) \<subseteq> R" "set_option (predecessor n) \<subseteq> R"
    "i < M \<Longrightarrow> set_option (fingers n ! i) \<subseteq> R" "successor n \<noteq> None"
proof -
  note n = assms [unfolded node_in_def node_refs_def]
  show "self n \<in> R" "set_option (successor n) \<subseteq> R" "set_option (predecessor n) \<subseteq> R" "successor n \<noteq> None"
    using n by auto
  show "set_option (fingers n ! i) \<subseteq> R" if "i < M"
  proof -
    have "fingers n ! i \<in> set (fingers n)" using n that by simp
    then show ?thesis using n by blast
  qed
qed

section \<open>Nodes stay confined\<close>

lemma Create_in: "self n \<in> R \<Longrightarrow> node_in R (Create n)"
  by (simp add: node_in_def node_refs_def Create_def image_constant_conv del: upt_conv_Nil)

lemma join_in: "ref_of a \<in> R \<Longrightarrow> self n \<in> R \<Longrightarrow> fingers n = replicate M None \<Longrightarrow> node_in R (join_state a n)"
  by (simp add: node_in_def node_refs_def join_state_def)

lemma notify_in: "node_in R n \<Longrightarrow> r \<in> R \<Longrightarrow> node_in R (fst (notify r n))"
  by (auto simp: node_in_def node_refs_def notify_def Let_def split: option.split)

lemma got_predecessor_in: "node_in R n \<Longrightarrow> r \<in> R \<Longrightarrow> node_in R (got_predecessor a r n)"
  by (auto simp: node_in_def node_refs_def got_predecessor_def split: option.split)

lemma set_finger_in: "node_in R n \<Longrightarrow> r \<in> R \<Longrightarrow> node_in R (set_finger i r n)"
  by (auto simp: node_in_def node_refs_def set_finger_def dest!: set_update_subset_insert [THEN subsetD])

lemma no_predecessor_in: "node_in R n \<Longrightarrow> node_in R (n\<lparr>predecessor := None\<rparr>)"
  by (auto simp: node_in_def node_refs_def)

lemma find_step_in:
  assumes "node_in R n"
  shows "case find_step n k of Answer r \<Rightarrow> r \<in> R | Ask r \<Rightarrow> r \<in> R"
proof -
  have "closestPrecedingNode n k \<in> R"
    using closest_loop_cases [of n k M] node_inD(1,4) [OF assms] by (auto simp: closestPrecedingNode_def)
  then show ?thesis
    using node_inD(1,2) [OF assms] by (auto simp: find_step_def Let_def split: option.split)
qed

section \<open>A server and its references\<close>

definition trusted :: "(server \<Rightarrow> bool) \<Rightarrow> node_ref set \<Rightarrow> node_ref \<Rightarrow> server \<Rightarrow> bool" where
  "trusted S R me s \<longleftrightarrow>
     (\<exists>n. chord s = Some n \<and> self n = me \<and> node_in R n) \<and>
     (\<forall>x \<in> set (pending s). set_option (snd x) \<subseteq> R) \<and> S s"

lemma trusted_chord:
  "trusted S R me s \<Longrightarrow> (\<And>n. node_in R n \<Longrightarrow> self n = me \<Longrightarrow> node_in R (f n) \<and> self (f n) = me) \<Longrightarrow>
    S (s\<lparr>chord := map_option f (chord s)\<rparr>) \<Longrightarrow> trusted S R me (s\<lparr>chord := map_option f (chord s)\<rparr>)"
  by (auto simp: trusted_def)

lemma trusted_by: "trusted S R me s \<Longrightarrow> chord t = chord s \<Longrightarrow> pending t = pending s \<Longrightarrow> S t \<Longrightarrow> trusted S R me t"
  by (simp add: trusted_def)

lemma trusted_S: "trusted S R me s \<Longrightarrow> S s"
  by (simp add: trusted_def)

lemma trusted_pending: "trusted S R me s \<Longrightarrow> map_of (pending s) q = Some (Some r) \<Longrightarrow> r \<in> R"
  by (fastforce simp: trusted_def dest: map_of_SomeD)

lemma set_update_subset: "set (AList.update q x ps) \<subseteq> insert (q, x) (set ps)"
  by (induction ps) auto

definition sys_trusted :: "(server \<Rightarrow> bool) \<Rightarrow> node_ref set \<Rightarrow> node_ref \<Rightarrow> system \<Rightarrow> bool" where
  "sys_trusted S R me st \<longleftrightarrow> trusted S R me (srv st) \<and>
     (\<forall>x \<in> set (inbox st). \<forall>m. snd x = Some m \<longrightarrow> msg_refs m \<subseteq> R) \<and>
     (\<forall>x \<in> set (found st). snd x \<in> R) \<and>
     (\<forall>a m. loop_at st = Locking a m \<longrightarrow> msg_refs m \<subseteq> R \<and> maintenance m)"

lemma sys_trustedD:
  assumes "sys_trusted S R me st"
  shows "trusted S R me (srv st)" "x \<in> set (inbox st) \<Longrightarrow> snd x = Some m \<Longrightarrow> msg_refs m \<subseteq> R"
    "y \<in> set (found st) \<Longrightarrow> snd y \<in> R" "loop_at st = Locking a m \<Longrightarrow> msg_refs m \<subseteq> R \<and> maintenance m"
  using assms by (auto simp: sys_trusted_def)

lemma sys_trusted_mono: "sys_trusted S R me st \<Longrightarrow> R \<subseteq> R' \<Longrightarrow> S' (srv st) \<Longrightarrow> sys_trusted S' R' me st"
  by (fastforce simp: sys_trusted_def trusted_def node_in_def)

lemma needs_lock_maintenance: "needs_lock a m n \<Longrightarrow> maintenance m"
  by (cases m) simp_all

section \<open>Steps keep them\<close>

text \<open>
  \<open>S\<close> is what is known of the connections: messages that name nodes of \<open>R\<close> only, dialling
  and new connections keep it, and it does not depend on the node and its requests.
\<close>

locale trusting = keeps e S "\<lambda>_ m. msg_refs m \<subseteq> R" for e S R +
  assumes node: "S (s\<lparr>chord := c\<rparr>) = S s" and requests: "S (s\<lparr>pending := ps\<rparr>) = S s"
    and draws: "S (s\<lparr>drawn := k\<rparr>) = S s" and counts: "S (s\<lparr>transfers := k\<rparr>) = S s"
    and accepts: "S s \<Longrightarrow> outp p = [] \<Longrightarrow> S (snd (OnPeer p s))"
begin

lemmas unchanged = node requests draws counts

lemma trusted_keeps: "keeps e (trusted S R me) (\<lambda>_ m. msg_refs m \<subseteq> R)"
proof
  show "trusted S R me (snd (sendMessage e a m s))" if "trusted S R me s" "msg_refs m \<subseteq> R" for s a m
    by (rule trusted_by [OF that(1)]) (simp_all add: frame send [OF trusted_S [OF that(1)] that(2)])
  show "trusted S R me (snd (Dial e a s))" if "trusted S R me s" for s a
    by (rule trusted_by [OF that]) (simp_all add: frame dial [OF trusted_S [OF that]])
qed

lemmas in_turn = keeps_andthen [where P = "trusted S R me" for me]

lemma register: "trusted S R me s \<Longrightarrow> trusted S R me (register_request q (s\<lparr>drawn := k\<rparr>))"
  using set_update_subset [of q None "pending s"] by (fastforce simp: trusted_def unchanged register_request_def)

lemma signal: "r \<in> R \<Longrightarrow> trusted S R me s \<Longrightarrow> trusted S R me (signal_request q r s)"
  using set_update_subset [of q "Some r" "pending s"]
  by (fastforce simp: trusted_def unchanged signal_request_def split: option.split)

lemma forget: "trusted S R me s \<Longrightarrow> trusted S R me (forget_request q s)"
  by (simp add: trusted_def unchanged forget_request_def AList.delete_eq)

lemma forget_all: "trusted S R me s \<Longrightarrow> trusted S R me (forget_all qs s)"
  by (induction qs arbitrary: s) (simp_all add: forget_all_def forget)

lemma deferring: "trusted S R me (snd m) \<Longrightarrow> trusted S R me (snd (deferring (forget_request q) m))"
  by (auto simp: deferring_def forget split: prod.split res.split)

lemma asks: "trusted S R me s \<Longrightarrow> trusted S R me (snd (request_successor e q a k s))"
  by (rule keeps.request_successor [OF trusted_keeps]) simp_all

lemma begins: "trusted S R me s \<Longrightarrow> trusted S R me (snd (begin_lookup e a k s))"
  by (simp add: begin_lookup_def asks register)

text \<open>A lookup in the message loop has no replies: it answers from the tables of the node, or not at all.\<close>

lemma FindSuccessor:
  assumes c: "trusted S R me s"
  shows "trusted S R me (snd (FindSuccessor e [] k s)) \<and> (\<forall>r. fst (FindSuccessor e [] k s) = Ret r \<longrightarrow> r \<in> R)"
proof -
  obtain n where n: "chord s = Some n" "node_in R n" using c by (auto simp: trusted_def)
  have "trusted S R me (snd (andthen (request_successor e q a k (register_request q (s\<lparr>drawn := Suc (drawn s)\<rparr>)))
      (\<lambda>d s1. if d then (Hang :: node_ref res, s1) else (Fail er, s1))))" for q er a
    using asks [OF register [OF c]] by (auto intro!: in_turn)
  then have remote: "trusted S R me (snd (findSuccessorRemote e [] a k s))" for a
    by (simp add: deferring)
  have never: "fst (findSuccessorRemote e [] a k s) \<noteq> Ret r" for a r
    by (auto simp: deferring_def andthen_def split: prod.split res.split)
  show ?thesis
    using n find_step_in [OF n(2), of k] remote never c
    by (cases "find_step n k") (simp_all add: FindSuccessor_def with_node_def del: findSuccessorRemote.simps)
qed

lemma says: "msg_refs m \<subseteq> R \<Longrightarrow> trusted S R me s \<Longrightarrow> trusted S R me (snd (sendMessage e a m s))"
  using keeps.send [OF trusted_keeps] by blast

lemma find_handler:
  assumes c: "trusted S R me s"
  shows "trusted S R me (snd (handleMessageFindSuccessor e from idb a q s))"
proof -
  obtain r t where f: "FindSuccessor e [] (set_bytes idb) s = (r, t)" by (cases "FindSuccessor e [] (set_bytes idb) s")
  have t: "trusted S R me t" and r: "\<forall>x. r = Ret x \<longrightarrow> x \<in> R"
    using FindSuccessor [OF assms, of "set_bytes idb"] f by simp_all
  obtain b u where ans: "answer_peer e from a t = (b, u)" by (cases "answer_peer e from a t")
  have u: "trusted S R me u" using keeps.answer_peer [OF trusted_keeps t, of "from" a] ans by simp
  show ?thesis
  proof (cases r)
    case (Ret x)
    then have "trusted S R me (snd (sendMessage e y (MessageFindSuccessorResponse (int_bytes (nid x)) (naddr x) q) u))" for y
      using r by (intro says [OF _ u]) simp
    then show ?thesis using c f t u ans Ret by (simp add: handleMessageFindSuccessor_def split: option.split)
  qed (use c f t in \<open>simp_all add: handleMessageFindSuccessor_def\<close>)
qed

lemma handles:
  assumes c: "trusted S R me s" and "pred_option maintenance m" and "\<forall>x. m = Some x \<longrightarrow> msg_refs x \<subseteq> R"
  shows "trusted S R me (snd (handleMessage e from m s))"
proof (cases m)
  case None
  then show ?thesis using c by simp
next
  case (Some x)
  obtain n where n: "chord s = Some n" "self n = me" "node_in R n" using c by (auto simp: trusted_def)
  have refs: "msg_refs x \<subseteq> R" using assms(3) Some by simp
  show ?thesis
    using assms(2) unfolding Some
  proof (cases x)
    case (MessageFindSuccessor idb a q)
    then show "trusted S R me (snd (handleMessage e from (Some x) s))" by (simp add: find_handler [OF c])
  next
    case (MessageFindSuccessorResponse idb a q)
    then show "trusted S R me (snd (handleMessage e from (Some x) s))"
      using n(1) c refs keeps.forward_response [OF trusted_keeps c]
      by (simp add: handleMessageFindSuccessorResponse_def Let_def signal)
  next
    case (MessageGetPredecessor a)
    have "msg_refs (case predecessor n of None \<Rightarrow> MessageGetPredecessorResponse [] [] False
        | Some p \<Rightarrow> MessageGetPredecessorResponse (int_bytes (nid p)) (naddr p) True) \<subseteq> R"
      using node_inD(3) [OF n(3)] by (auto split: option.split)
    from says [OF this c] show "trusted S R me (snd (handleMessage e from (Some x) s))"
      using MessageGetPredecessor n(1) c by (simp add: handleMessageGetPredecessor_def Let_def split: option.split)
  next
    case (MessageGetPredecessorResponse idb a h)
    then show "trusted S R me (snd (handleMessage e from (Some x) s))"
      using n c refs got_predecessor_in [OF n(3), of "node_of idb a" "from"] node_inD(5) [OF n(3)]
      by (cases h) (simp_all add: handleMessageGetPredecessorResponse_def trusted_def unchanged)
  next
    case (MessageNotify idb a)
    have "node_in R (fst (notify (node_of idb a) n))" using refs MessageNotify by (intro notify_in [OF n(3)]) simp
    then show "trusted S R me (snd (handleMessage e from (Some x) s))"
      using MessageNotify n c self_unchanged(3) [of "node_of idb a" n]
      by (cases "notify (node_of idb a) n") (simp add: handleMessageNotify_def trusted_def unchanged)
  qed simp_all
qed

lemma stabilization: "trusted S R me s \<Longrightarrow> trusted S R me (snd (stabilize e s))"
  by (rule keeps.stabilize [OF trusted_keeps]) (auto simp: trusted_def dest: node_inD(1))

lemma check:
  assumes c: "trusted S R me s"
  shows "trusted S R me (snd (checkPredecessor e s))"
proof -
  have d: "trusted S R me (snd (Dial e b s))" for b by (rule keeps.dial [OF trusted_keeps c])
  have "trusted S R me (update_node (\<lambda>n. n\<lparr>predecessor := None\<rparr>) (snd (Dial e b s)))" for b
    using trusted_chord [OF d] no_predecessor_in trusted_S [OF d] by (simp add: unchanged)
  with c d show ?thesis by (cases rule: checkPredecessor_result [of e s]) simp_all
qed

lemma connection: "trusted S R me s \<Longrightarrow> outp p = [] \<Longrightarrow> trusted S R me (snd (OnPeer p s))"
  using accepts [of s p] trusted_S [of S R me s] by (auto simp: OnPeer_def intro: trusted_by)

lemma step:
  assumes "sys_step e st st'" and ok: "sys_trusted S R me st"
  shows "sys_trusted S R me st'"
  using assms(1)
proof cases
  note c = sys_trustedD(1) [OF ok] and lookup = begins [OF sys_trustedD(1) [OF ok]]
  {
    case (lookup_local n i r)
    then have "node_in R n" using c by (simp add: trusted_def)
    then show ?thesis using ok lookup_local find_step_in [of R n "fingerID (nid (self n)) i"] by (simp add: sys_trusted_def)
  next
    case (lookup_asks n k i c d s)
    then show ?thesis using ok lookup [of "naddr c" k] by (simp add: sys_trusted_def)
  next
    case (lookup_unsent n k i c er s)
    then show ?thesis using ok lookup [of "naddr c" k] by (simp add: sys_trusted_def forget)
  next
    case (lookup_answered l q qs r)
    then show ?thesis using ok c trusted_pending [OF c, of q r] by (simp add: sys_trusted_def forget_all)
  next
    case (lookup_retries l d s)
    then show ?thesis using ok lookup [of "asked l" "ident l"] by (simp add: sys_trusted_def)
  next
    case (lookup_fails l er s)
    then show ?thesis using ok lookup [of "asked l" "ident l"] by (simp add: sys_trusted_def forget_all)
  next
    case (lookup_times_out l)
    then show ?thesis using ok c by (simp add: sys_trusted_def forget_all)
  next
    case (finger_stored i r)
    then have "r \<in> R" using sys_trustedD(3) [OF ok] by fastforce
    then have "trusted S R me (update_node (set_finger i r) (srv st))"
      using trusted_chord [OF c] set_finger_in trusted_S [OF c] by (simp add: unchanged)
    then show ?thesis
      using finger_stored ok by (auto simp: sys_trusted_def dest!: set_remove1_subset [THEN subsetD])
  next
    case (lock_waits a m rest n)
    then show ?thesis using ok needs_lock_maintenance [of a m n] by (auto simp: sys_trusted_def)
  next
    case (locked a m r s)
    then show ?thesis
      using ok handles [OF c, of "Some m" a] sys_trustedD(4) [OF ok, of a m] by (simp add: sys_trusted_def)
  next
    case (handled a m rest r s)
    then show ?thesis
      using ok handles [OF c, of m a] sys_trustedD(2) [OF ok, of "(a, m)"] by (simp add: sys_trusted_def)
  next
    case (stabilizes s)
    then show ?thesis using ok stabilization [OF c] stabilizes by (simp add: sys_trusted_def)
  next
    case (checks s)
    then show ?thesis using ok check [OF c] by (simp add: sys_trusted_def)
  next
    case (connects p)
    then show ?thesis using ok connection [OF c, of p] by (simp add: sys_trusted_def)
  }
qed

end

text \<open>Of arbitrary connections nothing is known, and nothing has to be.\<close>

interpretation anything: trusting e "\<lambda>_. True" R for e R
  by unfold_locales simp_all

end
