(* ===== verification/World.thy ===== *)
theory World
  imports Confined
begin

text \<open>
  A system of Chord nodes: each node with its goroutines, and everything they have ever written
  to their connections. An address belongs to one node, its \<open>host\<close>: a node listens on an
  address of its own, and the addresses of its ends of other connections are its own, too. What
  is written to a connection may arrive at the node at the other end, late, more than once, or
  never; dialling reaches nodes of the system or fails; nodes join at any time.

  The invariant confines references: whatever a node holds, and whatever it has sent, names
  nodes of a given set only.
\<close>

section \<open>The system\<close>

record world =
  nodes :: "string \<Rightarrow> system option"
  wires :: "(string \<times> string \<times> bytes) set"

definition no_world :: world where
  "no_world = \<lparr>nodes = Map.empty, wires = {}\<rparr>"

text \<open>What a node has written: to which address, and which bytes.\<close>

definition written :: "string \<Rightarrow> server \<Rightarrow> (string \<times> string \<times> bytes) set" where
  "written a s = {(a, x, w) |x w. \<exists>p. (x, p) \<in> set (peers s) \<and> w \<in> set (outp p)}"

text \<open>A node of the world changes; what it has written by now stays under way.\<close>

definition set_node :: "string \<Rightarrow> system \<Rightarrow> world \<Rightarrow> world" where
  "set_node a st W = \<lparr>nodes = (nodes W)(a \<mapsto> st), wires = wires W \<union> written a (srv st)\<rparr>"

text \<open>A new connection is empty and leads to a node of the system.\<close>

definition dials_to :: "string set \<Rightarrow> (string \<Rightarrow> dial_result) \<Rightarrow> bool" where
  "dials_to A dl \<longleftrightarrow> (\<forall>a p r. dl a = Connected p r \<longrightarrow> outp p = [] \<and> RemoteAddr p \<in> A)"

text \<open>
  The steps of the nodes of one ring: a node joins through another one that it can dial; a
  node takes one of its own steps; a written message arrives at the host of the address it was
  written to, marked with an address of the sender.
\<close>

inductive ring_step :: "(string \<Rightarrow> string) \<Rightarrow> env \<Rightarrow> world \<Rightarrow> world \<Rightarrow> bool" for host e where
  joins: "\<lbrakk>nodes W a = None; host a = a; dials_to (dom (nodes W)) dl; b \<noteq> a;
      JoinChord (e\<lparr>dialing := dl, clock := c\<rparr>) b (NewFileServer a root T d) = (Ret (), s)\<rbrakk> \<Longrightarrow>
    ring_step host e W (set_node a (boot s) W)"
| acts: "\<lbrakk>nodes W a = Some st; dials_to (dom (nodes W)) dl; sys_step (e\<lparr>dialing := dl, clock := c\<rparr>) st st'\<rbrakk> \<Longrightarrow>
    ring_step host e W (set_node a st' W)"
| arrives: "\<lbrakk>(a, x, w) \<in> wires W; host y = a; nodes W (host x) = Some st\<rbrakk> \<Longrightarrow>
    ring_step host e W (set_node (host x) (receive (y, ungob_msg e w) st) W)"

text \<open>In a system with more than one ring, a node may also create one, also by joining itself.\<close>

inductive world_step :: "(string \<Rightarrow> string) \<Rightarrow> env \<Rightarrow> world \<Rightarrow> world \<Rightarrow> bool" for host e where
  creates: "\<lbrakk>nodes W a = None; host a = a; s = InitChord (NewFileServer a root T d)\<rbrakk> \<Longrightarrow>
    world_step host e W (set_node a (boot s) W)"
| joins_itself: "\<lbrakk>nodes W a = None; host a = a; JoinChord e a (NewFileServer a root T d) = (Ret (), s)\<rbrakk> \<Longrightarrow>
    world_step host e W (set_node a (boot s) W)"
| ring: "ring_step host e W W' \<Longrightarrow> world_step host e W W'"

abbreviation world_run :: "(string \<Rightarrow> string) \<Rightarrow> env \<Rightarrow> world \<Rightarrow> world \<Rightarrow> bool" where
  "world_run host e \<equiv> (world_step host e)\<^sup>*\<^sup>*"

abbreviation ring_run :: "(string \<Rightarrow> string) \<Rightarrow> env \<Rightarrow> world \<Rightarrow> world \<Rightarrow> bool" where
  "ring_run host e \<equiv> (ring_step host e)\<^sup>*\<^sup>*"

lemma set_node_simps [simp]:
  "nodes (set_node a st W) = (nodes W)(a \<mapsto> st)" "wires (set_node a st W) = wires W \<union> written a (srv st)"
  by (simp_all add: set_node_def)

lemma no_world_simps [simp]: "nodes no_world = Map.empty" "wires no_world = {}"
  by (simp_all add: no_world_def)

lemma ring_world_run: "ring_run host e W W' \<Longrightarrow> world_run host e W W'"
  by (induction rule: rtranclp_induct) (auto intro: world_step.ring rtranclp.rtrancl_into_rtrancl)

section \<open>What is said over connections\<close>

text \<open>The law of the message encoding, and what was written to the connections of a server.\<close>

definition codec_ok :: "env \<Rightarrow> bool" where
  "codec_ok e \<longleftrightarrow> (\<forall>m. ungob_msg e (gob_msg e m) = Some m) \<and> ungob_msg e [IncomingMessage] = None"

definition says :: "env \<Rightarrow> (payload \<Rightarrow> bool) \<Rightarrow> bytes list \<Rightarrow> bool" where
  "says e Q ws \<longleftrightarrow> (\<forall>w \<in> set ws. pred_option Q (ungob_msg e w))"

definition speaks :: "env \<Rightarrow> (string \<Rightarrow> payload \<Rightarrow> bool) \<Rightarrow> server \<Rightarrow> bool" where
  "speaks e Q s \<longleftrightarrow> (\<forall>x \<in> set (peers s). says e (Q (fst x)) (outp (snd x)))"

lemma says_Nil [simp]: "says e Q []"
  by (simp add: says_def)

lemma says_message: "codec_ok e \<Longrightarrow> says e Q ws \<Longrightarrow> Q m \<Longrightarrow> says e Q (ws @ [[IncomingMessage], gob_msg e m])"
  by (auto simp: says_def codec_ok_def)

lemma speaks_cong: "peers t = peers s \<Longrightarrow> speaks e Q t = speaks e Q s"
  by (simp add: speaks_def)

lemma speaks_unchanged [simp]:
  "speaks e Q (s\<lparr>chord := c\<rparr>) = speaks e Q s" "speaks e Q (s\<lparr>pending := ps\<rparr>) = speaks e Q s"
  "speaks e Q (s\<lparr>drawn := k\<rparr>) = speaks e Q s" "speaks e Q (s\<lparr>transfers := k\<rparr>) = speaks e Q s"
  by (simp_all add: speaks_def)

lemma speaks_mono: "speaks e Q s \<Longrightarrow> (\<And>x m. Q x m \<Longrightarrow> Q' x m) \<Longrightarrow> speaks e Q' s"
  by (auto simp: speaks_def says_def option.pred_set)

lemma speaksD: "speaks e Q s \<Longrightarrow> (a, x, w) \<in> written b s \<Longrightarrow> ungob_msg e w = Some m \<Longrightarrow> a = b \<and> Q x m"
  by (fastforce simp: speaks_def says_def written_def)

lemma speaks_peer:
  assumes "speaks e Q s" and "says e (Q a) (outp q)"
  shows "speaks e Q (s\<lparr>peers := AList.update a q (peers s)\<rparr>)"
proof -
  have "set (AList.update a q ps) \<subseteq> insert (a, q) (set ps)" for ps :: "(string \<times> peer) list"
    by (induction ps) auto
  then show ?thesis using assms by (fastforce simp: speaks_def)
qed

lemma speaks_send:
  assumes "codec_ok e" and "Q a m" and "speaks e Q s"
  shows "speaks e Q (snd (sendMessage e a m s))"
proof (cases "map_of (peers s) a")
  case None
  then show ?thesis using assms(3) by (simp add: sendMessage_def on_peer_def)
next
  case (Some p)
  have p: "says e (Q a) (outp p)" using assms(3) map_of_SomeD [OF Some] by (fastforce simp: speaks_def)
  have "speaks e Q (s\<lparr>peers := AList.update a (p\<lparr>outp := outp p @ [[IncomingMessage], gob_msg e m]\<rparr>) (peers s)\<rparr>)"
    using says_message [OF assms(1) p] assms(2) by (intro speaks_peer [OF assms(3)]) simp
  moreover have "speaks e Q (s\<lparr>peers := AList.update a p (peers s)\<rparr>)"
    by (rule speaks_peer [OF assms(3) p])
  ultimately show ?thesis
    using Some by (cases "broken p") (simp_all add: sendMessage_def on_peer_def send_frame_ok send_frame_broken)
qed

lemma speaks_Dial: "dials_to A (dialing e) \<Longrightarrow> speaks e Q s \<Longrightarrow> speaks e Q (snd (Dial e a s))"
proof (cases "dialing e a")
  case (Connected p r)
  assume "dials_to A (dialing e)" and s: "speaks e Q s"
  then have "outp p = []" using Connected by (auto simp: dials_to_def)
  then have "speaks e Q (s\<lparr>peers := AList.update (RemoteAddr p) p (peers s)\<rparr>)" by (intro speaks_peer [OF s]) simp
  then show ?thesis using s Connected by (simp add: Dial_def OnPeer_def)
qed (simp add: Dial_def)

lemma speaks_kept: "codec_ok e \<Longrightarrow> dials_to A (dialing e) \<Longrightarrow> keeps e (speaks e Q) Q"
  by unfold_locales (simp_all add: speaks_send speaks_Dial)

lemma speaks_steady:
  assumes "codec_ok e" and "dials_to A (dialing e)"
    and "\<And>x idb a q. Q x (MessageFindSuccessor idb a q)" and "\<And>x a. Q x (MessageGetPredecessor a)"
    and "\<And>x idb a q. Q x (MessageFindSuccessorResponse idb a q)"
  shows "steady e (speaks e Q) Q"
  using speaks_kept [OF assms(1,2)]
  by (rule steady.intro) (unfold_locales, auto simp: assms OnPeer_def intro: speaks_peer)

section \<open>References\<close>

text \<open>Nodes that know, and talk about, nodes of a set only.\<close>

abbreviation naming :: "env \<Rightarrow> node_ref set \<Rightarrow> server \<Rightarrow> bool" where
  "naming e R \<equiv> speaks e (\<lambda>_ m. msg_refs m \<subseteq> R)"

definition confined :: "env \<Rightarrow> node_ref set \<Rightarrow> node_ref \<Rightarrow> server \<Rightarrow> bool" where
  "confined e R me s \<longleftrightarrow>
     (\<exists>n. chord s = Some n \<and> self n = me \<and> node_in R n) \<and>
     (\<forall>x \<in> set (pending s). set_option (snd x) \<subseteq> R) \<and> naming e R s"

definition sys_ok :: "env \<Rightarrow> node_ref set \<Rightarrow> node_ref \<Rightarrow> system \<Rightarrow> bool" where
  "sys_ok e R me st \<longleftrightarrow> confined e R me (srv st) \<and>
     (\<forall>x \<in> set (inbox st). \<forall>m. snd x = Some m \<longrightarrow> msg_refs m \<subseteq> R) \<and>
     (\<forall>x \<in> set (found st). snd x \<in> R) \<and>
     (\<forall>a m. loop_at st = Locking a m \<longrightarrow> msg_refs m \<subseteq> R \<and> maintenance m)"

lemma confined_trusted: "confined e R = trusted (naming e R) R"
  by (simp add: fun_eq_iff confined_def trusted_def)

lemma sys_ok_trusted: "sys_ok e R = sys_trusted (naming e R) R"
  by (simp add: fun_eq_iff sys_ok_def sys_trusted_def confined_trusted)

lemmas sys_okD = sys_trustedD [of "naming e R" R for e R, folded sys_ok_trusted confined_trusted]

lemma naming_trusting: "codec_ok e \<Longrightarrow> dials_to A (dialing e) \<Longrightarrow> trusting e (naming e R) R"
  using speaks_kept [of e A "\<lambda>_ m. msg_refs m \<subseteq> R"]
  by (intro trusting.intro) (simp, unfold_locales, auto simp: OnPeer_def intro: speaks_peer)

lemma sys_step_ok:
  "sys_step e st st' \<Longrightarrow> codec_ok e \<Longrightarrow> dials_to A (dialing e) \<Longrightarrow> sys_ok e R me st \<Longrightarrow> sys_ok e R me st'"
  unfolding sys_ok_trusted by (rule trusting.step [OF naming_trusting])

section \<open>The invariant of the system\<close>

lemma confined_env [simp]:
  "speaks (e\<lparr>dialing := dl, clock := c\<rparr>) Q s = speaks e Q s"
  "confined (e\<lparr>dialing := dl, clock := c\<rparr>) R me s = confined e R me s"
  "codec_ok (e\<lparr>dialing := dl, clock := c\<rparr>) = codec_ok e"
  "sys_ok (e\<lparr>dialing := dl, clock := c\<rparr>) R me st = sys_ok e R me st"
  by (simp_all add: confined_def codec_ok_def speaks_def says_def sys_ok_def)

lemma sys_ok_mono:
  assumes "sys_ok e R me st" and "R \<subseteq> R'"
  shows "sys_ok e R' me st"
proof -
  have "naming e R (srv st)" using assms(1) by (simp add: sys_ok_def confined_def)
  then have "naming e R' (srv st)" by (rule speaks_mono) (use assms(2) in blast)
  then show ?thesis using sys_trusted_mono [OF assms(1) [unfolded sys_ok_trusted] assms(2)] by (simp add: sys_ok_trusted)
qed

lemma sys_ok_boot: "confined e R me s \<Longrightarrow> sys_ok e R me (boot s)"
  by (simp add: sys_ok_def boot_def)

lemma confined_creates: "ref_of a \<in> R \<Longrightarrow> confined e R (ref_of a) (InitChord (NewFileServer a root T d))"
  using Create_in [of "NewChordNode a" R]
  by (simp add: confined_def InitChord_def NewFileServer_def speaks_def) (simp add: NewChordNode_def)

text \<open>Joining itself creates a ring.\<close>

lemma joins_self: "JoinChord e a (NewFileServer a root T d) = (Ret (), s) \<Longrightarrow> s = InitChord (NewFileServer a root T d)"
  by (simp add: JoinChord_def Join_def with_node_def NewFileServer_def InitChord_def) (simp add: NewChordNode_def)

text \<open>A node that joins has dialled a node of the system, made it its successor and notified it.\<close>

lemma joins_result:
  assumes "JoinChord e b (NewFileServer a root T d) = (Ret (), s)" and "b \<noteq> a"
    and "codec_ok e" and "dials_to A (dialing e)"
  obtains r where "r \<in> A" and "chord s = Some (join_state r (NewChordNode a))" and "pending s = []" and "saddr s = a"
    and "\<And>Q. Q r (MessageNotify (int_bytes (hashToNodeID a)) a) \<Longrightarrow> speaks e Q s"
proof -
  let ?s = "(NewFileServer a root T d)\<lparr>chord := Some ((NewChordNode a)\<lparr>predecessor := None\<rparr>)\<rparr>"
  have "andthen (wrapping ''failed to dial'' (Dial e b ?s)) (\<lambda>r s. sendNotify e r (update_node (join_state r) s)) =
      (Ret (), s)"
    using assms(1,2) by (simp add: JoinChord_def Join_def with_node_def NewFileServer_def NewChordNode_def)
  then obtain r t where w: "wrapping ''failed to dial'' (Dial e b ?s) = (Ret r, t)"
    and k: "sendNotify e r (update_node (join_state r) t) = (Ret (), s)"
    by (rule andthen_RetE)
  have t: "Dial e b ?s = (Ret r, t)" using w by (auto simp: wrapping_def split: prod.splits res.splits)
  have s: "s = snd (sendNotify e r (update_node (join_state r) t))" by (simp only: k snd_conv)
  obtain p x where p: "dialing e b = Connected p x" "r = RemoteAddr p"
    using t by (auto simp: Dial_def split: dial_result.splits)
  have r: "r \<in> A" using assms(4) p by (auto simp: dials_to_def)
  have empty: "speaks e Q ?s" for Q by (simp add: speaks_def NewFileServer_def)
  have t': "t = snd (Dial e b ?s)" by (simp add: t)
  have n: "chord t = Some ((NewChordNode a)\<lparr>predecessor := None\<rparr>)" "pending t = []"
    by (simp_all add: t' frame) (simp add: NewFileServer_def)
  have "join_state r ((NewChordNode a)\<lparr>predecessor := None\<rparr>) = join_state r (NewChordNode a)"
    by (simp add: join_state_def)
  then have u: "chord (update_node (join_state r) t) = Some (join_state r (NewChordNode a))"
    "pending (update_node (join_state r) t) = []"
    using n by simp_all
  have ref: "self (NewChordNode a) = ref_of a" by (simp add: NewChordNode_def)
  have "speaks e Q s" if "Q r (MessageNotify (int_bytes (hashToNodeID a)) a)" for Q
    unfolding s
  proof (rule keeps.sendNotify [OF speaks_kept [OF assms(3,4)]])
    show "speaks e Q (update_node (join_state r) t)" unfolding t' using speaks_Dial [OF assms(4) empty] by simp
    show "Q r (MessageNotify (int_bytes (nid (self n))) (naddr (self n)))"
      if "chord (update_node (join_state r) t) = Some n" for n
      using that \<open>Q r _\<close> ref unfolding u(1) by auto
  qed
  moreover have "chord s = Some (join_state r (NewChordNode a))" unfolding s
    by (rule chord_kept.sendNotify) (use u in simp_all)
  moreover have "pending s = []" unfolding s by (rule pending_kept.sendNotify) (use u in simp_all)
  moreover have "saddr s = a" unfolding s t' by (rule address.sendNotify) (simp_all add: NewFileServer_def)
  ultimately show ?thesis using that r by blast
qed

lemma confined_joins:
  assumes "codec_ok e" and "dials_to A (dialing e)" and "ref_of ` A \<subseteq> R" and "ref_of a \<in> R"
    and "JoinChord e b (NewFileServer a root T d) = (Ret (), s)" and "b \<noteq> a"
  shows "confined e R (ref_of a) s"
proof -
  obtain r where r: "r \<in> A" "chord s = Some (join_state r (NewChordNode a))" "pending s = []"
    and q: "\<And>Q. Q r (MessageNotify (int_bytes (hashToNodeID a)) a) \<Longrightarrow> speaks e Q s"
    by (rule joins_result [OF assms(5,6,1,2)]) blast
  have "node_in R (join_state r (NewChordNode a))"
    using r(1) assms(3,4) by (intro join_in) (auto simp: NewChordNode_def)
  moreover have "speaks e (\<lambda>_ m. msg_refs m \<subseteq> R) s" by (rule q) (simp add: assms(4))
  ultimately show ?thesis using r(2,3) by (simp add: confined_def) (simp add: NewChordNode_def)
qed

definition world_ok :: "env \<Rightarrow> world \<Rightarrow> bool" where
  "world_ok e W \<longleftrightarrow>
     (\<forall>a st. nodes W a = Some st \<longrightarrow> sys_ok e (ref_of ` dom (nodes W)) (ref_of a) st) \<and>
     (\<forall>(a, x, w) \<in> wires W. pred_option (\<lambda>m. msg_refs m \<subseteq> ref_of ` dom (nodes W)) (ungob_msg e w))"

lemma written_ok:
  "speaks e (\<lambda>_ m. msg_refs m \<subseteq> R) s \<Longrightarrow> \<forall>(a, x, w) \<in> written b s. pred_option (\<lambda>m. msg_refs m \<subseteq> R) (ungob_msg e w)"
  by (auto simp: option.pred_set dest: speaksD)

lemma world_ok_update:
  assumes "world_ok e W" and "sys_ok e (ref_of ` dom (nodes (set_node a st W))) (ref_of a) st"
  shows "world_ok e (set_node a st W)"
proof -
  have sub: "ref_of ` dom (nodes W) \<subseteq> ref_of ` dom (nodes (set_node a st W))" by auto
  let ?R = "ref_of ` dom (nodes (set_node a st W))"
  have "speaks e (\<lambda>_ m. msg_refs m \<subseteq> ?R) (srv st)" using assms(2) by (simp add: sys_ok_def confined_def)
  then have "\<forall>(b, x, w) \<in> written a (srv st). pred_option (\<lambda>m. msg_refs m \<subseteq> ?R) (ungob_msg e w)" by (rule written_ok)
  moreover have "\<forall>(b, x, w) \<in> wires W. pred_option (\<lambda>m. msg_refs m \<subseteq> ?R) (ungob_msg e w)"
  proof clarify
    fix b x w assume "(b, x, w) \<in> wires W"
    then have "pred_option (\<lambda>m. msg_refs m \<subseteq> ref_of ` dom (nodes W)) (ungob_msg e w)"
      using assms(1) by (auto simp: world_ok_def)
    then show "pred_option (\<lambda>m. msg_refs m \<subseteq> ?R) (ungob_msg e w)"
      using sub by (cases "ungob_msg e w") auto
  qed
  moreover have "sys_ok e ?R (ref_of b) st'" if "nodes (set_node a st W) b = Some st'" for b st'
    using assms sys_ok_mono [OF _ sub] that by (auto simp: world_ok_def split: if_splits)
  ultimately show ?thesis unfolding world_ok_def set_node_simps by blast
qed

lemma ring_step_ok:
  assumes "ring_step host e W W'" and "codec_ok e" and "world_ok e W"
  shows "world_ok e W'"
  using assms(1)
proof cases
  case (joins a dl b c root T d s)
  have "confined (e\<lparr>dialing := dl, clock := c\<rparr>) (ref_of ` dom (nodes W')) (ref_of a) s"
    by (rule confined_joins [of _ "dom (nodes W)", OF _ _ _ _ joins(6,5)]) (use assms(2) joins(1,4) in auto)
  then show ?thesis unfolding joins(1) by (intro world_ok_update [OF assms(3)] sys_ok_boot) simp
next
  case (acts a st dl c st')
  have "sys_ok e (ref_of ` dom (nodes W)) (ref_of a) st" using assms(3) acts(2) by (simp add: world_ok_def)
  then have "sys_ok e (ref_of ` dom (nodes W)) (ref_of a) st'"
    using sys_step_ok [OF acts(4), of "dom (nodes W)"] assms(2) acts(3) by simp
  moreover have "dom (nodes (set_node a st' W)) = dom (nodes W)" using acts(2) by auto
  ultimately show ?thesis unfolding acts(1) by (intro world_ok_update [OF assms(3)]) simp
next
  case (arrives a x w y st)
  have "pred_option (\<lambda>m. msg_refs m \<subseteq> ref_of ` dom (nodes W)) (ungob_msg e w)"
    using assms(3) arrives(2) by (auto simp: world_ok_def)
  moreover have "sys_ok e (ref_of ` dom (nodes W)) (ref_of (host x)) st" using assms(3) arrives(4) by (simp add: world_ok_def)
  ultimately have "sys_ok e (ref_of ` dom (nodes W)) (ref_of (host x)) (receive (y, ungob_msg e w) st)"
    by (auto simp: sys_ok_def receive_def option.pred_set)
  moreover have "dom (nodes (set_node (host x) (receive (y, ungob_msg e w) st) W)) = dom (nodes W)" using arrives(4) by auto
  ultimately show ?thesis unfolding arrives(1) by (intro world_ok_update [OF assms(3)]) simp
qed

lemma world_step_ok:
  assumes "world_step host e W W'" and "codec_ok e" and "world_ok e W"
  shows "world_ok e W'"
  using assms(1)
proof cases
  case (creates a s root T d)
  show ?thesis unfolding creates(1,4)
    by (intro world_ok_update [OF assms(3)] sys_ok_boot confined_creates) simp
next
  case (joins_itself a root T d s)
  show ?thesis unfolding joins_itself(1) joins_self [OF joins_itself(4)]
    by (intro world_ok_update [OF assms(3)] sys_ok_boot confined_creates) simp
qed (rule ring_step_ok [OF _ assms(2,3)])

lemma world_run_ok: "world_run host e W W' \<Longrightarrow> codec_ok e \<Longrightarrow> world_ok e W \<Longrightarrow> world_ok e W'"
  by (induction rule: rtranclp_induct) (auto intro: world_step_ok)

lemma world_empty [simp]: "world_ok e no_world"
  by (simp add: world_ok_def)

text \<open>What confinement to nodes of the system says of one node.\<close>

lemma node_in_ok:
  assumes "node_in (ref_of ` A) n"
  shows "node_ok n" and "naddr ` node_refs n \<subseteq> A"
proof -
  have p: "proper r" if "r \<in> node_refs n" for r using assms that by (auto simp: node_in_def)
  obtain s where s: "successor n = Some s" using node_inD(5) [OF assms] by blast
  show "node_ok n"
    using assms p s by (fastforce simp: node_ok_def node_in_def node_refs_def option.pred_set)
  show "naddr ` node_refs n \<subseteq> A" using assms by (auto simp: node_in_def)
qed

end
