(* ===== verification/Ring_Order.thy ===== *)
theory Ring_Order
  imports Ring
begin

text \<open>
  Successor pointers on a circle, as a map from nodes to nodes. \<open>leads\<close> follows the pointers
  from a node to another one without passing over it. The maintenance protocol changes a
  pointer only to a node that lies before its old target and leads to it, and then whatever
  has led to a node still does. So the pointers keep the one ring they have, it goes round
  once, and no node is ever cut off from it; and where every pointer is answered by the
  pointer back, the ring is that of all nodes in their order.
\<close>

inductive leads :: "('n \<Rightarrow> 'n \<Rightarrow> nat) \<Rightarrow> ('n \<Rightarrow> 'n option) \<Rightarrow> 'n \<Rightarrow> 'n \<Rightarrow> bool" for d s where
  leads_next: "s m = Some b \<Longrightarrow> leads d s m b"
| leads_via: "s m = Some c \<Longrightarrow> d m c < d m b \<Longrightarrow> leads d s c b \<Longrightarrow> leads d s m b"

text \<open>A node reaches another one over any number of pointers, at least one.\<close>

definition reaches :: "('n \<Rightarrow> 'n option) \<Rightarrow> 'n \<Rightarrow> 'n \<Rightarrow> bool" where
  "reaches s = (\<lambda>m c. s m = Some c)\<^sup>+\<^sup>+"

lemma leads_reaches: "leads d s m b \<Longrightarrow> reaches s m b"
  unfolding reaches_def
proof (induction rule: leads.induct)
  case (leads_next m b)
  then show ?case by (rule tranclp.r_into_trancl)
next
  case (leads_via m c b)
  then show ?case by (meson tranclp.r_into_trancl tranclp_trans)
qed

text \<open>If all pointers of one map lead somewhere in another, what is reached in the first is in the second.\<close>

lemma reaches_mono:
  assumes "reaches s m b" and "\<And>m c. s m = Some c \<Longrightarrow> leads d t m c"
  shows "reaches t m b"
  using assms(1) unfolding reaches_def
proof (induction rule: tranclp_induct)
  case (base c)
  then show ?case using leads_reaches [OF assms(2) [OF base]] by (simp add: reaches_def)
next
  case (step c b)
  then show ?case using leads_reaches [OF assms(2) [OF step(2)]] by (auto simp: reaches_def)
qed

lemma leads_mono: "leads d s m b \<Longrightarrow> s \<subseteq>\<^sub>m t \<Longrightarrow> leads d t m b"
  by (induction rule: leads.induct) (auto intro: leads.intros simp: map_le_def dom_def)

context circle begin

text \<open>Pointers join positions, and none points back at its own node.\<close>

definition pointers :: "('p \<Rightarrow> 'p option) \<Rightarrow> bool" where
  "pointers s \<longleftrightarrow> (\<forall>m c. s m = Some c \<longrightarrow> pos m \<and> pos c \<and> m \<noteq> c)"

lemma d_self: "pos a \<Longrightarrow> d a a = 0"
  by (simp add: d_zero)

lemma d_pos: "pos a \<Longrightarrow> pos b \<Longrightarrow> a \<noteq> b \<Longrightarrow> 0 < d a b"
  using d_zero by fastforce

lemma leads_pos:
  assumes "leads d s m b" and "pointers s"
  shows "pos m \<and> pos b \<and> m \<noteq> b"
  using assms
proof (induction rule: leads.induct)
  case (leads_via m c b)
  then show ?case using d_self by (fastforce simp: pointers_def)
qed (simp add: pointers_def)

lemma leads_trans:
  assumes "leads d s m x" and "leads d s x b" and "d m x < d m b" and "pointers s"
  shows "leads d s m b"
  using assms
proof (induction rule: leads.induct)
  case (leads_next m x)
  then show ?case by (simp add: leads.leads_via)
next
  case (leads_via m c x)
  have p: "pos m" "pos c" "pos x" "pos b"
    using leads_via.hyps leads_via.prems leads_pos by (fastforce simp: pointers_def)+
  have "d m x = d m c + d c x" "d m b = d m c + d c b"
    using d_split [of m c x] d_split [of m c b] p leads_via.hyps(2) leads_via.prems(2) by simp_all
  then have "leads d s c b" using leads_via by simp
  then show ?case using leads_via.hyps leads_via.prems(2) by (meson leads.leads_via less_trans)
qed

text \<open>The way from a node to another one does not pass a node that is not on the arc.\<close>

lemma leads_elsewhere:
  assumes "leads d s p x" and "\<not> d p n < d p x" and "\<And>m. m \<noteq> n \<Longrightarrow> t m = s m" and "pointers s" and "pos n"
  shows "leads d t p x"
  using assms
proof (induction rule: leads.induct)
  case (leads_next p x)
  then have "p \<noteq> n" using d_self d_pos by (fastforce simp: pointers_def)
  then show ?case using leads_next by (auto intro: leads.leads_next)
next
  case (leads_via p c x)
  have p: "pos p" "pos c" "pos x" "c \<noteq> x" "p \<noteq> x"
    using leads_pos [of s c x] leads_via.hyps leads_via.prems(3) d_self by (fastforce simp: pointers_def)+
  then have "p \<noteq> n" using leads_via.prems(1) d_self d_pos [of p x] by auto
  moreover have "\<not> d c n < d c x"
  proof
    assume "d c n < d c x"
    moreover have "d p x = d p c + d c x" using d_split [of p c x] p leads_via.hyps(2) by simp
    moreover have "d p n = d p c + d c n" if "d p c \<le> d p n"
      using d_split [of p c n] p leads_via.prems(4) that by simp
    ultimately show False using leads_via.prems(1) leads_via.hyps(2) by fastforce
  qed
  ultimately show ?case using leads_via by (auto intro: leads.leads_via)
qed

text \<open>A pointer moves back to a node that leads to its old target: everything still leads where it led.\<close>

lemma leads_refine:
  assumes "leads d s m b" and "s n = Some x" and "leads d s p x" and "d n p < d n x" and "p \<noteq> n" and "pointers s"
  shows "leads d (s(n \<mapsto> p)) m b"
proof -
  let ?s = "s(n \<mapsto> p)"
  have pos: "pos n" "pos x" "pos p" "n \<noteq> x" "p \<noteq> x"
    using assms(2,6) leads_pos [OF assms(3,6)] by (auto simp: pointers_def)
  have "pointers ?s" using assms(5,6) pos by (auto simp: pointers_def)
  have "d n x = d n p + d p x" using d_split [of n p x] pos assms(4) by simp
  moreover have "d n p + d p n = turn" "d n x + d x n = turn" using d_turn pos assms(5) by auto
  ultimately have "leads d ?s p x"
    using leads_elsewhere [OF assms(3), of n ?s] assms(6) pos by simp
  from assms(1) show ?thesis
  proof (induction rule: leads.induct)
    case (leads_next m b)
    show ?case
    proof (cases "m = n")
      case True
      then have "b = x" using leads_next assms(2) by simp
      moreover have "leads d ?s n x" by (rule leads.leads_via [OF _ assms(4) \<open>leads d ?s p x\<close>]) simp
      ultimately show ?thesis using True by metis
    qed (use leads_next in \<open>auto intro: leads.leads_next\<close>)
  next
    case (leads_via m c b)
    show ?case
    proof (cases "m = n")
      case True
      then have c: "c = x" "d n x < d n b" using leads_via.hyps assms(2) by simp_all
      have b: "pos b" using leads_pos [OF leads_via.IH \<open>pointers ?s\<close>] by simp
      have "d n b = d n p + d p b" "d n x = d n p + d p x"
        using d_split [of n p b] d_split [of n p x] pos b c assms(4) by simp_all
      then have "d p x < d p b" using c(2) by simp
      then have "leads d ?s p b"
        by (rule leads_trans [OF \<open>leads d ?s p x\<close> leads_via.IH [unfolded c(1)] _ \<open>pointers ?s\<close>])
      have "d n p < d n b" using assms(4) c(2) by simp
      show ?thesis unfolding True by (rule leads.leads_via [OF _ \<open>d n p < d n b\<close> \<open>leads d ?s p b\<close>]) simp
    next
      case False
      then show ?thesis using leads_via by (auto intro: leads.leads_via)
    qed
  qed
qed

section \<open>The ring of a node\<close>

text \<open>Distances add up along the way.\<close>

lemma d_add:
  assumes "pos m" "pos c" "pos b" "pos x" and "m \<noteq> b" and "d m c \<le> d m b" and "d c x \<le> d c b"
  shows "d m x = d m c + d c x"
proof (cases "d m c \<le> d m x")
  case False
  then have "d m c = d m x + d x c" "c \<noteq> x" using d_split [of m x c] assms(1-4) by auto
  moreover have "d m b = d m c + d c b" using d_split assms(1-3,6) by simp
  moreover have "d c x + d x c = turn" "d m b + d b m = turn" "0 < d b m"
    using d_turn d_pos assms(1-5) \<open>c \<noteq> x\<close> by auto
  ultimately show ?thesis using assms(7) by linarith
qed (use d_split assms in simp)

lemma d_round:
  assumes "pos a" "pos m" "pos x" and "a \<noteq> m" and "d m x < d m a"
  shows "d a x = d a m + d m x"
proof (cases "d a m \<le> d a x")
  case False
  then have "d a m = d a x + d x m" "m \<noteq> x" using d_split [of a x m] assms(1-3) by auto
  moreover have "d m x + d x m = turn" "d m a + d a m = turn" using d_turn assms(1-4) \<open>m \<noteq> x\<close> by auto
  ultimately show ?thesis using assms(5) by linarith
qed (use d_split assms in simp)

text \<open>A list of positions in the order in which they are met from \<open>a\<close>.\<close>

definition ordered_from :: "'p \<Rightarrow> 'p list \<Rightarrow> bool" where
  "ordered_from a xs \<longleftrightarrow> sorted_wrt (\<lambda>x y. d a x < d a y) xs"

lemma ordered_Cons:
  assumes "pos a" and "ordered_from a xs" and "\<And>x. x \<in> set xs \<Longrightarrow> pos x \<and> x \<noteq> a"
  shows "ordered_from a (a # xs)"
proof -
  have "d a a < d a x" if "x \<in> set xs" for x using assms(1,3) that d_self d_pos by fastforce
  then show ?thesis using assms(2) by (simp add: ordered_from_def)
qed

lemma ordered_shift:
  assumes "ordered_from b xs" and "\<And>x. x \<in> set xs \<Longrightarrow> d a x = k + d b x"
  shows "ordered_from a xs"
  unfolding ordered_from_def
  by (rule sorted_wrt_mono_rel [OF _ assms(1) [unfolded ordered_from_def]]) (simp add: assms(2))

lemma leads_trail:
  assumes "leads d s m b" and "pointers s"
  shows "\<exists>ns. successively (\<lambda>x y. s x = Some y) (m # ns @ [b]) \<and> ordered_from m (m # ns @ [b]) \<and> (\<forall>x \<in> set ns. pos x)"
  using assms
proof (induction rule: leads.induct)
  case (leads_next m b)
  then have "0 < d m b" using d_pos by (auto simp: pointers_def)
  moreover have "d m m = 0" using leads_next d_self by (auto simp: pointers_def)
  ultimately show ?case using leads_next by (intro exI [of _ "[]"]) (simp add: ordered_from_def)
next
  case (leads_via m c b)
  then obtain ns where ns: "successively (\<lambda>x y. s x = Some y) (c # ns @ [b])" "ordered_from c (c # ns @ [b])"
    "\<forall>x \<in> set ns. pos x" by blast
  have p: "pos m" "pos c" "pos b" "m \<noteq> c" "m \<noteq> b"
    using leads_pos [OF leads_via.hyps(3) leads_via.prems] leads_via.hyps(1,2) leads_via.prems d_self
    by (fastforce simp: pointers_def)+
  have add: "d m x = d m c + d c x" and ok: "pos x" if "x \<in> set (c # ns @ [b])" for x
  proof -
    show "pos x" using that ns(3) p by auto
    have "d c y < d c b" if "y \<in> set (c # ns)" for y
      using ns(2) that by (auto simp: ordered_from_def sorted_wrt_append)
    then have "d c x \<le> d c b" using \<open>x \<in> set (c # ns @ [b])\<close> by (auto intro: less_imp_le)
    then show "d m x = d m c + d c x" using d_add [of m c b x] p leads_via.hyps(2) \<open>pos x\<close> by simp
  qed
  have "ordered_from m (c # ns @ [b])" by (rule ordered_shift [OF ns(2) add])
  moreover have "x \<noteq> m" if "x \<in> set (c # ns @ [b])" for x
    using add [OF that] d_pos [OF p(1,2,4)] d_self [OF p(1)] by auto
  ultimately have "ordered_from m (m # c # ns @ [b])" by (intro ordered_Cons [OF p(1)] conjI ok)
  then show ?case using ns leads_via.hyps(1) p by (intro exI [of _ "c # ns"]) simp
qed

text \<open>A node whose pointer leads back to it lies on a ring that goes round once.\<close>

definition ring_from :: "('p \<Rightarrow> 'p option) \<Rightarrow> 'p \<Rightarrow> 'p list \<Rightarrow> bool" where
  "ring_from s a ns \<longleftrightarrow> successively (\<lambda>x y. s x = Some y) (a # ns @ [a]) \<and> ordered_from a (a # ns)"

lemma leads_ring:
  assumes "s a = Some m" and "leads d s m a" and "pointers s"
  shows "\<exists>ns. ring_from s a ns"
proof -
  obtain ns where ns: "successively (\<lambda>x y. s x = Some y) (m # ns @ [a])" "ordered_from m (m # ns @ [a])"
    "\<forall>x \<in> set ns. pos x"
    using leads_trail [OF assms(2,3)] by blast
  have p: "pos a" "pos m" "a \<noteq> m" using assms(1,3) by (auto simp: pointers_def)
  have add: "d a x = d a m + d m x" if "x \<in> set (m # ns)" for x
  proof -
    have "d m x < d m a" using that ns(2) by (auto simp: ordered_from_def sorted_wrt_append)
    then show ?thesis using d_round [of a m x] p that ns(3) by auto
  qed
  have "ordered_from m (m # ns)"
    using ns(2) by (simp add: ordered_from_def sorted_wrt_append)
  then have "ordered_from a (m # ns)" by (rule ordered_shift [OF _ add])
  moreover have "pos x \<and> x \<noteq> a" if "x \<in> set (m # ns)" for x
    using add [OF that] d_pos [OF p] d_self [OF p(1)] that ns(3) p(2) by auto
  ultimately have "ordered_from a (a # m # ns)" by (rule ordered_Cons [OF p(1)])
  then show ?thesis using ns(1) assms(1) by (intro exI [of _ "m # ns"]) (simp add: ring_from_def)
qed

section \<open>Rings of all nodes\<close>

lemma ring_from_nth:
  assumes "ring_from s a ns" and "i < length (a # ns)"
  shows "s ((a # ns) ! i) = Some ((a # ns @ [a]) ! Suc i)"
  using assms successively_conv_nth [of "\<lambda>x y. s x = Some y" "a # ns @ [a]"]
  by (auto simp: ring_from_def nth_append nth_Cons split: nat.splits)

lemma ring_from_pred:
  assumes "ring_from s a ns" and "c \<in> set (a # ns)"
  shows "\<exists>m \<in> set (a # ns). s m = Some c"
proof -
  obtain i where i: "i \<le> length ns" "(a # ns @ [a]) ! Suc i = c"
  proof (cases "c = a")
    case True
    then show thesis using that [of "length ns"] by (simp add: nth_append)
  next
    case False
    then obtain j where "j < length ns" "ns ! j = c" using assms(2) by (auto simp: in_set_conv_nth)
    then show thesis using that [of j] by (simp add: nth_append)
  qed
  then have "s ((a # ns) ! i) = Some c" using ring_from_nth [OF assms(1), of i] by simp
  moreover have "(a # ns) ! i \<in> set (a # ns)" using i(1) by (intro nth_mem) simp
  ultimately show ?thesis by blast
qed

text \<open>Where no two pointers have the same target, everything that reaches the ring is on it.\<close>

lemma ring_covers:
  assumes "ring_from s a ns" and "\<And>m n c. s m = Some c \<Longrightarrow> s n = Some c \<Longrightarrow> m = n" and "reaches s n a"
  shows "n \<in> set (a # ns)"
  using assms(3) unfolding reaches_def
proof (induction rule: converse_tranclp_induct)
  case (base n)
  then show ?case using ring_from_pred [OF assms(1), of a] assms(2) by auto
next
  case (step n c)
  then show ?case using ring_from_pred [OF assms(1) step(3)] assms(2) by blast
qed

text \<open>On the ring, a pointer leads to the next node of the ring going clockwise.\<close>

lemma ring_next:
  assumes "ring_from s a ns" and "pointers s" and "n \<in> set (a # ns)" and "s n = Some c"
    and "b \<in> set (a # ns)" and "b \<noteq> n"
  shows "d n c \<le> d n b"
proof -
  let ?xs = "a # ns"
  obtain i j where i: "i < length ?xs" "?xs ! i = n" and j: "j < length ?xs" "?xs ! j = b"
    using assms(3,5) by (metis in_set_conv_nth)
  have pos: "pos x" if "x \<in> set ?xs" for x
    using ring_from_pred [OF assms(1) that] assms(2) by (auto simp: pointers_def)
  have sorted: "d a (?xs ! k) < d a (?xs ! l)" if "k < l" "l < length ?xs" for k l
    using assms(1) that unfolding ring_from_def ordered_from_def sorted_wrt_iff_nth_less by blast
  have p: "pos a" "pos n" "pos b" using pos assms(3,5) by simp_all
  have up: "d n (?xs ! k) = d a (?xs ! k) - d a n" if "i < k" "k < length ?xs" for k
  proof -
    have "pos (?xs ! k)" using pos nth_mem [OF that(2)] by blast
    moreover have "d a n < d a (?xs ! k)" using sorted [OF that] i(2) by simp
    ultimately show ?thesis using d_split [of a n "?xs ! k"] p by simp
  qed
  have "0 < length ?xs" by simp
  have nz: "d a (?xs ! k) < turn" if "k < length ?xs" for k
    using d_turn [of a "?xs ! k"] d_pos [of "?xs ! k" a] p pos nth_mem [OF that] d_self [of a]
      d_turn [of n b] d_pos [of n b] assms(6) by (cases "?xs ! k = a") fastforce+
  have down: "d n b + d a n = turn + d a b" if "j < i"
  proof -
    have "d a b < d a n" using sorted [OF that i(1)] i j by simp
    moreover have "d a n = d a b + d b n" using calculation d_split [of a b n] p by simp
    moreover have "d n b + d b n = turn" using d_turn p assms(6) by auto
    ultimately show ?thesis by simp
  qed
  have c: "c = (?xs @ [a]) ! Suc i" using ring_from_nth [OF assms(1) i(1)] assms(4) i(2) by simp
  have ij: "i < j \<or> j < i" using i(2) j(2) assms(6) by (metis nat_neq_iff)
  show ?thesis
  proof (cases "Suc i < length ?xs")
    case True
    then have c: "c = ?xs ! Suc i" using c by (simp add: nth_append)
    have "d a (?xs ! Suc i) \<le> d a (?xs ! j)" if "i < j"
      using sorted [of "Suc i" j] that j(1) by (cases "Suc i = j") (auto intro: less_imp_le)
    then show ?thesis using ij up [of "Suc i"] up [of j] c j down nz [OF True] True by fastforce
  next
    case False
    then have "Suc i = length ?xs" using i(1) by simp
    then have "c = a" "j < i" using c ij j(1) by (auto simp: nth_append)
    then have "n \<noteq> a" using sorted [of 0 i] i by auto
    then show ?thesis using d_turn [of n a] p down [OF \<open>j < i\<close>] \<open>c = a\<close> by simp
  qed
qed

end

end
