(* ===== verification/World_Ring.thy ===== *)
theory World_Ring
  imports World Ring_Order
begin

text \<open>
  The ring of a system that one node has created and the others have joined: the successors of
  its nodes as a map from addresses to addresses, and the invariant that predecessors, and the
  neighbours named in messages that are still under way, lead to where they belong.
\<close>

section \<open>Successors of a system\<close>

text \<open>The address of the successor, if it is another node.\<close>

definition next_of :: "chord_node \<Rightarrow> string option" where
  "next_of n =
     (case successor n of
        None \<Rightarrow> None
      | Some t \<Rightarrow> if naddr t = naddr (self n) then None else Some (naddr t))"

definition node_at :: "world \<Rightarrow> string \<Rightarrow> chord_node option" where
  "node_at W a = Option.bind (nodes W a) (\<lambda>st. chord (srv st))"

definition succs :: "world \<Rightarrow> string \<Rightarrow> string option" where
  "succs W a = Option.bind (node_at W a) next_of"

definition apart :: "string \<Rightarrow> string \<Rightarrow> nat" where
  "apart a b = cdist (hashToNodeID a) (hashToNodeID b)"

lemma circle_on:
  assumes "inj_on hashToNodeID A"
  shows "circle (\<lambda>a. a \<in> A) apart ringN"
proof
  fix a b assume "a \<in> A" "b \<in> A"
  then have eq: "hashToNodeID a = hashToNodeID b \<longleftrightarrow> a = b" using assms by (auto dest: inj_onD)
  show "apart a b = 0 \<longleftrightarrow> a = b"
    using eq ring.d_zero [of "hashToNodeID a" "hashToNodeID b"] by (simp add: apart_def hashToNodeID_bound)
  show "apart a b + apart b a = ringN" if "a \<noteq> b"
    using eq that ring.d_turn [of "hashToNodeID a" "hashToNodeID b"] by (simp add: apart_def hashToNodeID_bound)
next
  fix a b c assume "apart a b \<le> apart a c"
  then show "apart a c = apart a b + apart b c"
    using ring.d_split [of "hashToNodeID a" "hashToNodeID b" "hashToNodeID c"] by (simp add: apart_def hashToNodeID_bound)
qed

section \<open>The invariant\<close>

text \<open>
  What one node may tell another about a neighbour, given the successors: a node that notifies
  leads to the one it notifies, and the predecessor a node names leads to that node.
\<close>

fun told :: "(string \<Rightarrow> string option) \<Rightarrow> string \<Rightarrow> string \<Rightarrow> payload \<Rightarrow> bool" where
  "told s a b (MessageNotify idb r) \<longleftrightarrow> leads apart s r b"
| "told s a b (MessageGetPredecessorResponse idb r h) \<longleftrightarrow> (h \<longrightarrow> leads apart s r a)"
| "told s a b m \<longleftrightarrow> True"

definition linked :: "(string \<Rightarrow> string) \<Rightarrow> env \<Rightarrow> (string \<Rightarrow> string option) \<Rightarrow> string \<Rightarrow> system \<Rightarrow> bool" where
  "linked host e s a st \<longleftrightarrow>
     (\<forall>n p. chord (srv st) = Some n \<and> predecessor n = Some p \<longrightarrow> next_of n \<noteq> None \<and> leads apart s (naddr p) a) \<and>
     (\<forall>(y, m) \<in> mail st. told s (host y) a m) \<and>
     speaks e (\<lambda>x. told s a (host x)) (srv st)"

text \<open>
  A node that is alone has no predecessor either.
  The invariant of a ring that \<open>a0\<close> has created: every other node reaches it over successors,
  and as soon as it is not alone its successor leads back to it.
\<close>

definition ring_ok :: "(string \<Rightarrow> string) \<Rightarrow> env \<Rightarrow> string \<Rightarrow> world \<Rightarrow> bool" where
  "ring_ok host e a0 W \<longleftrightarrow> world_ok e W \<and> a0 \<in> dom (nodes W) \<and>
     (\<forall>a \<in> dom (nodes W). host a = a \<and> (a \<noteq> a0 \<longrightarrow> reaches (succs W) a a0)) \<and>
     (\<forall>a st. nodes W a = Some st \<longrightarrow> linked host e (succs W) a st) \<and>
     (\<forall>(a, x, w) \<in> wires W. pred_option (told (succs W) a (host x)) (ungob_msg e w)) \<and>
     (\<forall>m. succs W a0 = Some m \<longrightarrow> leads apart (succs W) m a0)"

section \<open>Changes that keep what leads\<close>

definition grows :: "(string \<Rightarrow> string option) \<Rightarrow> (string \<Rightarrow> string option) \<Rightarrow> bool" where
  "grows s t \<longleftrightarrow> (\<forall>m b. leads apart s m b \<longrightarrow> leads apart t m b)"

lemma growsD: "grows s t \<Longrightarrow> leads apart s m b \<Longrightarrow> leads apart t m b"
  by (simp add: grows_def)

lemma grows_refl [simp]: "grows s s"
  by (simp add: grows_def)

lemma grows_map: "s \<subseteq>\<^sub>m t \<Longrightarrow> grows s t"
  by (simp add: grows_def leads_mono)

lemma grows_reaches: "grows s t \<Longrightarrow> reaches s m b \<Longrightarrow> reaches t m b"
  by (rule reaches_mono) (auto simp: grows_def intro: leads_next)

lemma told_grows: "grows s t \<Longrightarrow> told s a b m \<Longrightarrow> told t a b m"
  by (cases m) (auto simp: grows_def)

lemma linked_grows: "grows s t \<Longrightarrow> linked host e s a st \<Longrightarrow> linked host e t a st"
  unfolding linked_def by (blast intro: growsD told_grows speaks_mono)

text \<open>One node changes, or comes in, and the successors grow: the rest of the invariant stays.\<close>

lemma ring_ok_update:
  assumes ok: "ring_ok host e a0 W" and w: "world_ok e (set_node a st W)"
    and g: "grows (succs W) (succs (set_node a st W))"
    and l: "linked host e (succs (set_node a st W)) a st" and "host a = a"
    and r: "a \<noteq> a0 \<Longrightarrow> a \<notin> dom (nodes W) \<Longrightarrow> reaches (succs (set_node a st W)) a a0"
    and c: "\<And>m. succs (set_node a st W) a0 = Some m \<Longrightarrow> leads apart (succs (set_node a st W)) m a0"
  shows "ring_ok host e a0 (set_node a st W)"
proof -
  let ?W = "set_node a st W"
  have reach: "b \<noteq> a0 \<longrightarrow> reaches (succs ?W) b a0" "host b = b" if "b \<in> dom (nodes ?W)" for b
    using that ok r grows_reaches [OF g] \<open>host a = a\<close> by (cases "b = a"; auto simp: ring_ok_def)+
  have link: "linked host e (succs ?W) b st'" if "nodes ?W b = Some st'" for b st'
    using that ok l linked_grows [OF g] by (cases "b = a") (auto simp: ring_ok_def)
  have speak: "speaks e (\<lambda>x. told (succs ?W) a (host x)) (srv st)" using l by (simp add: linked_def)
  have "pred_option (told (succs ?W) b (host x)) (ungob_msg e v)" if "(b, x, v) \<in> wires ?W" for b x v
    using that
  proof (cases "(b, x, v) \<in> wires W")
    case True
    then have "pred_option (told (succs W) b (host x)) (ungob_msg e v)" using ok by (auto simp: ring_ok_def)
    then show ?thesis using told_grows [OF g] by (cases "ungob_msg e v") auto
  next
    case False
    then have "(b, x, v) \<in> written a (srv st)" using that by simp
    from speaksD [OF speak this] show ?thesis by (cases "ungob_msg e v") auto
  qed
  then show ?thesis using ok w c reach link by (auto simp: ring_ok_def)
qed

section \<open>Reading the invariant\<close>

lemma ring_okD:
  assumes "ring_ok host e a0 W"
  shows "world_ok e W" "a0 \<in> dom (nodes W)" "a \<in> dom (nodes W) \<Longrightarrow> host a = a"
    "a \<in> dom (nodes W) \<Longrightarrow> a \<noteq> a0 \<Longrightarrow> reaches (succs W) a a0"
    "nodes W a = Some st \<Longrightarrow> linked host e (succs W) a st"
    "succs W a0 = Some m \<Longrightarrow> leads apart (succs W) m a0"
  using assms by (auto simp: ring_ok_def)

lemma world_okD:
  assumes "world_ok e W" and "nodes W a = Some st"
  obtains n where "chord (srv st) = Some n" and "self n = ref_of a" and "node_in (ref_of ` dom (nodes W)) n"
proof -
  have "sys_ok e (ref_of ` dom (nodes W)) (ref_of a) st" using assms by (simp add: world_ok_def)
  then show thesis using that by (auto simp: sys_ok_def confined_def)
qed

lemma pointers_succs:
  assumes "world_ok e W" and "inj_on hashToNodeID (dom (nodes W))"
  shows "circle.pointers (\<lambda>a. a \<in> dom (nodes W)) (succs W)"
  unfolding circle.pointers_def [OF circle_on [OF assms(2)]]
proof (intro allI impI)
  fix m c assume "succs W m = Some c"
  then obtain st n t where n: "nodes W m = Some st" "chord (srv st) = Some n" "successor n = Some t"
    "naddr t \<noteq> naddr (self n)" "c = naddr t"
    by (auto simp: succs_def node_at_def next_of_def split: bind_splits option.splits if_splits)
  obtain n' where n': "chord (srv st) = Some n'" "self n' = ref_of m" "node_in (ref_of ` dom (nodes W)) n'"
    by (rule world_okD [OF assms(1) n(1)])
  then have "t \<in> ref_of ` dom (nodes W)" using node_inD(2) [OF n'(3)] n(2,3) by simp
  then show "m \<in> dom (nodes W) \<and> c \<in> dom (nodes W) \<and> m \<noteq> c" using n n'(1,2) by auto
qed

lemma mail_refs:
  assumes "world_ok e W" and "nodes W a = Some st" and "(y, m) \<in> mail st"
  shows "msg_refs m \<subseteq> ref_of ` dom (nodes W)"
proof -
  have "sys_ok e (ref_of ` dom (nodes W)) (ref_of a) st" using assms(1,2) by (simp add: world_ok_def)
  then show ?thesis using assms(3) sys_okD(2,4) by (fastforce simp: mail_def)
qed

lemma node_of_ref: "node_of idb r \<in> ref_of ` A \<Longrightarrow> r \<in> A \<and> node_of idb r = ref_of r"
  by (auto simp: node_of_def ref_of_def)

lemma reaches_next: "reaches s m b \<Longrightarrow> s m \<noteq> None"
  unfolding reaches_def by (drule tranclpD) auto

section \<open>What a step does to the successors\<close>

lemma notify_next:
  assumes "successor n \<noteq> None"
  shows "next_of (fst (notify q n)) = next_of n \<or>
      (next_of n = None \<and> next_of (fst (notify q n)) = (if naddr q = naddr (self n) then None else Some (naddr q)))"
    and "fst (notify q n) = n \<or>
      predecessor (fst (notify q n)) = Some q \<and> (naddr q \<noteq> naddr (self n) \<longrightarrow> next_of (fst (notify q n)) \<noteq> None)"
  using assms by (auto simp: notify_def next_of_def Let_def split: option.split)

lemma got_predecessor_next:
  "got_predecessor y q n = n \<or>
    (\<exists>u. successor n = Some u \<and> y = naddr u \<and> isBetween (nid q) (nid (self n)) (nid u) False \<and>
      got_predecessor y q n = n\<lparr>successor := Some q\<rparr>)"
  by (auto simp: got_predecessor_def split: option.split)

lemma succs_at: "nodes W a = Some st \<Longrightarrow> chord (srv st) = Some n \<Longrightarrow> succs W a = next_of n"
  by (simp add: succs_def node_at_def)

lemma succs_set:
  "chord (srv st) = Some n \<Longrightarrow> succs (set_node a st W) = (succs W)(a := next_of n)"
  by (auto simp: succs_def node_at_def)

text \<open>The pointer of \<open>a\<close> moves back along the ring of \<open>a0\<close>.\<close>

lemma moves_back:
  assumes ok: "ring_ok host e a0 W" and inj: "inj_on hashToNodeID (dom (nodes W))"
    and "succs W a = Some y" and "leads apart (succs W) r y" and "apart a r < apart a y" and "r \<noteq> a"
  shows "grows (succs W) ((succs W)(a \<mapsto> r))" and "a = a0 \<Longrightarrow> leads apart ((succs W)(a \<mapsto> r)) r a0"
proof -
  let ?s = "succs W"
  note circle = circle_on [OF inj] and ptr = pointers_succs [OF ring_okD(1) [OF ok] inj]
  show grow: "grows ?s (?s(a \<mapsto> r))"
    unfolding grows_def using circle.leads_refine [OF circle _ assms(3,4,5,6) ptr] by blast
  show "leads apart (?s(a \<mapsto> r)) r a0" if "a = a0"
  proof -
    have y: "leads apart ?s y a0" using ring_okD(6) [OF ok] assms(3) that by simp
    have pos: "a \<in> dom (nodes W)" "y \<in> dom (nodes W)" "r \<in> dom (nodes W)" "r \<noteq> y" "a \<noteq> y"
      using circle.leads_pos [OF circle assms(4) ptr] circle.leads_pos [OF circle y ptr] that by auto
    have "apart a y = apart a r + apart r y" using circle.d_split [OF circle] pos assms(5) by simp
    moreover have "apart a r + apart r a = ringN" "apart a y + apart y a = ringN" "0 < apart y a"
      using circle.d_turn [OF circle] circle.d_pos [OF circle] pos assms(6) by auto
    ultimately have "apart r y < apart r a" by linarith
    then have "leads apart ?s r a0" using circle.leads_trans [OF circle assms(4) y _ ptr] that by simp
    then show ?thesis by (rule growsD [OF grow])
  qed
qed

lemma effect_ring:
  assumes ok: "ring_ok host e a0 W" and inj: "inj_on hashToNodeID (dom (nodes W))"
    and st: "nodes W a = Some st" "chord (srv st) = Some n" and eff: "node_effect (mail st) n n'"
  shows "grows (succs W) ((succs W)(a := next_of n'))"
    and "predecessor n' = Some p \<Longrightarrow> next_of n' \<noteq> None \<and> leads apart ((succs W)(a := next_of n')) (naddr p) a"
    and "((succs W)(a := next_of n')) a0 = Some m \<Longrightarrow> leads apart ((succs W)(a := next_of n')) m a0"
proof -
  let ?s = "succs W" and ?t = "(succs W)(a := next_of n')"
  note circle = circle_on [OF inj] and ptr = pointers_succs [OF ring_okD(1) [OF ok] inj]
  note at = succs_at [OF st]
  obtain n'' where "chord (srv st) = Some n''" "self n'' = ref_of a" "node_in (ref_of ` dom (nodes W)) n''"
    by (rule world_okD [OF ring_okD(1) [OF ok] st(1)])
  then have self: "self n = ref_of a" and node: "node_in (ref_of ` dom (nodes W)) n" using st(2) by simp_all
  have linked: "linked host e ?s a st" by (rule ring_okD(5) [OF ok st(1)])
  have pred: "next_of n \<noteq> None \<and> leads apart ?s (naddr q) a" if "predecessor n = Some q" for q
    using linked st(2) that by (simp add: linked_def)
  have same: "grows ?s ?t \<and> (\<forall>m. ?t a0 = Some m \<longrightarrow> leads apart ?t m a0)" if "next_of n' = next_of n"
  proof -
    have "?t = ?s" using at that by auto
    then show ?thesis using ring_okD(6) [OF ok] by simp
  qed
  have "grows ?s ?t \<and> (predecessor n' = Some p \<longrightarrow> next_of n' \<noteq> None \<and> leads apart ?s (naddr p) a) \<and>
      (\<forall>m. ?t a0 = Some m \<longrightarrow> leads apart ?t m a0)"
    using eff
  proof cases
    case kept
    then have "next_of n' = next_of n" by (simp only: next_of_def)
    then show ?thesis using same pred kept(3) by auto
  next
    case (notified y idb r)
    have r: "leads apart ?s r a" using linked notified(2) by (auto simp: linked_def)
    then have "r \<noteq> a" using circle.leads_pos [OF circle _ ptr] by blast
    have p: "predecessor n' = Some p \<longrightarrow> next_of n' \<noteq> None \<and> leads apart ?s (naddr p) a"
      using notify_next(2) [OF node_inD(5) [OF node], of "node_of idb r"] pred r notified(1) self \<open>r \<noteq> a\<close>
      by (auto simp: node_of_def)
    show ?thesis
    proof (cases "next_of n' = next_of n")
      case False
      then have new: "next_of n = None" "next_of n' = Some r"
        using notify_next(1) [OF node_inD(5) [OF node], of "node_of idb r"] notified(1) self \<open>r \<noteq> a\<close>
        by (auto simp: node_of_def)
      then have "a = a0" using at ring_okD(4) [OF ok, of a] reaches_next [of ?s a a0] st(1) by auto
      moreover have "?s \<subseteq>\<^sub>m ?t" using at new by (auto simp: map_le_def dom_def)
      ultimately show ?thesis using p r growsD [OF grows_map] new by (auto intro: grows_map)
    qed (use p same in blast)
  next
    case (answered y idb r)
    show ?thesis
    proof (cases "n' = n")
      case False
      then obtain u where u: "successor n = Some u" "y = naddr u"
        "isBetween (nid (node_of idb r)) (nid (self n)) (nid u) False" "n' = n\<lparr>successor := Some (node_of idb r)\<rparr>"
        using got_predecessor_next [of y "node_of idb r" n] answered(1) by auto
      have q: "r \<in> dom (nodes W)" "node_of idb r = ref_of r"
        using mail_refs [OF ring_okD(1) [OF ok] st(1) answered(2)] node_of_ref [of idb r "dom (nodes W)"] by simp_all
      have y: "y \<in> dom (nodes W)" "u = ref_of y" using node_inD(2) [OF node] u(1,2) by auto
      then have "leads apart ?s r y"
        using linked answered(2) ring_okD(3) [OF ok, of y] by (fastforce simp: linked_def)
      moreover have "apart a r < apart a y" "r \<noteq> a"
        using u(3) y(2) q(2) self isBetween_open [OF hashToNodeID_bound hashToNodeID_bound hashToNodeID_bound]
        by (auto simp: apart_def)
      moreover have "y \<noteq> a" using u(3) y(2) self by auto
      then have "?s a = Some y" using at u(1,2) self by (simp add: next_of_def)
      moreover have "next_of n' = Some r" using u(4) q(2) self \<open>r \<noteq> a\<close> by (simp add: next_of_def)
      ultimately show ?thesis
        using moves_back [OF ok inj, of a y r] ring_okD(6) [OF ok] growsD pred u(4) by auto
    qed (use pred same in simp)
  qed
  then show "grows ?s ?t" and "predecessor n' = Some p \<Longrightarrow> next_of n' \<noteq> None \<and> leads apart ?t (naddr p) a"
    and "?t a0 = Some m \<Longrightarrow> leads apart ?t m a0"
    using growsD by blast+
qed

section \<open>The invariant is kept\<close>

lemma sys_maintenance: "sys_ok e R me st \<Longrightarrow> loop_at st = Locking a m \<Longrightarrow> maintenance m"
  by (simp add: sys_ok_def)

lemma permitted_told:
  assumes ok: "ring_ok host e a0 W" and st: "nodes W a = Some st" "chord (srv st) = Some n" and "permitted n x m"
  shows "told (succs W) a (host x) m"
proof -
  obtain n' where "chord (srv st) = Some n'" "self n' = ref_of a" "node_in (ref_of ` dom (nodes W)) n'"
    by (rule world_okD [OF ring_okD(1) [OF ok] st(1)])
  then have self: "self n = ref_of a" and node: "node_in (ref_of ` dom (nodes W)) n" using st(2) by simp_all
  have link: "linked host e (succs W) a st" by (rule ring_okD(5) [OF ok st(1)])
  show ?thesis
  proof (cases m)
    case (MessageNotify idb r)
    then obtain t where t: "successor n = Some t" "x = naddr t" "naddr t \<noteq> a" "r = a" using assms(4) self by auto
    then have "x \<in> dom (nodes W)" using node_inD(2) [OF node] by auto
    moreover have "succs W a = Some x" using succs_at [OF st] t self by (simp add: next_of_def)
    ultimately show ?thesis using MessageNotify t(4) ring_okD(3) [OF ok] by (simp add: leads_next)
  next
    case (MessageGetPredecessorResponse idb r h)
    then show ?thesis using assms(4) link st(2) by (auto simp: linked_def)
  qed simp_all
qed

lemma ring_acts:
  assumes ok: "ring_ok host e a0 W" and inj: "inj_on hashToNodeID (dom (nodes W))" and codec: "codec_ok e"
    and st: "nodes W a = Some st" and dials: "dials_to (dom (nodes W)) dl"
    and step: "sys_step (e\<lparr>dialing := dl, clock := c\<rparr>) st st'"
    and w: "world_ok e (set_node a st' W)"
  shows "ring_ok host e a0 (set_node a st' W)"
proof -
  let ?e = "e\<lparr>dialing := dl, clock := c\<rparr>"
  obtain n where n: "chord (srv st) = Some n" "self n = ref_of a" by (rule world_okD [OF ring_okD(1) [OF ok] st])
  have "sys_ok e (ref_of ` dom (nodes W)) (ref_of a) st" using ring_okD(1) [OF ok] st by (simp add: world_ok_def)
  then have lock: "maintenance m" if "loop_at st = Locking b m" for b m using that by (rule sys_maintenance)
  obtain n' where n': "chord (srv st') = Some n'" "node_effect (mail st) n n'"
    using sys_step_node [OF step n(1)] lock by blast
  note eff = effect_ring [OF ok inj st n(1) n'(2)]
  have s: "succs (set_node a st' W) = (succs W)(a := next_of n')" by (rule succs_set [OF n'(1)])
  have link: "linked host e (succs W) a st" by (rule ring_okD(5) [OF ok st])
  have host: "host b = b" if "b \<in> dom (nodes W)" for b using ring_okD(3) [OF ok that] .
  have "steady ?e (speaks ?e (\<lambda>x. told (succs W) a (host x))) (\<lambda>x. told (succs W) a (host x))"
    by (rule speaks_steady [where A = "dom (nodes W)"]) (use codec dials in simp_all)
  moreover have "speaks ?e (\<lambda>x. told (succs W) a (host x)) (srv st)" using link by (simp add: linked_def)
  ultimately have "speaks ?e (\<lambda>x. told (succs W) a (host x)) (srv st')"
    by (rule steady.step [OF _ step _ n(1) _ permitted_told [OF ok st n(1)]]) (fact lock)
  then have "linked host e (succs (set_node a st' W)) a st'"
    using eff(2) link n'(1) sys_step_mail [OF step] told_grows [OF eff(1)] speaks_mono
    unfolding s linked_def by fastforce
  then show ?thesis
    using eff st host w by (intro ring_ok_update [OF ok]) (auto simp: s)
qed

lemma linked_boot:
  "chord s = Some n \<Longrightarrow> predecessor n = None \<Longrightarrow> speaks e (\<lambda>x. told t a (host x)) s \<Longrightarrow> linked host e t a (boot s)"
  by (simp add: linked_def) (simp add: boot_def)

lemma ring_joins:
  assumes ok: "ring_ok host e a0 W" and codec: "codec_ok e" and new: "nodes W a = None" and "host a = a"
    and dials: "dials_to (dom (nodes W)) dl" and "b \<noteq> a"
    and join: "JoinChord (e\<lparr>dialing := dl, clock := c\<rparr>) b (NewFileServer a root T d) = (Ret (), s)"
    and w: "world_ok e (set_node a (boot s) W)"
  shows "ring_ok host e a0 (set_node a (boot s) W)"
proof -
  obtain r where r: "r \<in> dom (nodes W)" "chord s = Some (join_state r (NewChordNode a))"
    and q: "\<And>Q. Q r (MessageNotify (int_bytes (hashToNodeID a)) a) \<Longrightarrow> speaks (e\<lparr>dialing := dl, clock := c\<rparr>) Q s"
    by (rule joins_result [OF join \<open>b \<noteq> a\<close>, of "dom (nodes W)"]) (use codec dials in simp_all)
  let ?t = "(succs W)(a \<mapsto> r)"
  have "r \<noteq> a" "a \<noteq> a0" using r(1) new ring_okD(2) [OF ok] by auto
  then have "next_of (join_state r (NewChordNode a)) = Some r"
    by (simp add: next_of_def join_state_def) (simp add: NewChordNode_def)
  then have s: "succs (set_node a (boot s) W) = ?t"
    using succs_set [of "boot s" _ a W] r(2) by (simp add: boot_def)
  have g: "grows (succs W) ?t"
    by (rule grows_map) (use new in \<open>auto simp: map_le_def dom_def succs_def node_at_def\<close>)
  have "leads apart ?t a r" by (simp add: leads_next)
  then have "speaks e (\<lambda>x. told ?t a (host x)) s"
    using q [of "\<lambda>x. told ?t a (host x)"] ring_okD(3) [OF ok r(1)] by simp
  then have "linked host e ?t a (boot s)"
    by (rule linked_boot [OF r(2), rotated]) (simp add: join_state_def)
  moreover have "reaches ?t a a0"
  proof (cases "r = a0")
    case True
    then show ?thesis by (simp add: reaches_def tranclp.r_into_trancl)
  next
    case False
    then have "reaches ?t r a0" using grows_reaches [OF g ring_okD(4) [OF ok r(1)]] by simp
    then show ?thesis unfolding reaches_def by (rule tranclp_into_tranclp2 [rotated]) simp
  qed
  moreover have "leads apart ?t m a0" if "?t a0 = Some m" for m
    using that \<open>a \<noteq> a0\<close> growsD [OF g ring_okD(6) [OF ok]] by simp
  ultimately show ?thesis using g w \<open>host a = a\<close> by (intro ring_ok_update [OF ok]) (simp_all add: s)
qed

lemma ring_arrives:
  assumes ok: "ring_ok host e a0 W" and x: "(a, x, w) \<in> wires W" and y: "host y = a" and st: "nodes W (host x) = Some st"
    and w: "world_ok e (set_node (host x) (receive (y, ungob_msg e w) st) W)"
  shows "ring_ok host e a0 (set_node (host x) (receive (y, ungob_msg e w) st) W)"
proof -
  let ?st = "receive (y, ungob_msg e w) st"
  obtain n where n: "chord (srv st) = Some n" by (rule world_okD [OF ring_okD(1) [OF ok] st])
  then have "succs (set_node (host x) ?st W) = (succs W)(host x := next_of n)"
    using succs_set [of ?st n "host x" W] by (simp add: receive_def)
  then have s: "succs (set_node (host x) ?st W) = succs W" using succs_at [OF st n] by auto
  have "pred_option (told (succs W) a (host x)) (ungob_msg e w)" using ok x by (auto simp: ring_ok_def)
  then have "linked host e (succs W) (host x) ?st"
    using ring_okD(5) [OF ok st] y unfolding linked_def mail_receive by (auto simp: receive_def)
  moreover have "host (host x) = host x" using ring_okD(3) [OF ok, of "host x"] st by blast
  ultimately show ?thesis
    using w st ring_okD(6) [OF ok] by (intro ring_ok_update [OF ok]) (auto simp: s)
qed

lemma ring_step_dom: "ring_step host e W W' \<Longrightarrow> dom (nodes W) \<subseteq> dom (nodes W')"
  by (induction rule: ring_step.induct) auto

lemma ring_step_ring:
  assumes "ring_step host e W W'" and "codec_ok e" and "ring_ok host e a0 W" and "inj_on hashToNodeID (dom (nodes W'))"
  shows "ring_ok host e a0 W'"
proof -
  have w: "world_ok e W'" by (rule ring_step_ok [OF assms(1,2) ring_okD(1) [OF assms(3)]])
  have inj: "inj_on hashToNodeID (dom (nodes W))" using ring_step_dom [OF assms(1)] assms(4) by (rule inj_on_subset [rotated])
  from assms(1) show ?thesis
  proof cases
    case (joins a dl b c root T d s)
    then show ?thesis using ring_joins [OF assms(3,2) joins(2,3,4,5,6)] w by simp
  next
    case (acts a st dl c st')
    then show ?thesis using ring_acts [OF assms(3) inj assms(2) acts(2,3,4)] w by simp
  next
    case (arrives a x w' y st)
    then show ?thesis using ring_arrives [OF assms(3) arrives(2,3,4)] w by simp
  qed
qed

lemma ring_run_dom: "ring_run host e W W' \<Longrightarrow> dom (nodes W) \<subseteq> dom (nodes W')"
proof (induction rule: rtranclp_induct)
  case (step V V')
  from step.IH ring_step_dom [OF step.hyps(2)] show ?case by (rule subset_trans)
qed simp

lemma ring_run_ring:
  assumes "ring_run host e W W'" and "codec_ok e" and "ring_ok host e a0 W" and "inj_on hashToNodeID (dom (nodes W'))"
  shows "ring_ok host e a0 W'"
  using assms(1,4)
proof (induction rule: rtranclp_induct)
  case base
  then show ?case using assms(3) by simp
next
  case (step V V')
  have "inj_on hashToNodeID (dom (nodes V))"
    using step.prems ring_step_dom [OF step.hyps(2)] by (rule inj_on_subset)
  with step show ?case using ring_step_ring assms(2) by blast
qed

section \<open>The start\<close>

text \<open>One node has created a ring.\<close>

definition founded :: "string \<Rightarrow> string \<Rightarrow> (string \<Rightarrow> pathkey) option \<Rightarrow> disk \<Rightarrow> world" where
  "founded a root T d = set_node a (boot (InitChord (NewFileServer a root T d))) no_world"

lemma founded_ok:
  assumes "host a = a"
  shows "ring_ok host e a (founded a root T d)"
proof -
  let ?s = "InitChord (NewFileServer a root T d)"
  have ch: "chord ?s = Some (Create (NewChordNode a))" "peers ?s = []" "saddr ?s = a"
    by (simp_all add: InitChord_def NewFileServer_def)
  have "world_ok e (founded a root T d)"
    unfolding founded_def by (intro world_ok_update world_empty sys_ok_boot confined_creates) simp
  moreover have "succs (founded a root T d) = Map.empty"
    using ch by (auto simp: founded_def succs_def node_at_def boot_def next_of_def Create_def NewChordNode_def
        split: bind_splits)
  moreover have "linked host e s a (boot ?s)" for s
    by (rule linked_boot [OF ch(1)]) (simp_all add: Create_def speaks_def ch(2))
  moreover have "written a ?s = {}" using ch by (simp add: written_def)
  ultimately show ?thesis using assms by (auto simp: ring_ok_def founded_def) (simp add: boot_def)
qed

section \<open>Quiet rings\<close>

text \<open>
  One more round of stabilization changes nothing: the predecessor that a successor names is no
  closer successor, and the notification is no news to it.
\<close>

definition quiet_at :: "world \<Rightarrow> chord_node \<Rightarrow> bool" where
  "quiet_at W n \<longleftrightarrow>
     (\<exists>t m p. successor n = Some t \<and> naddr t \<noteq> naddr (self n) \<and> node_at W (naddr t) = Some m \<and>
        predecessor m = Some p \<and> got_predecessor (naddr t) p n = n \<and> fst (notify (self n) m) = m)"

definition quiet :: "world \<Rightarrow> bool" where
  "quiet W \<longleftrightarrow> (\<forall>a n. node_at W a = Some n \<longrightarrow> quiet_at W n)"

lemma node_atE:
  assumes "world_ok e W" and "a \<in> dom (nodes W)"
  obtains n where "node_at W a = Some n" and "self n = ref_of a" and "node_in (ref_of ` dom (nodes W)) n"
proof -
  obtain st where st: "nodes W a = Some st" using assms(2) by auto
  show thesis by (rule world_okD [OF assms(1) st]) (use st that in \<open>simp add: node_at_def\<close>)
qed

lemma node_at_dom: "node_at W a = Some n \<Longrightarrow> a \<in> dom (nodes W)"
  by (auto simp: node_at_def split: bind_splits)

lemma got_predecessor_quiet:
  assumes "got_predecessor (naddr t) p n = n" and "successor n = Some t"
  shows "\<not> isBetween (nid p) (nid (self n)) (nid t) False"
proof
  assume "isBetween (nid p) (nid (self n)) (nid t) False"
  then have "n\<lparr>successor := Some p\<rparr> = n" using assms by (simp add: got_predecessor_def)
  then have "successor (n\<lparr>successor := Some p\<rparr>) = successor n" by (simp only:)
  then have "p = t" using assms(2) by simp
  then show False using \<open>isBetween (nid p) _ _ _\<close> isBetween_not_upper by simp
qed

lemma notify_quiet:
  assumes "fst (notify q m) = m" and "predecessor m = Some p"
  shows "p = q \<or> \<not> isBetween (nid q) (nid p) (nid (self m)) False"
proof -
  have "predecessor (fst (notify q m)) = Some q" if "isBetween (nid q) (nid p) (nid (self m)) False"
    using that assms(2) by (auto simp: notify_def Let_def split: option.split)
  then show ?thesis using assms by fastforce
qed

text \<open>In a quiet ring the successor of a node has the node as its predecessor.\<close>

lemma quiet_pred:
  assumes ok: "ring_ok host e a0 W" and inj: "inj_on hashToNodeID (dom (nodes W))" and "quiet W" and a: "a \<in> dom (nodes W)"
  obtains n b m where "node_at W a = Some n" and "self n = ref_of a" and "successor n = Some (ref_of b)" and "b \<noteq> a"
    and "node_at W b = Some m" and "predecessor m = Some (ref_of a)"
proof -
  note circle = circle_on [OF inj] and ptr = pointers_succs [OF ring_okD(1) [OF ok] inj]
  obtain n where n: "node_at W a = Some n" "self n = ref_of a" "node_in (ref_of ` dom (nodes W)) n"
    by (rule node_atE [OF ring_okD(1) [OF ok] a])
  then have "quiet_at W n" using \<open>quiet W\<close> by (simp add: quiet_def)
  then obtain t m p where q: "successor n = Some t" "naddr t \<noteq> naddr (self n)" "node_at W (naddr t) = Some m"
    "predecessor m = Some p" "got_predecessor (naddr t) p n = n" "fst (notify (self n) m) = m"
    unfolding quiet_at_def by blast
  have "t \<in> ref_of ` dom (nodes W)" using node_inD(2) [OF n(3)] q(1) by simp
  then obtain b where b: "b \<in> dom (nodes W)" "t = ref_of b" by blast
  then have "b \<noteq> a" using q(2) n(2) by auto
  obtain m' where "node_at W b = Some m'" "self m' = ref_of b" "node_in (ref_of ` dom (nodes W)) m'"
    by (rule node_atE [OF ring_okD(1) [OF ok] b(1)])
  then have m: "self m = ref_of b" "node_in (ref_of ` dom (nodes W)) m" using q(3) b(2) by simp_all
  have "p \<in> ref_of ` dom (nodes W)" using node_inD(3) [OF m(2)] q(4) by simp
  then obtain c where c: "c \<in> dom (nodes W)" "p = ref_of c" by blast
  have "leads apart (succs W) c b"
  proof -
    obtain st where st: "nodes W b = Some st" "chord (srv st) = Some m"
      using q(3) b(2) by (auto simp: node_at_def split: bind_splits)
    then show ?thesis using ring_okD(5) [OF ok st(1)] q(4) c(2) by (auto simp: linked_def)
  qed
  then have cb: "c \<noteq> b" using circle.leads_pos [OF circle _ ptr] by blast
  have "c = a"
  proof (rule ccontr)
    assume "c \<noteq> a"
    have "\<not> isBetween (hashToNodeID c) (hashToNodeID a) (hashToNodeID b) False"
      using got_predecessor_quiet [OF q(5,1)] n(2) b(2) c(2) by simp
    moreover have "0 < apart a c" "0 < apart c a" using circle.d_pos [OF circle] a c(1) \<open>c \<noteq> a\<close> by auto
    ultimately have "apart a b \<le> apart a c"
      using isBetween_open [OF hashToNodeID_bound hashToNodeID_bound hashToNodeID_bound, of c a b] by (simp add: apart_def)
    moreover have "\<not> isBetween (hashToNodeID a) (hashToNodeID c) (hashToNodeID b) False"
      using notify_quiet [OF q(6,4)] n(2) m(1) c(2) \<open>c \<noteq> a\<close> by (auto simp: ref_of_def)
    then have "apart c b \<le> apart c a"
      using isBetween_open [OF hashToNodeID_bound hashToNodeID_bound hashToNodeID_bound, of a c b] \<open>0 < apart c a\<close>
      by (simp add: apart_def)
    ultimately have "apart a c = apart a b + apart b c" "apart c a = apart c b + apart b a"
      using circle.d_split [OF circle] a b(1) c(1) by simp_all
    moreover have "apart a c + apart c a = ringN" "apart a b + apart b a = ringN" "apart b c + apart c b = ringN"
      using circle.d_turn [OF circle] a b(1) \<open>b \<noteq> a\<close> c(1) \<open>c \<noteq> a\<close> cb by auto
    ultimately show False using ringN_pos by linarith
  qed
  then show thesis using that n q(1,3,4) b \<open>b \<noteq> a\<close> c(2) by simp
qed

lemma quiet_next:
  assumes ok: "ring_ok host e a0 W" and inj: "inj_on hashToNodeID (dom (nodes W))" and "quiet W"
    and a: "a \<in> dom (nodes W)" "succs W a = Some c" and b: "b \<in> dom (nodes W)" "b \<noteq> a"
  shows "apart a c \<le> apart a b"
proof -
  note circle = circle_on [OF inj] and ptr = pointers_succs [OF ring_okD(1) [OF ok] inj]
  have pred: "\<exists>m. node_at W y = Some m \<and> predecessor m = Some (ref_of x)" if "succs W x = Some y" for x y
  proof -
    have "x \<in> dom (nodes W)" using that by (auto simp: succs_def node_at_def split: bind_splits)
    from quiet_pred [OF ok inj \<open>quiet W\<close> this] obtain n z m where
      "node_at W x = Some n" "self n = ref_of x" "successor n = Some (ref_of z)" "z \<noteq> x"
      "node_at W z = Some m" "predecessor m = Some (ref_of x)" by blast
    then show ?thesis using that by (simp add: succs_def next_of_def)
  qed
  have unique: "x = z" if "succs W x = Some y" "succs W z = Some y" for x y z
    using pred [OF that(1)] pred [OF that(2)] by (auto simp: ref_of_def)
  obtain n z m where "node_at W a0 = Some n" "self n = ref_of a0" "successor n = Some (ref_of z)" "z \<noteq> a0"
    by (rule quiet_pred [OF ok inj \<open>quiet W\<close> ring_okD(2) [OF ok]])
  then have z: "succs W a0 = Some z" by (simp add: succs_def next_of_def)
  obtain ns where ns: "circle.ring_from apart (succs W) a0 ns"
    using circle.leads_ring [OF circle z ring_okD(6) [OF ok z] ptr] by blast
  have on: "x \<in> set (a0 # ns)" if "x \<in> dom (nodes W)" for x
  proof (cases "x = a0")
    case False
    show ?thesis
      by (rule circle.ring_covers [OF circle ns _ ring_okD(4) [OF ok that False]]) (rule unique)
  qed simp
  from circle.ring_next [OF circle ns ptr on [OF a(1)] a(2) on [OF b(1)] b(2)] show ?thesis .
qed

end
