(* ===== verification/World_Converge.thy ===== *)
theory World_Converge
  imports World_Ring
begin

text \<open>
  Stabilization makes progress: in a system whose nodes are idle and connected, one exchange
  between a node and its successor, message by message, changes the two as \<open>got_predecessor\<close> and
  \<open>notify\<close> say; while the ring is not quiet some exchange brings a successor or a predecessor
  closer, so that the ring gets quiet.
\<close>

section \<open>Idle nodes and their messages\<close>

definition idle :: "system \<Rightarrow> bool" where
  "idle st \<longleftrightarrow> loop_at st = Receiving \<and> inbox st = [] \<and> lookups st = []"

definition settled :: "world \<Rightarrow> bool" where
  "settled W \<longleftrightarrow>
     (\<forall>a st. nodes W a = Some st \<longrightarrow> idle st \<and> (\<forall>b sb. nodes W b = Some sb \<and> b \<noteq> a \<longrightarrow> works b (srv st)))"

text \<open>A moment at which nothing is dialled.\<close>

abbreviation undialled :: "env \<Rightarrow> env" where
  "undialled e \<equiv> e\<lparr>dialing := (\<lambda>a. Refused EOF)\<rparr>"

lemma undialled_simps [simp]:
  "dials_to A (\<lambda>a. Refused EOF)" "sendMessage (undialled e) a m s = sendMessage e a m s"
  by (simp_all add: dials_to_def sendMessage_def)

lemma act_run:
  assumes "nodes W a = Some st" and "sys_step (undialled e) st st'"
  shows "ring_step host e W (set_node a st' W)"
  using ring_step.acts [where dl = "\<lambda>a. Refused EOF" and c = "clock e", OF assms(1)] assms(2) by simp

text \<open>A message that is under way to an idle node arrives and is handled.\<close>

lemma handle_run:
  assumes st: "nodes W b = Some st" "idle st" "chord (srv st) = Some n"
    and w: "(a, x, gob_msg e m) \<in> wires W" "host x = b" "host y = a" and "codec_ok e" and "maintenance m"
    and h: "handleMessage (undialled e) y (Some m) (srv st) = (Ret (), s)"
  shows "\<exists>W'. ring_run host e W W' \<and> nodes W' = (nodes W)(b \<mapsto> st\<lparr>srv := s\<rparr>) \<and> wires W \<union> written b s \<subseteq> wires W'"
proof -
  let ?st1 = "st\<lparr>inbox := [(y, Some m)]\<rparr>" and ?st2 = "st\<lparr>srv := s\<rparr>"
  let ?W1 = "set_node b ?st1 W" and ?W2 = "set_node b ?st2 (set_node b ?st1 W)"
  have idle: "loop_at st = Receiving" "inbox st = []" "lookups st = []" using st(2) by (simp_all add: idle_def)
  have "ungob_msg e (gob_msg e m) = Some m" using \<open>codec_ok e\<close> by (simp add: codec_ok_def)
  then have step1: "ring_step host e W ?W1"
    using ring_step.arrives [of a x "gob_msg e m" W host y st e] w st(1) idle by (simp add: receive_def)
  have st2: "?st2 = ?st1\<lparr>srv := s, inbox := []\<rparr>" using idle by simp
  show ?thesis
  proof (cases "needs_lock y m n")
    case False
    have "sys_step (undialled e) ?st1 ?st2"
      unfolding st2 by (rule sys_step.handled [where a = y and m = "Some m"]) (use idle st(3) False assms(8) h in auto)
    then have "ring_step host e ?W1 ?W2" by (intro act_run) simp_all
    with step1 have "ring_run host e W ?W2" by (meson rtranclp.rtrancl_into_rtrancl rtranclp.rtrancl_refl)
    then show ?thesis by (intro exI conjI) auto
  next
    case True
    let ?st3 = "?st1\<lparr>loop_at := Locking y m, inbox := []\<rparr>"
    let ?W3 = "set_node b ?st3 ?W1" and ?W4 = "set_node b ?st2 (set_node b ?st3 ?W1)"
    have "sys_step (undialled e) ?st1 ?st3"
      by (rule sys_step.lock_waits) (use idle st(3) True in auto)
    then have step3: "ring_step host e ?W1 ?W3" by (intro act_run) simp_all
    have "?st2 = ?st3\<lparr>srv := s, loop_at := Receiving\<rparr>" using idle by simp
    then have "sys_step (undialled e) ?st3 ?st2"
      by (simp only:) (rule sys_step.locked [where a = y and m = m], use idle h in auto)
    then have "ring_step host e ?W3 ?W4" by (intro act_run) simp_all
    with step1 step3 have "ring_run host e W ?W4" by (meson rtranclp.rtrancl_into_rtrancl rtranclp.rtrancl_refl)
    then show ?thesis by (intro exI conjI) auto
  qed
qed

text \<open>Stabilization asks the successor and notifies it.\<close>

lemma update_kept:
  assumes "map_of ps b = Some p"
  shows "set ps \<subseteq> insert (b, p) (set (AList.update b q ps))" and "(b, q) \<in> set (AList.update b q ps)"
  using assms by (induction ps) auto

lemma send_works:
  assumes "works b s"
  shows "\<exists>s'. sendMessage e b m s = (Ret (), s') \<and> chord s' = chord s \<and> (a, b, gob_msg e m) \<in> written a s' \<and>
    written a s \<subseteq> written a s' \<and> (\<forall>c. works c s \<longrightarrow> works c s')"
proof -
  obtain p where p: "map_of (peers s) b = Some p" "broken p = None" using assms by (auto simp: works_def)
  let ?s = "s\<lparr>peers := AList.update b (p\<lparr>outp := outp p @ [[IncomingMessage], gob_msg e m]\<rparr>) (peers s)\<rparr>"
  have "sendMessage e b m s = (Ret (), ?s)" using p by (simp add: sendMessage_def send_frame_ok)
  moreover have "works c s \<Longrightarrow> works c ?s" for c using works_sendMessage [of c s e b m] calculation by simp
  moreover have "(a, b, gob_msg e m) \<in> written a ?s" using update_kept(2) [OF p(1)] by (fastforce simp: written_def)
  moreover have "written a s \<subseteq> written a ?s"
    using update_kept [OF p(1), of "p\<lparr>outp := outp p @ [[IncomingMessage], gob_msg e m]\<rparr>"]
    by (fastforce simp: written_def)
  ultimately show ?thesis by (intro exI [of _ ?s]) simp
qed

lemma stabilize_run:
  assumes st: "nodes W a = Some st" "chord (srv st) = Some n" and "successor n = Some t" and "naddr t \<noteq> naddr (self n)"
    and "works (naddr t) (srv st)"
  shows "\<exists>W' s. ring_run host e W W' \<and> nodes W' = (nodes W)(a \<mapsto> st\<lparr>srv := s\<rparr>) \<and> chord s = Some n \<and>
    (\<forall>c. works c (srv st) \<longrightarrow> works c s) \<and> wires W \<subseteq> wires W' \<and>
    (a, naddr t, gob_msg e (MessageGetPredecessor (naddr (self n)))) \<in> wires W' \<and>
    (a, naddr t, gob_msg e (MessageNotify (int_bytes (nid (self n))) (naddr (self n)))) \<in> wires W'"
proof -
  obtain s1 where s1: "sendMessage e (naddr t) (MessageGetPredecessor (naddr (self n))) (srv st) = (Ret (), s1)"
    "chord s1 = chord (srv st)" "(a, naddr t, gob_msg e (MessageGetPredecessor (naddr (self n)))) \<in> written a s1"
    "\<forall>c. works c (srv st) \<longrightarrow> works c s1"
    using send_works [OF assms(5), of e "MessageGetPredecessor (naddr (self n))" a] by blast
  obtain s2 where s2: "sendMessage e (naddr t) (MessageNotify (int_bytes (nid (self n))) (naddr (self n))) s1 = (Ret (), s2)"
    "chord s2 = chord s1"
    "(a, naddr t, gob_msg e (MessageNotify (int_bytes (nid (self n))) (naddr (self n)))) \<in> written a s2"
    "written a s1 \<subseteq> written a s2" "\<forall>c. works c s1 \<longrightarrow> works c s2"
    using send_works [OF s1(4) [rule_format, OF assms(5)], of e "MessageNotify (int_bytes (nid (self n))) (naddr (self n))" a]
    by blast
  obtain p where "map_of (peers (srv st)) (naddr t) = Some p" using assms(5) by (auto simp: works_def)
  then have "stabilize (undialled e) (srv st) = (Ret (), s2)"
    using st(2) assms(3,4) s1(1) s2(1) by (simp add: stabilize_def with_node_def)
  then have "sys_step (undialled e) st (st\<lparr>srv := s2\<rparr>)" by (rule sys_step.stabilizes)
  then have "ring_step host e W (set_node a (st\<lparr>srv := s2\<rparr>) W)" by (rule act_run [OF st(1)])
  then have "ring_run host e W (set_node a (st\<lparr>srv := s2\<rparr>) W)" by (rule r_into_rtranclp [of "ring_step host e"])
  then show ?thesis using s1 s2 st(2) by (intro exI [of _ "set_node a (st\<lparr>srv := s2\<rparr>) W"] exI [of _ s2]) auto
qed

section \<open>One exchange\<close>

text \<open>What an exchange with the successor \<open>m\<close> makes of a node.\<close>

definition exchanged :: "chord_node \<Rightarrow> chord_node \<Rightarrow> chord_node" where
  "exchanged n m = (case predecessor m of None \<Rightarrow> n | Some p \<Rightarrow> got_predecessor (naddr (self m)) p n)"

lemma response_run:
  assumes st: "nodes W a = Some st" "idle st" "chord (srv st) = Some n" and "successor n \<noteq> None"
    and w: "(b, x, gob_msg e (case predecessor m of None \<Rightarrow> MessageGetPredecessorResponse [] [] False
      | Some p \<Rightarrow> MessageGetPredecessorResponse (int_bytes (nid p)) (naddr p) True)) \<in> wires W"
    and "host x = a" and "host b = b" and "codec_ok e" and "naddr (self m) = b"
  shows "\<exists>W' s. ring_run host e W W' \<and> nodes W' = (nodes W)(a \<mapsto> st\<lparr>srv := s\<rparr>) \<and>
    chord s = Some (exchanged n m) \<and> peers s = peers (srv st) \<and> wires W \<subseteq> wires W'"
proof -
  let ?r = "case predecessor m of None \<Rightarrow> MessageGetPredecessorResponse [] [] False
      | Some p \<Rightarrow> MessageGetPredecessorResponse (int_bytes (nid p)) (naddr p) True"
  let ?s = "(srv st)\<lparr>chord := Some (exchanged n m)\<rparr>"
  have "handleMessage (undialled e) b (Some ?r) (srv st) = (Ret (), ?s)"
    using st(3) assms(4,9)
    by (cases "predecessor m") (simp_all add: handleMessageGetPredecessorResponse_def exchanged_def)
  moreover have "maintenance ?r" by (simp split: option.split)
  ultimately obtain W' where "ring_run host e W W'" "nodes W' = (nodes W)(a \<mapsto> st\<lparr>srv := ?s\<rparr>)" "wires W \<subseteq> wires W'"
    using handle_run [OF st w assms(6,7,8), of ?s] by blast
  then show ?thesis by (intro exI [of _ W'] exI [of _ ?s]) simp
qed

lemma question_run:
  assumes st: "nodes W b = Some st" "idle st" "chord (srv st) = Some m"
    and w: "(a, x, gob_msg e (MessageGetPredecessor c)) \<in> wires W"
    and "host x = b" and "host a = a" and "codec_ok e" and "works a (srv st)"
  shows "\<exists>W' s. ring_run host e W W' \<and> nodes W' = (nodes W)(b \<mapsto> st\<lparr>srv := s\<rparr>) \<and> chord s = Some m \<and>
    (\<forall>c. works c (srv st) \<longrightarrow> works c s) \<and> wires W \<subseteq> wires W' \<and>
    (b, a, gob_msg e (case predecessor m of None \<Rightarrow> MessageGetPredecessorResponse [] [] False
      | Some p \<Rightarrow> MessageGetPredecessorResponse (int_bytes (nid p)) (naddr p) True)) \<in> wires W'"
proof -
  let ?r = "case predecessor m of None \<Rightarrow> MessageGetPredecessorResponse [] [] False
      | Some p \<Rightarrow> MessageGetPredecessorResponse (int_bytes (nid p)) (naddr p) True"
  obtain s where s: "sendMessage e a ?r (srv st) = (Ret (), s)" "chord s = chord (srv st)"
    "(b, a, gob_msg e ?r) \<in> written b s" "\<forall>c. works c (srv st) \<longrightarrow> works c s"
    using send_works [OF assms(8), of e ?r b] by blast
  obtain p where "map_of (peers (srv st)) a = Some p" using assms(8) by (auto simp: works_def)
  then have "handleMessage (undialled e) a (Some (MessageGetPredecessor c)) (srv st) = (Ret (), s)"
    using st(3) s(1) by (simp add: handleMessageGetPredecessor_def Let_def)
  then obtain W' where "ring_run host e W W'" "nodes W' = (nodes W)(b \<mapsto> st\<lparr>srv := s\<rparr>)"
    "wires W \<union> written b s \<subseteq> wires W'"
    using handle_run [OF st w assms(5,6,7), of s] by auto
  then show ?thesis using s st(3) by (intro exI [of _ W'] exI [of _ s]) auto
qed

lemma notify_run:
  assumes st: "nodes W b = Some st" "idle st" "chord (srv st) = Some m"
    and w: "(a, x, gob_msg e (MessageNotify (int_bytes (nid r)) (naddr r))) \<in> wires W"
    and "host x = b" and "host a = a" and "codec_ok e"
  shows "\<exists>W' s. ring_run host e W W' \<and> nodes W' = (nodes W)(b \<mapsto> st\<lparr>srv := s\<rparr>) \<and>
    chord s = Some (fst (notify r m)) \<and> peers s = peers (srv st)"
proof -
  let ?s = "snd (handleMessageNotify (int_bytes (nid r)) (naddr r) (srv st))"
  have s: "handleMessageNotify (int_bytes (nid r)) (naddr r) (srv st) = (Ret (), ?s)"
    "chord ?s = Some (fst (notify r m))" "peers ?s = peers (srv st)"
    using st(3) by (cases "notify r m"; simp add: handleMessageNotify_def)+
  then obtain W' where "ring_run host e W W'" "nodes W' = (nodes W)(b \<mapsto> st\<lparr>srv := ?s\<rparr>)"
    using handle_run [OF st w assms(5,6,7), of ?s] by auto
  then show ?thesis using s by blast
qed

lemma works_peers: "peers t = peers s \<Longrightarrow> works c t = works c s"
  by (simp add: works_def)

lemma idle_srv [simp]: "idle (st\<lparr>srv := s\<rparr>) = idle st"
  by (simp add: idle_def)

lemma exchange:
  assumes set: "settled W" and codec: "codec_ok e" and host: "\<And>c. c \<in> dom (nodes W) \<Longrightarrow> host c = c"
    and n: "node_at W a = Some n" "self n = ref_of a" "successor n = Some t" "naddr t = b" "b \<noteq> a"
    and m: "node_at W b = Some m" "self m = ref_of b"
  shows "\<exists>W'. ring_run host e W W' \<and> settled W' \<and> dom (nodes W') = dom (nodes W) \<and>
    node_at W' = (node_at W)(a \<mapsto> exchanged n m, b \<mapsto> fst (notify (self n) m))"
proof -
  obtain sa where a: "nodes W a = Some sa" "chord (srv sa) = Some n" using n(1) by (auto simp: node_at_def split: bind_splits)
  obtain sb where b: "nodes W b = Some sb" "chord (srv sb) = Some m" using m(1) by (auto simp: node_at_def split: bind_splits)
  have idle: "idle sa" "idle sb" "works b (srv sa)" "works a (srv sb)"
    using set a(1) b(1) n(5) unfolding settled_def by metis+
  have hosts: "host a = a" "host b = b" using host a(1) b(1) by auto
  obtain W1 s1 where W1: "ring_run host e W W1" "nodes W1 = (nodes W)(a \<mapsto> sa\<lparr>srv := s1\<rparr>)" "chord s1 = Some n"
    "\<forall>c. works c (srv sa) \<longrightarrow> works c s1"
    "(a, b, gob_msg e (MessageGetPredecessor (naddr (self n)))) \<in> wires W1"
    "(a, b, gob_msg e (MessageNotify (int_bytes (nid (self n))) (naddr (self n)))) \<in> wires W1"
    using stabilize_run [OF a n(3), of host e] n(2,4,5) idle(3) by auto
  have b1: "nodes W1 b = Some sb" using W1(2) b(1) n(5) by simp
  obtain W2 s2 where W2: "ring_run host e W1 W2" "nodes W2 = (nodes W1)(b \<mapsto> sb\<lparr>srv := s2\<rparr>)" "chord s2 = Some m"
    "\<forall>c. works c (srv sb) \<longrightarrow> works c s2" "wires W1 \<subseteq> wires W2"
    "(b, a, gob_msg e (case predecessor m of None \<Rightarrow> MessageGetPredecessorResponse [] [] False
      | Some p \<Rightarrow> MessageGetPredecessorResponse (int_bytes (nid p)) (naddr p) True)) \<in> wires W2"
    using question_run [OF b1 idle(2) b(2) W1(5) hosts(2,1) codec idle(4)] by blast
  have a2: "nodes W2 a = Some (sa\<lparr>srv := s1\<rparr>)" "idle (sa\<lparr>srv := s1\<rparr>)" "chord (srv (sa\<lparr>srv := s1\<rparr>)) = Some n"
    using W1(2,3) W2(2) n(5) idle(1) by simp_all
  obtain W3 s3 where W3: "ring_run host e W2 W3" "nodes W3 = (nodes W2)(a \<mapsto> sa\<lparr>srv := s1\<rparr>\<lparr>srv := s3\<rparr>)"
    "chord s3 = Some (exchanged n m)" "peers s3 = peers s1" "wires W2 \<subseteq> wires W3"
    using response_run [OF a2 _ W2(6) hosts codec] n(3) m(2) by auto
  have b3: "nodes W3 b = Some (sb\<lparr>srv := s2\<rparr>)" "idle (sb\<lparr>srv := s2\<rparr>)" "chord (srv (sb\<lparr>srv := s2\<rparr>)) = Some m"
    using W2(2,3) W3(2) n(5) idle(2) by simp_all
  have "(a, b, gob_msg e (MessageNotify (int_bytes (nid (self n))) (naddr (self n)))) \<in> wires W3"
    using W1(6) W2(5) W3(5) by blast
  then obtain W4 s4 where W4: "ring_run host e W3 W4" "nodes W4 = (nodes W3)(b \<mapsto> sb\<lparr>srv := s2\<rparr>\<lparr>srv := s4\<rparr>)"
    "chord s4 = Some (fst (notify (self n) m))" "peers s4 = peers s2"
    using notify_run [OF b3 _ hosts(2,1) codec, of "self n"] by auto
  have final: "nodes W4 = (nodes W)(a \<mapsto> sa\<lparr>srv := s3\<rparr>, b \<mapsto> sb\<lparr>srv := s4\<rparr>)"
    using W1(2) W2(2) W3(2) W4(2) n(5) by auto
  have "works c s3 = works c s1" "works c s4 = works c s2" for c
    using works_peers W3(4) W4(4) by blast+
  then have "works c s3" if "works c (srv sa)" for c using W1(4) that by simp
  moreover have "works c s4" if "works c (srv sb)" for c using \<open>works c s4 = _\<close> W2(4) that by simp
  ultimately have "settled W4"
    using set a(1) b(1) idle unfolding settled_def final by (auto split: if_splits)
  moreover have "dom (nodes W4) = dom (nodes W)" using final a(1) b(1) by auto
  moreover have "node_at W4 = (node_at W)(a \<mapsto> exchanged n m, b \<mapsto> fst (notify (self n) m))"
    using final W3(3) W4(3) by (auto simp: node_at_def)
  moreover have "ring_run host e W W4" using W1(1) W2(1) W3(1) W4(1) by (meson rtranclp_trans)
  ultimately show ?thesis by blast
qed

section \<open>Progress\<close>

text \<open>How far a node is from its neighbours.\<close>

definition succ_gap :: "chord_node \<Rightarrow> nat" where
  "succ_gap n = (case next_of n of None \<Rightarrow> ringN | Some b \<Rightarrow> apart (naddr (self n)) b)"

definition pred_gap :: "chord_node \<Rightarrow> nat" where
  "pred_gap n = (case predecessor n of None \<Rightarrow> ringN | Some p \<Rightarrow> apart (naddr p) (naddr (self n)))"

definition unrest :: "world \<Rightarrow> nat" where
  "unrest W = (\<Sum>a \<in> dom (nodes W). case node_at W a of None \<Rightarrow> 0 | Some n \<Rightarrow> succ_gap n + pred_gap n)"

lemma apart_bound: "apart a b < ringN"
  by (simp add: apart_def cdist_bound hashToNodeID_bound)

lemma pred_gap_successor [simp]: "pred_gap (n\<lparr>successor := x\<rparr>) = pred_gap n"
  by (simp add: pred_gap_def split: option.split)

lemma gap_exchanged:
  assumes "node_in (ref_of ` A) n" and "node_in (ref_of ` A) m"
  shows "exchanged n m = n \<or> succ_gap (exchanged n m) + pred_gap (exchanged n m) < succ_gap n + pred_gap n"
proof (cases "predecessor m")
  case (Some p)
  show ?thesis
    using got_predecessor_next [of "naddr (self m)" p n]
  proof (elim disjE exE conjE)
    fix u assume u: "successor n = Some u" "isBetween (nid p) (nid (self n)) (nid u) False"
      "got_predecessor (naddr (self m)) p n = n\<lparr>successor := Some p\<rparr>"
    obtain a b c where r: "self n = ref_of a" "u = ref_of b" "p = ref_of c"
      using node_inD(1,2) [OF assms(1)] node_inD(3) [OF assms(2)] u(1) Some by auto
    have "0 < apart a c" "apart a c < apart a b"
      using u(2) r isBetween_open [OF hashToNodeID_bound hashToNodeID_bound hashToNodeID_bound, of c a b]
      by (simp_all add: apart_def)
    moreover then have "c \<noteq> a" "b \<noteq> a" by (auto simp: apart_def)
    ultimately have "succ_gap (n\<lparr>successor := Some p\<rparr>) < succ_gap n"
      using u(1) r by (simp add: succ_gap_def next_of_def)
    then show ?thesis using u(3) Some by (simp add: exchanged_def)
  qed (simp add: exchanged_def Some)
qed (simp add: exchanged_def)

lemma gap_notify:
  assumes "node_in (ref_of ` A) m" and "q = ref_of a" and "naddr (self m) \<noteq> a"
  shows "fst (notify q m) = m \<or>
    succ_gap (fst (notify q m)) + pred_gap (fst (notify q m)) < succ_gap m + pred_gap m"
proof (cases "case predecessor m of None \<Rightarrow> True | Some p \<Rightarrow> isBetween (nid q) (nid p) (nid (self m)) False")
  case True
  obtain b where b: "self m = ref_of b" using node_inD(1) [OF assms(1)] by auto
  have "apart a b < pred_gap m"
  proof (cases "predecessor m")
    case (Some p)
    then obtain c where "p = ref_of c" using node_inD(3) [OF assms(1)] by auto
    then show ?thesis
      using True Some assms(2) b ring.closer_predecessor [of "hashToNodeID c" "hashToNodeID a" "hashToNodeID b"]
      by (simp add: pred_gap_def apart_def hashToNodeID_bound)
  qed (simp add: pred_gap_def apart_bound)
  moreover have "predecessor (fst (notify q m)) = Some q" using True by (auto simp: notify_def Let_def split: option.split)
  then have "pred_gap (fst (notify q m)) = apart a b" using b assms(2) by (simp add: pred_gap_def)
  moreover have "next_of (fst (notify q m)) = next_of m \<or> next_of m = None \<and> next_of (fst (notify q m)) = Some a"
    using notify_next(1) [OF node_inD(5) [OF assms(1)], of q] assms(2,3) by auto
  then have "succ_gap (fst (notify q m)) \<le> succ_gap m"
    using b apart_bound [of b a] by (auto simp: succ_gap_def split: option.split)
  ultimately show ?thesis by linarith
qed (simp add: notify_def)

text \<open>While the ring is not quiet, some exchange changes something.\<close>

lemma last_pointer:
  assumes "reaches s d b"
  shows "\<exists>c. s c = Some b"
  using assms unfolding reaches_def by (auto elim: tranclp.cases)

definition busy :: "world \<Rightarrow> string \<Rightarrow> chord_node \<Rightarrow> chord_node \<Rightarrow> bool" where
  "busy W a n m \<longleftrightarrow> node_at W a = Some n \<and>
     (\<exists>b. next_of n = Some b \<and> node_at W b = Some m) \<and> (exchanged n m \<noteq> n \<or> fst (notify (self n) m) \<noteq> m)"

lemma notify_news: "predecessor m = None \<Longrightarrow> fst (notify q m) \<noteq> m"
proof -
  assume "predecessor m = None"
  then have "predecessor (fst (notify q m)) \<noteq> predecessor m" by (auto simp: notify_def Let_def split: option.split)
  then show ?thesis by auto
qed

lemma node_of_succ:
  assumes "world_ok e W" and "succs W a = Some b"
  obtains n t m where "node_at W a = Some n" and "self n = ref_of a" and "node_in (ref_of ` dom (nodes W)) n"
    and "next_of n = Some b" and "successor n = Some t" and "naddr t = b" and "b \<noteq> a"
    and "node_at W b = Some m" and "self m = ref_of b" and "node_in (ref_of ` dom (nodes W)) m"
proof -
  have "a \<in> dom (nodes W)" using assms(2) by (auto simp: succs_def node_at_def split: bind_splits)
  from node_atE [OF assms(1) this] obtain n where n: "node_at W a = Some n" "self n = ref_of a"
    "node_in (ref_of ` dom (nodes W)) n" by blast
  then have nx: "next_of n = Some b" using assms(2) by (simp add: succs_def)
  then obtain t where t: "successor n = Some t" "naddr t = b" "b \<noteq> a"
    using n(2) by (auto simp: next_of_def split: option.splits if_splits)
  then have "b \<in> dom (nodes W)" using node_inD(2) [OF n(3)] by auto
  from node_atE [OF assms(1) this] obtain m where m: "node_at W b = Some m" "self m = ref_of b"
    "node_in (ref_of ` dom (nodes W)) m" by blast
  show thesis by (rule that [OF n nx t m])
qed

lemma not_quiet:
  assumes ok: "ring_ok host e a0 W" and "\<not> quiet W" and "d \<in> dom (nodes W)" and "d \<noteq> a0"
  shows "\<exists>a n m. busy W a n m"
proof (rule ccontr)
  assume none: "\<nexists>a n m. busy W a n m"
  have still: "\<exists>t m p. successor n = Some t \<and> naddr t = b \<and> b \<noteq> a \<and> node_at W b = Some m \<and> self m = ref_of b \<and>
      predecessor m = Some p \<and> exchanged n m = n \<and> fst (notify (self n) m) = m"
    if n: "node_at W a = Some n" "next_of n = Some b" for a b n
  proof -
    have "succs W a = Some b" using n by (simp add: succs_def)
    then obtain t m where t: "successor n = Some t" "naddr t = b" "b \<noteq> a" "node_at W b = Some m" "self m = ref_of b"
      by (rule node_of_succ [OF ring_okD(1) [OF ok]]) (use n in auto)
    moreover have "exchanged n m = n" "fst (notify (self n) m) = m" using none n t(4) by (auto simp: busy_def)
    moreover then have "predecessor m \<noteq> None" using notify_news by blast
    ultimately show ?thesis by blast
  qed
  obtain c where c: "succs W c = Some a0" using last_pointer [OF ring_okD(4) [OF ok assms(3,4)]] by blast
  then obtain n where "node_at W c = Some n" "next_of n = Some a0" by (auto simp: succs_def split: bind_splits)
  from still [OF this] obtain m0 p where m0: "node_at W a0 = Some m0" "predecessor m0 = Some p" by blast
  have "quiet_at W n" if n: "node_at W a = Some n" for a n
  proof (cases "next_of n")
    case None
    then have "a = a0"
      using n ring_okD(4) [OF ok node_at_dom [OF n]] reaches_next [of "succs W" a a0] by (auto simp: succs_def)
    then have "n = m0" using n m0(1) by simp
    moreover obtain st where "nodes W a0 = Some st" "chord (srv st) = Some m0"
      using m0(1) by (auto simp: node_at_def split: bind_splits)
    ultimately show ?thesis using None m0(2) ring_okD(5) [OF ok] by (fastforce simp: linked_def)
  next
    case (Some b)
    obtain n' where "node_at W a = Some n'" "self n' = ref_of a" by (rule node_atE [OF ring_okD(1) [OF ok] node_at_dom [OF n]])
    then have "self n = ref_of a" using n by simp
    then show ?thesis using still [OF n Some] by (fastforce simp: quiet_at_def exchanged_def)
  qed
  then show False using \<open>\<not> quiet W\<close> by (auto simp: quiet_def)
qed

lemma busy_exchange:
  assumes ok: "ring_ok host e a0 W" and inj: "inj_on hashToNodeID (dom (nodes W))" and codec: "codec_ok e"
    and set: "settled W" and fin: "finite (dom (nodes W))" and busy: "busy W a n m"
  shows "\<exists>W'. ring_run host e W W' \<and> settled W' \<and> dom (nodes W') = dom (nodes W) \<and> unrest W' < unrest W"
proof -
  obtain b where b: "node_at W a = Some n" "next_of n = Some b" "node_at W b = Some m"
    "exchanged n m \<noteq> n \<or> fst (notify (self n) m) \<noteq> m" using busy by (auto simp: busy_def)
  then have "succs W a = Some b" by (simp add: succs_def)
  from node_of_succ [OF ring_okD(1) [OF ok] this] obtain n1 t m1 where n: "node_at W a = Some n1" "self n1 = ref_of a"
    "node_in (ref_of ` dom (nodes W)) n1" "successor n1 = Some t" "naddr t = b" "b \<noteq> a" "node_at W b = Some m1"
    "self m1 = ref_of b" "node_in (ref_of ` dom (nodes W)) m1" by metis
  have eq: "n1 = n" "m1 = m" using b(1,3) n(1,7) by simp_all
  note n = n [unfolded eq]
  obtain W' where W': "ring_run host e W W'" "settled W'" "dom (nodes W') = dom (nodes W)"
    "node_at W' = (node_at W)(a \<mapsto> exchanged n m, b \<mapsto> fst (notify (self n) m))"
    using exchange [OF set codec ring_okD(3) [OF ok] n(1,2,4,5,6,7,8)] by blast
  let ?g = "\<lambda>x. case x of None \<Rightarrow> 0 | Some n \<Rightarrow> succ_gap n + pred_gap n"
  have ga: "exchanged n m = n \<or> ?g (node_at W' a) < ?g (node_at W a)"
    using gap_exchanged [OF n(3,9)] W'(4) n(1,6) by simp
  have gb: "fst (notify (self n) m) = m \<or> ?g (node_at W' b) < ?g (node_at W b)"
    using gap_notify [OF n(9,2)] W'(4) n(6,7,8) by simp
  have le: "?g (node_at W' x) \<le> ?g (node_at W x)" for x
    using ga gb W'(4) n(1,6,7) by (cases "x = a"; cases "x = b") (auto intro: less_imp_le)
  have "a \<in> dom (nodes W)" "b \<in> dom (nodes W)" using node_at_dom n(1,7) by blast+
  then have "\<exists>x \<in> dom (nodes W). ?g (node_at W' x) < ?g (node_at W x)" using ga gb b(4) by blast
  then have "unrest W' < unrest W"
    unfolding unrest_def W'(3) using fin le by (intro sum_strict_mono_ex1) auto
  then show ?thesis using W' by blast
qed

lemma converge:
  assumes "ring_ok host e a0 W" and "inj_on hashToNodeID (dom (nodes W))" and "codec_ok e" and "settled W"
    and "finite (dom (nodes W))" and "d \<in> dom (nodes W)" and "d \<noteq> a0"
  shows "\<exists>W'. ring_run host e W W' \<and> settled W' \<and> dom (nodes W') = dom (nodes W) \<and> quiet W'"
  using assms
proof (induction "unrest W" arbitrary: W rule: less_induct)
  case less
  show ?case
  proof (cases "quiet W")
    case False
    then obtain a n m where "busy W a n m" using not_quiet [OF less.prems(1) False less.prems(6,7)] by blast
    from busy_exchange [OF less.prems(1-5) this] obtain W1 where W1: "ring_run host e W W1" "settled W1"
      "dom (nodes W1) = dom (nodes W)" "unrest W1 < unrest W" by blast
    have "ring_ok host e a0 W1" by (rule ring_run_ring [OF W1(1) less.prems(3,1)]) (simp add: W1(3) less.prems(2))
    from less.hyps [OF W1(4) this] obtain W' where "ring_run host e W1 W'" "settled W'"
      "dom (nodes W') = dom (nodes W1)" "quiet W'"
      using less.prems W1(2,3) by auto
    then show ?thesis using W1(1,3) by (metis rtranclp_trans)
  qed (use less.prems in blast)
qed

lemma ring_run_finite: "ring_run host e W W' \<Longrightarrow> finite (dom (nodes W)) \<Longrightarrow> finite (dom (nodes W'))"
proof (induction rule: rtranclp_induct)
  case (step V V')
  from step.hyps(2) show ?case using step.IH [OF step.prems] by cases (simp_all del: fun_upd_apply)
qed

section \<open>The first finger\<close>

text \<open>
  The first finger starts right after the node, so that the node finds its successor for it
  without asking, and stores it: then the tables fit the successors.
\<close>

definition aimed :: "chord_node \<Rightarrow> chord_node" where
  "aimed n = (case successor n of None \<Rightarrow> n | Some t \<Rightarrow> set_finger 0 t n)"

lemma find_first_finger:
  assumes "node_in (ref_of ` A) n" and "successor n = Some t" and "naddr t \<noteq> naddr (self n)"
    and "inj_on hashToNodeID A"
  shows "find_step n (fingerID (nid (self n)) 0) = Answer t"
proof -
  obtain a b where r: "self n = ref_of a" "a \<in> A" "t = ref_of b" "b \<in> A"
    using node_inD(1,2) [OF assms(1)] assms(2) by auto
  let ?h = hashToNodeID
  have ne: "?h a \<noteq> ?h b" using r assms(3,4) by (auto dest: inj_onD)
  have "cdist (?h a) (fingerID (?h a) 0) = 1" using fingerID_distance [OF hashToNodeID_bound, of 0 a] by (simp add: M_def)
  moreover have "0 < cdist (?h a) (?h b)"
    using ne ring.d_zero [of "?h a" "?h b"] by (simp add: hashToNodeID_bound)
  ultimately have "isBetween (fingerID (?h a) 0) (?h a) (?h b) True"
    using isBetween_closed [OF fingerID_bound hashToNodeID_bound hashToNodeID_bound ne] by simp
  then show ?thesis using assms(2,3) r by (simp add: find_step_def)
qed

text \<open>A lookup that needs nobody else, and its finger.\<close>

lemma local_run:
  assumes set: "settled W" and n: "node_at W a = Some n" "find_step n (fingerID (nid (self n)) i) = Answer r"
  shows "\<exists>W'. ring_run host e W W' \<and> settled W' \<and> dom (nodes W') = dom (nodes W) \<and>
    node_at W' = (node_at W)(a \<mapsto> set_finger i r n)"
proof -
  obtain st where st: "nodes W a = Some st" "chord (srv st) = Some n" using n(1) by (auto simp: node_at_def split: bind_splits)
  have idle: "loop_at st = Receiving" "inbox st = []" "lookups st = []"
    using set st(1) by (auto simp: settled_def idle_def)
  let ?st1 = "st\<lparr>found := (i, r) # found st\<rparr>" and ?st2 = "st\<lparr>srv := (srv st)\<lparr>chord := Some (set_finger i r n)\<rparr>\<rparr>"
  let ?W1 = "set_node a ?st1 W" and ?W2 = "set_node a ?st2 (set_node a ?st1 W)"
  have "sys_step (undialled e) st ?st1" by (rule sys_step.lookup_local [OF idle(1) st(2) n(2)])
  then have step1: "ring_step host e W ?W1" by (rule act_run [OF st(1)])
  have "?st2 = ?st1\<lparr>srv := update_node (set_finger i r) (srv ?st1), found := remove1 (i, r) (found ?st1)\<rparr>"
    using st(2) by simp
  then have "sys_step (undialled e) ?st1 ?st2"
    by (simp only:) (rule sys_step.finger_stored, use idle in simp_all)
  then have "ring_step host e ?W1 ?W2" by (intro act_run) simp_all
  with step1 have run: "ring_run host e W ?W2" by (meson rtranclp.rtrancl_into_rtrancl rtranclp.rtrancl_refl)
  have "works c ((srv st)\<lparr>chord := x\<rparr>) = works c (srv st)" for c x by (simp add: works_def)
  then have "settled ?W2" using set st(1) unfolding settled_def by (auto simp: idle_def)
  moreover have "node_at ?W2 = (node_at W)(a \<mapsto> set_finger i r n)" by (auto simp: node_at_def)
  moreover have "dom (nodes ?W2) = dom (nodes W)" using st(1) by auto
  ultimately show ?thesis using run by blast
qed

lemma aim_run:
  assumes set: "settled W" and n: "node_at W a = Some n" "node_in (ref_of ` dom (nodes W)) n" "next_of n \<noteq> None"
    and inj: "inj_on hashToNodeID (dom (nodes W))"
  shows "\<exists>W'. ring_run host e W W' \<and> settled W' \<and> dom (nodes W') = dom (nodes W) \<and>
    node_at W' = (node_at W)(a \<mapsto> aimed n)"
proof -
  obtain t where t: "successor n = Some t" "naddr t \<noteq> naddr (self n)"
    using n(3) by (auto simp: next_of_def split: option.splits if_splits)
  then show ?thesis using local_run [OF set n(1) find_first_finger [OF n(2) t inj]] by (simp add: aimed_def)
qed

lemma aim_all:
  assumes "settled W" and "world_ok e W" and "inj_on hashToNodeID (dom (nodes W))"
    and next_: "\<And>a n. node_at W a = Some n \<Longrightarrow> next_of n \<noteq> None"
    and "finite A" and "A \<subseteq> dom (nodes W)"
  shows "\<exists>W'. ring_run host e W W' \<and> settled W' \<and> dom (nodes W') = dom (nodes W) \<and>
    node_at W' = (\<lambda>a. if a \<in> A then map_option aimed (node_at W a) else node_at W a)"
  using assms(5,6)
proof (induction A rule: finite_induct)
  case empty
  show ?case by (intro exI [of _ W]) (simp add: assms(1))
next
  case (insert a A)
  then obtain V where V: "ring_run host e W V" "settled V" "dom (nodes V) = dom (nodes W)"
    "node_at V = (\<lambda>a. if a \<in> A then map_option aimed (node_at W a) else node_at W a)" by auto
  from insert.prems have "a \<in> dom (nodes W)" by simp
  from node_atE [OF assms(2) this] obtain n where n: "node_at W a = Some n" "node_in (ref_of ` dom (nodes W)) n" by blast
  then have "node_at V a = Some n" using V(4) insert.hyps(2) by simp
  from aim_run [OF V(2) this, of host e] n(2) next_ [OF n(1)] assms(3) V(3) obtain W' where
    W': "ring_run host e V W'" "settled W'" "dom (nodes W') = dom (nodes W)" "node_at W' = (node_at V)(a \<mapsto> aimed n)" by auto
  have "node_at W' = (\<lambda>b. if b \<in> insert a A then map_option aimed (node_at W b) else node_at W b)"
    using W'(4) V(4) n(1) by auto
  then show ?case using V(1) W' by (meson rtranclp_trans)
qed

lemma aimed_simps [simp]:
  "self (aimed n) = self n" "successor (aimed n) = successor n" "predecessor (aimed n) = predecessor n"
  "next_of (aimed n) = next_of n"
  by (simp_all add: aimed_def set_finger_def next_of_def split: option.split)

lemma aimed_finger: "length (fingers n) = M \<Longrightarrow> successor n \<noteq> None \<Longrightarrow> fingers (aimed n) ! 0 = successor n"
  by (auto simp: aimed_def set_finger_def M_def)

lemma aimed_quiet:
  assumes "got_predecessor a p n = n" shows "got_predecessor a p (aimed n) = aimed n"
proof -
  have "got_predecessor a p (aimed n) = (got_predecessor a p n)\<lparr>fingers := fingers (aimed n)\<rparr>"
    by (simp add: got_predecessor_def aimed_def set_finger_def split: option.split)
  then show ?thesis unfolding assms by (simp add: aimed_def set_finger_def split: option.split)
qed

lemma aimed_notify:
  assumes "fst (notify q m) = m" shows "fst (notify q (aimed m)) = aimed m"
proof -
  have "fst (notify q (aimed m)) = (fst (notify q m))\<lparr>fingers := fingers (aimed m)\<rparr>"
    by (simp add: notify_def Let_def aimed_def set_finger_def split: option.split)
  then show ?thesis unfolding assms by (simp add: aimed_def set_finger_def split: option.split)
qed

lemma quiet_aimed:
  assumes "quiet W" and "node_at W' = (\<lambda>a. map_option aimed (node_at W a))"
  shows "quiet W'"
  unfolding quiet_def
proof (intro allI impI)
  fix a n' assume "node_at W' a = Some n'"
  then obtain n where n: "node_at W a = Some n" "n' = aimed n" using assms(2) by auto
  obtain t m p where q: "successor n = Some t" "naddr t \<noteq> naddr (self n)" "node_at W (naddr t) = Some m"
    "predecessor m = Some p" "got_predecessor (naddr t) p n = n" "fst (notify (self n) m) = m"
    using assms(1) n(1) unfolding quiet_def quiet_at_def by blast
  then show "quiet_at W' n'"
    unfolding quiet_at_def n(2)
    by (intro exI [of _ t] exI [of _ "aimed m"] exI [of _ p]) (simp add: assms(2) aimed_quiet aimed_notify)
qed

end
