(* ===== verification/Goroutine_Props.thy ===== *)
theory Goroutine_Props
  imports Steps Mesh_Props Chord_Props
begin

text \<open>
  Properties of the goroutines of a node: a lookup that gets its response in time completes,
  a lookup that is overtaken by a message that needs the write lock stops the node for good.
\<close>

section \<open>The life of a lookup\<close>

lemma begin_ask:
  assumes "works a s"
  obtains t where "begin_lookup e a k s = (Ret True, t)" and "chord t = chord s" and "works a t"
    and "pending t = AList.update (request_id e a s) None (pending s)"
proof
  let ?t = "snd (begin_lookup e a k s)"
  show "begin_lookup e a k s = (Ret True, ?t)" using begin_direct [OF assms] by (metis prod.collapse)
  show "chord ?t = chord s" by (simp add: begin_lookup_def frame)
  show "works a ?t"
    using assms
    by (auto simp: works_def begin_lookup_def request_successor_def target_peer_def register_request_def
        sendMessage_def on_peer_def send_frame_ok update_conv')
  show "pending ?t = AList.update (request_id e a s) None (pending s)" by simp
qed

lemma delete_update [simp]: "AList.delete q (AList.update q x ps) = AList.delete q ps"
  by (induction ps) auto

text \<open>A node whose last finger asks another node, with a connection to it.\<close>

definition demo_system :: "(string \<times> payload option) list \<Rightarrow> system" where
  "demo_system ms =
     (boot ((demo_server aes_network)\<lparr>chord := Some (demo_node addr5000 addr4000),
        peers := [(addr4000, demo_peer addr4000 \<lparr>segs = [], fin = Open\<rparr> 0)]\<rparr>))\<lparr>inbox := ms\<rparr>"

lemma demo_system_simps [simp]:
  "loop_at (demo_system ms) = Receiving" "lookups (demo_system ms) = []" "inbox (demo_system ms) = ms"
  "found (demo_system ms) = []" "chord (srv (demo_system ms)) = Some (demo_node addr5000 addr4000)"
  "pending (srv (demo_system ms)) = []" "works addr4000 (srv (demo_system ms))"
  by (simp_all add: demo_system_def boot_def works_def demo_server_def NewFileServer_def)

lemma demo_self [simp]: "self (demo_node a s) = ref_of a"
  by (simp add: demo_node_def)

lemma demo_asks: "find_step (demo_node addr5000 addr4000) (fingerID (hashToNodeID addr5000) 159) = Ask (ref_of addr4000)"
proof -
  let ?n = "demo_node addr5000 addr4000" and ?k = "fingerID (hashToNodeID addr5000) 159"
  have k: "?k = 310444264360546596457608008265818383470821186333"
    by (simp add: fingerID_def M_def demo_positions)
  have "isBetween (hashToNodeID addr4000) (hashToNodeID addr5000) ?k False"
    by (simp only: k) (simp add: isBetween_def demo_positions)
  then have "closest_loop ?n ?k (Suc 159) = ref_of addr4000"
    by (simp only: closest_loop.simps) (simp add: demo_node_def M_def)
  moreover have "M = Suc 159" by (simp add: M_def)
  ultimately have "closestPrecedingNode ?n ?k = ref_of addr4000" by (simp only: closestPrecedingNode_def)
  moreover have "\<not> isBetween ?k (hashToNodeID addr5000) (hashToNodeID addr4000) True"
    by (simp only: k) (simp add: isBetween_def demo_positions)
  ultimately show ?thesis by (simp add: find_step_def Let_def) (simp add: demo_node_def)
qed

lemma split_on_first: "c \<notin> set a \<Longrightarrow> split_on c (a @ c # b) = a # split_on c b"
  by (simp add: split_on_append split_on_single)

text \<open>The response to the node's own request is not forwarded, if its address has no hyphen.\<close>

lemma own_response:
  assumes "CHR ''-'' \<notin> set (saddr s)" and "chord t \<noteq> None" and "saddr t = saddr s"
  shows "handleMessage e p (Some (MessageFindSuccessorResponse idb b (request_id e a s))) t =
    (Ret (), signal_request (request_id e a s) (node_of idb b) t)"
  using assms by (simp add: handleMessageFindSuccessorResponse_def Let_def request_id_def split_on_first)

text \<open>C21: a lookup for a finger that asks over a working connection, at a node whose address has no hyphen,
  and whose response comes in, ends: the node's server is as the sequential \<open>fixFinger\<close> with that reply leaves it, so the finger
  is set to the node of the response, and of the request nothing is left pending; the lock is free.\<close>

theorem response_completes_lookup:
  assumes "loop_at st = Receiving" and "lookups st = []" and "inbox st = []" and "found st = []"
    and "chord (srv st) = Some n" and "find_step n (fingerID (nid (self n)) i) = Ask c" and "works (naddr c) (srv st)"
    and "CHR ''-'' \<notin> set (saddr (srv st))"
    and "m = MessageFindSuccessorResponse idb b (request_id e (naddr c) (srv st))"
  shows "\<exists>st1 s'. sys_step e st st1 \<and>
    fixFinger e [Some (node_of idb b)] i (srv st) = (Ret (), s') \<and>
    node_run e (receive (p, Some m) st1) (st\<lparr>srv := s'\<rparr>) \<and>
    chord s' = Some (set_finger i (node_of idb b) n) \<and>
    pending s' = AList.delete (request_id e (naddr c) (srv st)) (pending (srv st))"
proof -
  let ?q = "request_id e (naddr c) (srv st)" and ?k = "fingerID (nid (self n)) i" and ?r = "node_of idb b"
  obtain s where s: "begin_lookup e (naddr c) ?k (srv st) = (Ret True, s)" "chord s = chord (srv st)"
    "pending s = AList.update ?q None (pending (srv st))"
    using begin_ask [OF assms(7)] by blast
  have sa: "saddr s = saddr (srv st)" using s(1) saddr_begin [of e "naddr c" ?k "srv st"] by simp
  let ?l = "\<lparr>requests = [?q], asked = naddr c, ident = ?k, finger = i, direct = True\<rparr>"
  let ?st1 = "st\<lparr>srv := s, lookups := [?l]\<rparr>" and ?t = "signal_request ?q ?r s"
  let ?st2 = "receive (p, Some m) ?st1"
  have t: "chord ?t = chord s" "pending ?t = AList.update ?q (Some ?r) (pending s)"
    using s(3) by (simp, simp add: signal_request_def update_conv')
  let ?s' = "update_node (set_finger i ?r) (forget_request ?q ?t)"
  have 1: "sys_step e st ?st1" using sys_step.lookup_asks [OF assms(1,5) refl assms(6) s(1)] assms(2) by simp
  let ?st3 = "?st2\<lparr>srv := ?t, inbox := []\<rparr>"
  have 2: "sys_step e ?st2 ?st3"
    by (rule sys_step.handled [of _ p "Some m" "[]" _ "Ret ()"])
      (use assms(1,3,5,8,9) s(2) sa own_response in \<open>simp_all add: receive_def\<close>)
  let ?st4 = "?st3\<lparr>srv := forget_all [?q] ?t, lookups := remove1 ?l [?l], found := (i, ?r) # []\<rparr>"
  have 3: "sys_step e ?st3 ?st4"
    using sys_step.lookup_answered [of ?l ?st3 ?q "[]" ?r e] t(2) assms(4) by (simp add: receive_def update_conv')
  let ?st5 = "?st4\<lparr>srv := update_node (set_finger i ?r) (forget_all [?q] ?t), found := remove1 (i, ?r) [(i, ?r)]\<rparr>"
  have 4: "sys_step e ?st4 ?st5" using sys_step.finger_stored [of ?st4 i ?r e] by simp
  have "node_run e ?st2 ?st5"
    using 2 3 4 by (meson node_step_def rtranclp.rtrancl_into_rtrancl rtranclp.rtrancl_refl)
  moreover have "?st5 = st\<lparr>srv := ?s'\<rparr>" using assms(2-4) by (simp add: receive_def forget_all_def)
  moreover have "fixFinger e [Some ?r] i (srv st) = (Ret (), ?s')"
    using assms(5,6) s(1) t(2)
    by (simp add: fixFinger_def with_node_def FindSuccessor_def begin_lookup_def Let_def deferring_def update_conv'
        del: frame_update)
  moreover have "chord ?s' = Some (set_finger i ?r n)" using t(1) s(2) assms(5) by simp
  moreover have "pending ?s' = AList.delete ?q (pending (srv st))"
    by (simp add: forget_request_def t(2) s(3) del: update_update)
  ultimately show ?thesis using 1
    by (intro exI [of _ ?st1] exI [of _ ?s']) simp
qed

theorem response_completes_lookup_witness:
  "\<exists>st1 s'. sys_step demo_env (demo_system []) st1 \<and>
    node_run demo_env (receive (''p'', Some (MessageFindSuccessorResponse (int_bytes 7) addr3000
      (request_id demo_env addr4000 (srv (demo_system []))))) st1) ((demo_system [])\<lparr>srv := s'\<rparr>) \<and>
    chord s' = Some (set_finger 159 (node_of (int_bytes 7) addr3000) (demo_node addr5000 addr4000))"
proof -
  have "CHR ''-'' \<notin> set (saddr (srv (demo_system [])))"
    by (simp add: demo_system_def boot_def demo_server_def NewFileServer_def)
  then show ?thesis
    using response_completes_lookup [OF _ _ _ _ _ _ _ _ refl,
        of "demo_system []" "demo_node addr5000 addr4000" 159 "ref_of addr4000" demo_env "int_bytes 7" addr3000 "''p''"]
      demo_asks by auto
qed

text \<open>C22: a lookup that has asked over a working connection holds the read lock. If the next message the
  loop takes is a notification, then from there on, whatever happens as long as the connection works, the loop waits for the
  lock and handles nothing more, the lookup never ends, and the node never changes: the
  response would have to come through the loop, and the timeout only asks again.\<close>

theorem lookup_deadlock:
  assumes "loop_at st = Receiving" and "chord (srv st) = Some n" and "find_step n (fingerID (nid (self n)) i) = Ask c"
    and "lookups st = []" and "works (naddr c) (srv st)" and "inbox st = (from, Some (MessageNotify idb b)) # rest"
    and "dials_work e"
  shows "\<exists>st1. node_run e st st1 \<and> (\<forall>st2. node_run e st1 st2 \<longrightarrow>
    loop_at st2 = Locking from (MessageNotify idb b) \<and> lookups st2 \<noteq> [] \<and>
    prefix rest (inbox st2) \<and> chord (srv st2) = Some n)"
proof -
  let ?q = "request_id e (naddr c) (srv st)" and ?k = "fingerID (nid (self n)) i" and ?m = "MessageNotify idb b"
  obtain s where s: "begin_lookup e (naddr c) ?k (srv st) = (Ret True, s)" "chord s = chord (srv st)"
    "works (naddr c) s" "pending s = AList.update ?q None (pending (srv st))"
    using begin_ask [OF assms(5)] by blast
  let ?l = "\<lparr>requests = [?q], asked = naddr c, ident = ?k, finger = i, direct = True\<rparr>"
  let ?st1 = "st\<lparr>srv := s, lookups := [?l]\<rparr>"
  let ?st2 = "?st1\<lparr>loop_at := Locking from ?m, inbox := rest\<rparr>"
  have "sys_step e st ?st1" using sys_step.lookup_asks [OF assms(1,2) refl assms(3) s(1)] assms(4) by simp
  moreover have "sys_step e ?st1 ?st2"
    by (rule sys_step.lock_waits) (use assms(1,2,6) s(2) in simp_all)
  ultimately have "node_run e st ?st2"
    by (meson node_step_def rtranclp.rtrancl_into_rtrancl rtranclp.rtrancl_refl)
  moreover have "stuck from ?m (naddr c) ?st2" using s(3,4) by (simp add: stuck_def works_def update_conv')
  ultimately show ?thesis
    using stuck_run [OF _ assms(7), of ?st2] s(2) assms(2) stuckD(1,2)
    by (intro exI [of _ ?st2]) fastforce
qed

theorem lookup_deadlock_witness:
  "\<exists>st1. node_run demo_env (demo_system [(''b'', Some (MessageNotify (int_bytes 7) addr3000))]) st1 \<and>
    (\<forall>st2. node_run demo_env st1 st2 \<longrightarrow> lookups st2 \<noteq> [] \<and> chord (srv st2) = Some (demo_node addr5000 addr4000))"
proof -
  have "dials_work demo_env" by (simp add: dials_work_def demo_env_def)
  then show ?thesis
    using lookup_deadlock [of "demo_system [(''b'', Some (MessageNotify (int_bytes 7) addr3000))]"
        "demo_node addr5000 addr4000" 159 "ref_of addr4000" "''b''" "int_bytes 7" addr3000 "[]" demo_env] demo_asks
    by auto
qed

end
