(* ===== verification/World_Lookup.thy ===== *)
theory World_Lookup
  imports World_Converge Goroutine_Props
begin

text \<open>
  A lookup over the messages of a ring: a node asks another one, which knows the answer, takes
  the response and stores the finger.
\<close>

section \<open>Addresses\<close>

definition addressed :: "world \<Rightarrow> bool" where
  "addressed W \<longleftrightarrow> (\<forall>a st. nodes W a = Some st \<longrightarrow> saddr (srv st) = a)"

lemma ring_step_addressed:
  assumes "ring_step host e W W'" and "codec_ok e" and ok: "world_ok e W" and adr: "addressed W"
  shows "addressed W'"
  using assms(1)
proof cases
  case (joins a dl b c root T d s)
  have "saddr s = a"
    by (rule joins_result [OF joins(6,5), of "dom (nodes W)"]) (use joins assms(2) in auto)
  then show ?thesis using joins(1) adr by (auto simp: addressed_def boot_def)
next
  case (acts a st dl c st')
  obtain n where "chord (srv st) = Some n" by (rule world_okD [OF ok acts(2)])
  moreover have "maintenance m" if "loop_at st = Locking y m" for y m
    using ok acts(2) sys_okD(4) that by (fastforce simp: world_ok_def)
  moreover have "saddr (srv st) = a" using adr acts(2) by (simp add: addressed_def)
  ultimately have "saddr (srv st') = a" using address.step [OF acts(4)] by blast
  then show ?thesis using acts(1) adr by (auto simp: addressed_def)
next
  case (arrives a x w y st)
  then show ?thesis using adr by (auto simp: addressed_def receive_def)
qed

lemma ring_run_addressed:
  assumes "ring_run host e W W'" and "codec_ok e" and "world_ok e W" and "addressed W"
  shows "addressed W'"
  using assms(1)
proof (induction rule: rtranclp_induct)
  case (step V V')
  have "world_ok e V" by (rule world_run_ok [OF ring_world_run [OF step.hyps(1)] assms(2,3)])
  then show ?case using ring_step_addressed [OF step.hyps(2) assms(2)] step.IH by blast
qed (rule assms(4))

lemma founded_addressed: "addressed (founded a root T d)"
  by (simp add: addressed_def founded_def boot_def InitChord_def NewFileServer_def)

section \<open>The exchange\<close>

text \<open>The node asks.\<close>

lemma ask_run:
  assumes st: "nodes W a = Some st" "chord (srv st) = Some n" "loop_at st = Receiving" "saddr (srv st) = a"
    and k: "k = fingerID (nid (self n)) i" "find_step n k = Ask c" "naddr c = b" and w: "works b (srv st)"
    and q: "q = request_id e b (srv st)"
  shows "\<exists>W' s. ring_run host e W W' \<and>
    nodes W' = (nodes W)(a \<mapsto> st\<lparr>srv := s, lookups := \<lparr>requests = [q], asked = b, ident = k, finger = i, direct = True\<rparr> # lookups st\<rparr>) \<and>
    chord s = Some n \<and> saddr s = a \<and> pending s = AList.update q None (pending (srv st)) \<and>
    (\<forall>c. works c (srv st) \<longrightarrow> works c s) \<and> wires W \<subseteq> wires W' \<and>
    (a, b, gob_msg e (MessageFindSuccessor (int_bytes k) a q)) \<in> wires W'"
proof -
  let ?s0 = "register_request q ((srv st)\<lparr>drawn := drawn (srv st) + 1\<rparr>)"
  have w0: "works c ?s0 = works c (srv st)" for c by (simp add: works_def register_request_def)
  have s0: "chord ?s0 = Some n" "saddr ?s0 = a" "pending ?s0 = AList.update q None (pending (srv st))"
    using st by (simp_all add: register_request_def)
  obtain s where s: "sendMessage e b (MessageFindSuccessor (int_bytes k) a q) ?s0 = (Ret (), s)" "chord s = chord ?s0"
    "(a, b, gob_msg e (MessageFindSuccessor (int_bytes k) a q)) \<in> written a s" "\<forall>c. works c ?s0 \<longrightarrow> works c s"
    using send_works [of b ?s0 e "MessageFindSuccessor (int_bytes k) a q" a] w w0 by blast
  have s1: "s = snd (sendMessage e b (MessageFindSuccessor (int_bytes k) a q) ?s0)" by (simp only: s(1) snd_conv)
  obtain p where "map_of (peers ?s0) b = Some p" using w w0 unfolding works_def by blast
  then have "begin_lookup (undialled e) b k (srv st) = (Ret True, s)"
    using s(1) s0(2) q by (simp add: begin_lookup_def request_successor_def target_peer_def request_id_def)
  then have "sys_step (undialled e) st (st\<lparr>srv := s,
      lookups := \<lparr>requests = [q], asked = b, ident = k, finger = i, direct = True\<rparr> # lookups st\<rparr>)"
    using sys_step.lookup_asks [OF st(3,2) k(1,2), of "undialled e" True s] k(3) q by (simp add: request_id_def)
  from act_run [OF st(1) this] show ?thesis
    using s(2,3,4) w0 s0 s1
    by (intro exI [of _ "set_node a _ W"] exI [of _ s] conjI r_into_rtranclp [of "ring_step host e"]) auto
qed

text \<open>The node that is asked knows the answer.\<close>

lemma answer_run:
  assumes st: "nodes W b = Some st" "idle st" "chord (srv st) = Some m" and "find_step m k = Answer r"
    and w: "(a, x, gob_msg e (MessageFindSuccessor (int_bytes k) a q)) \<in> wires W"
    and "host x = b" and "host a = a" and "codec_ok e" and "works a (srv st)"
  shows "\<exists>W' s. ring_run host e W W' \<and> nodes W' = (nodes W)(b \<mapsto> st\<lparr>srv := s\<rparr>) \<and> chord s = Some m \<and>
    (\<forall>c. works c (srv st) \<longrightarrow> works c s) \<and> wires W \<subseteq> wires W' \<and>
    (b, a, gob_msg e (MessageFindSuccessorResponse (int_bytes (nid r)) (naddr r) q)) \<in> wires W'"
proof -
  let ?r = "MessageFindSuccessorResponse (int_bytes (nid r)) (naddr r) q"
  obtain s where s: "sendMessage e a ?r (srv st) = (Ret (), s)" "chord s = chord (srv st)"
    "(b, a, gob_msg e ?r) \<in> written b s" "\<forall>c. works c (srv st) \<longrightarrow> works c s"
    using send_works [OF assms(9), of e ?r b] by blast
  obtain p where "map_of (peers (srv st)) a = Some p" using assms(9) by (auto simp: works_def)
  then have "handleMessage (undialled e) a (Some (MessageFindSuccessor (int_bytes k) a q)) (srv st) = (Ret (), s)"
    using st(3) s(1) assms(4)
    by (simp add: handleMessageFindSuccessor_def FindSuccessor_def with_node_def answer_peer_def)
  then obtain W' where "ring_run host e W W'" "nodes W' = (nodes W)(b \<mapsto> st\<lparr>srv := s\<rparr>)"
    "wires W \<union> written b s \<subseteq> wires W'"
    using handle_run [OF st w assms(6,7,8), of s] by auto
  then show ?thesis using s st(3) by (intro exI [of _ W'] exI [of _ s]) auto
qed

text \<open>The node takes the response and stores the finger.\<close>

lemma take_run:
  assumes st: "nodes W a = Some (st\<lparr>srv := s, lookups := [l]\<rparr>)" "idle st" "chord s = Some n"
    and l: "requests l = [q]" "finger l = i" "map_of (pending s) q = Some None"
    and q: "q = request_id e b t" "saddr t = saddr s" "CHR ''-'' \<notin> set (saddr s)"
    and w: "(b, x, gob_msg e (MessageFindSuccessorResponse (int_bytes (nid r)) (naddr r) q)) \<in> wires W"
    and "host x = a" and "host b = b" and "codec_ok e"
  shows "\<exists>W' s'. ring_run host e W W' \<and> nodes W' = (nodes W)(a \<mapsto> st\<lparr>srv := s'\<rparr>) \<and>
    chord s' = Some (set_finger i r n) \<and> peers s' = peers s"
proof -
  let ?m = "MessageFindSuccessorResponse (int_bytes (nid r)) (naddr r) q"
  have idle: "loop_at st = Receiving" "inbox st = []" "lookups st = []" using st(2) by (simp_all add: idle_def)
  let ?st1 = "st\<lparr>srv := s, lookups := [l], inbox := [(b, Some ?m)]\<rparr>"
  have "ungob_msg e (gob_msg e ?m) = Some ?m" using \<open>codec_ok e\<close> by (simp add: codec_ok_def)
  then have 1: "ring_step host e W (set_node a ?st1 W)"
    using ring_step.arrives [OF w, of host b "st\<lparr>srv := s, lookups := [l]\<rparr>" e] assms(11,12) st(1) idle
    by (simp add: receive_def)
  let ?t = "signal_request q r s"
  have t: "chord ?t = Some n" "map_of (pending ?t) q = Some (Some r)" "peers ?t = peers s"
    using st(3) l(3) by (simp_all add: signal_request_def update_conv')
  have rid: "request_id (undialled e) b t = q" unfolding q(1) by (simp add: request_id_def)
  have "CHR ''-'' \<notin> set (saddr t)" "chord s \<noteq> None" "saddr s = saddr t" using q(2,3) st(3) by simp_all
  from own_response [OF this, of "undialled e" b "int_bytes (nid r)" "naddr r" b]
  have "handleMessage (undialled e) b (Some ?m) s = (Ret (), ?t)" unfolding rid node_of_back .
  then have "handleMessage (undialled e) b (Some ?m) (srv ?st1) = (Ret (), ?t)" by simp
  then have h2: "sys_step (undialled e) ?st1 (?st1\<lparr>srv := ?t, inbox := []\<rparr>)"
    by (rule sys_step.handled [rotated 4]) (use idle in simp_all)
  have 2: "ring_step host e V (set_node a (?st1\<lparr>srv := ?t, inbox := []\<rparr>) V)" if "nodes V a = Some ?st1" for V
    by (rule act_run [OF that h2])
  let ?st2 = "?st1\<lparr>srv := ?t, inbox := []\<rparr>" and ?u = "forget_all [q] ?t"
  let ?st3 = "?st2\<lparr>srv := ?u, lookups := remove1 l [l], found := (i, r) # found st\<rparr>"
  have h3: "sys_step (undialled e) ?st2 ?st3"
    using sys_step.lookup_answered [of l ?st2 q "[]" r "undialled e"] l t(2) by simp
  have 3: "ring_step host e V (set_node a ?st3 V)" if "nodes V a = Some ?st2" for V by (rule act_run [OF that h3])
  let ?st4 = "?st3\<lparr>srv := update_node (set_finger i r) ?u, found := remove1 (i, r) ((i, r) # found st)\<rparr>"
  have h4: "sys_step (undialled e) ?st3 ?st4"
    using sys_step.finger_stored [of ?st3 i r "undialled e"] by simp
  have 4: "ring_step host e V (set_node a ?st4 V)" if "nodes V a = Some ?st3" for V by (rule act_run [OF that h4])
  let ?W = "set_node a ?st4 (set_node a ?st3 (set_node a ?st2 (set_node a ?st1 W)))"
  have "ring_run host e W ?W"
    by (rule rtranclp.rtrancl_into_rtrancl [OF rtranclp.rtrancl_into_rtrancl [OF rtranclp.rtrancl_into_rtrancl [OF
            r_into_rtranclp [of "ring_step host e", OF 1] 2] 3] 4]) simp_all
  moreover have "?st4 = st\<lparr>srv := update_node (set_finger i r) ?u\<rparr>" using idle by simp
  then have "nodes ?W = (nodes W)(a \<mapsto> st\<lparr>srv := update_node (set_finger i r) ?u\<rparr>)" by (simp del: frame_update)
  moreover have "chord (update_node (set_finger i r) ?u) = Some (set_finger i r n)" using t(1) by simp
  moreover have "peers (update_node (set_finger i r) ?u) = peers s"
    using t(3) by (simp add: forget_all_def forget_request_def)
  ultimately show ?thesis by blast
qed

lemma lookup_run:
  assumes set: "settled W" and codec: "codec_ok e" and host: "\<And>c. c \<in> dom (nodes W) \<Longrightarrow> host c = c" and adr: "addressed W"
    and n: "node_at W a = Some n" "find_step n (fingerID (nid (self n)) i) = Ask c" "naddr c = b" "b \<noteq> a" "CHR ''-'' \<notin> set a"
    and m: "node_at W b = Some m" "find_step m (fingerID (nid (self n)) i) = Answer r"
  shows "\<exists>W'. ring_run host e W W' \<and> settled W' \<and> dom (nodes W') = dom (nodes W) \<and>
    node_at W' = (node_at W)(a \<mapsto> set_finger i r n)"
proof -
  obtain sa where a: "nodes W a = Some sa" "chord (srv sa) = Some n" using n(1) by (auto simp: node_at_def split: bind_splits)
  obtain sb where b: "nodes W b = Some sb" "chord (srv sb) = Some m" using m(1) by (auto simp: node_at_def split: bind_splits)
  have idle: "idle sa" "idle sb" "works b (srv sa)" "works a (srv sb)"
    using set a(1) b(1) n(4) unfolding settled_def by metis+
  have lk: "loop_at sa = Receiving" "lookups sa = []" using idle(1) by (simp_all add: idle_def)
  have hosts: "host a = a" "host b = b" using host a(1) b(1) by auto
  have sa: "saddr (srv sa) = a" using adr a(1) by (simp add: addressed_def)
  let ?k = "fingerID (nid (self n)) i" and ?q = "request_id e b (srv sa)"
  let ?l = "\<lparr>requests = [?q], asked = b, ident = ?k, finger = i, direct = True\<rparr>"
  obtain W1 s1 where W1: "ring_run host e W W1" "nodes W1 = (nodes W)(a \<mapsto> sa\<lparr>srv := s1, lookups := [?l]\<rparr>)"
    "chord s1 = Some n" "saddr s1 = a" "pending s1 = AList.update ?q None (pending (srv sa))"
    "\<forall>c. works c (srv sa) \<longrightarrow> works c s1" "(a, b, gob_msg e (MessageFindSuccessor (int_bytes ?k) a ?q)) \<in> wires W1"
    using ask_run [OF a lk(1) sa refl n(2,3) idle(3) refl, where host = host and e = e] unfolding lk(2) by blast
  have b1: "nodes W1 b = Some sb" using W1(2) b(1) n(4) by simp
  obtain W2 s2 where W2: "ring_run host e W1 W2" "nodes W2 = (nodes W1)(b \<mapsto> sb\<lparr>srv := s2\<rparr>)" "chord s2 = Some m"
    "\<forall>c. works c (srv sb) \<longrightarrow> works c s2"
    "(b, a, gob_msg e (MessageFindSuccessorResponse (int_bytes (nid r)) (naddr r) ?q)) \<in> wires W2"
    using answer_run [OF b1 idle(2) b(2) m(2) W1(7) hosts(2,1) codec idle(4)] by blast
  have a2: "nodes W2 a = Some (sa\<lparr>srv := s1, lookups := [?l]\<rparr>)" using W1(2) W2(2) n(4) by simp
  have p: "map_of (pending s1) ?q = Some None" using W1(5) by (simp add: update_conv')
  obtain W3 s3 where W3: "ring_run host e W2 W3" "nodes W3 = (nodes W2)(a \<mapsto> sa\<lparr>srv := s3\<rparr>)"
    "chord s3 = Some (set_finger i r n)" "peers s3 = peers s1"
    using take_run [OF a2 idle(1) W1(3) _ _ p refl _ _ W2(5) hosts codec] sa W1(4) n(5) by auto
  have final: "nodes W3 = (nodes W)(a \<mapsto> sa\<lparr>srv := s3\<rparr>, b \<mapsto> sb\<lparr>srv := s2\<rparr>)"
    using W1(2) W2(2) W3(2) n(4) by auto
  have "works c s3" if "works c (srv sa)" for c using W1(6) that works_peers [OF W3(4)] by blast
  then have "settled W3"
    using set a(1) b(1) idle W2(4) unfolding settled_def final by (auto split: if_splits)
  moreover have "dom (nodes W3) = dom (nodes W)" using final a(1) b(1) by auto
  moreover have "node_at W3 = (node_at W)(a \<mapsto> set_finger i r n)"
    using final W3(3) W2(3) m(1) n(4) by (auto simp: node_at_def)
  moreover have "ring_run host e W W3" using W1(1) W2(1) W3(1) by (meson rtranclp_trans)
  ultimately show ?thesis by blast
qed

end
