(* ===== verification/World_Props.thy ===== *)
theory World_Props
  imports World Goroutine_Props "HOL-Library.Countable"
begin

text \<open>
  Properties of a system of Chord nodes: no node ever refers to one that is not there, and
  successors only get closer.
\<close>

section \<open>Successors\<close>

definition alone :: "chord_node \<Rightarrow> bool" where
  "alone n \<longleftrightarrow> (case successor n of Some s \<Rightarrow> naddr s = naddr (self n) | None \<Rightarrow> True)"

definition succ_dist :: "chord_node \<Rightarrow> nat" where
  "succ_dist n = (case successor n of Some s \<Rightarrow> cdist (nid (self n)) (nid s) | None \<Rightarrow> 0)"

text \<open>A node that was not alone is not alone, and its successor has not moved away.\<close>

definition approaches :: "chord_node \<Rightarrow> chord_node \<Rightarrow> bool" where
  "approaches n n' \<longleftrightarrow> self n' = self n \<and> (alone n \<or> (\<not> alone n' \<and> succ_dist n' \<le> succ_dist n))"

lemma approaches_refl [simp]: "approaches n n"
  by (auto simp: approaches_def)

lemma approaches_trans: "approaches n n' \<Longrightarrow> approaches n' n'' \<Longrightarrow> approaches n n''"
  by (auto simp: approaches_def)

lemma approaches_same: "successor n' = successor n \<Longrightarrow> self n' = self n \<Longrightarrow> approaches n n'"
  by (simp add: approaches_def alone_def succ_dist_def split: option.split)

lemma approaches_notify: "approaches n (fst (notify r n))"
proof (cases "alone n")
  case False
  then have "successor (fst (notify r n)) = successor n"
    by (auto simp: alone_def notify_def Let_def split: option.splits)
  then show ?thesis by (rule approaches_same) simp
qed (simp add: approaches_def)

lemma approaches_got_predecessor:
  assumes "node_ok n" and "proper r"
  shows "approaches n (got_predecessor a r n)"
proof -
  obtain s where s: "successor n = Some s" "proper s" using assms(1) by (auto simp: node_ok_def)
  have pos: "nid (self n) < ringN" "nid r < ringN" "nid s < ringN"
    using assms s by (simp_all add: node_ok_def proper_bound)
  have self: "proper (self n)" using assms(1) by (simp add: node_ok_def)
  show ?thesis
  proof (cases "got_predecessor a r n = n \<or> alone n")
    case False
    then have in_between: "isBetween (nid r) (nid (self n)) (nid s) False"
      and new: "got_predecessor a r n = n\<lparr>successor := Some r\<rparr>"
      using s(1) by (auto simp: got_predecessor_def split: if_splits)
    have "nid s \<noteq> nid (self n)" using in_between by (auto simp: isBetween_def)
    then have d: "0 < cdist (nid (self n)) (nid r)" "cdist (nid (self n)) (nid r) < cdist (nid (self n)) (nid s)"
      using isBetween_open [OF pos(2,1,3)] in_between by simp_all
    then have "nid r \<noteq> nid (self n)" by (auto simp: cdist_def)
    then have "naddr r \<noteq> naddr (self n)" using assms(2) self by (auto simp: proper_def)
    then show ?thesis using d s(1) new by (simp add: approaches_def alone_def succ_dist_def)
  qed (auto simp: approaches_def)
qed

section \<open>What a step does to the node\<close>

lemma effect_approaches:
  assumes "node_effect ms n n'" and "node_ok n" and "\<And>y m. (y, m) \<in> ms \<Longrightarrow> msg_refs m \<subseteq> Collect proper"
  shows "approaches n n'"
  using assms(1)
proof cases
  case kept
  then show ?thesis by (intro approaches_same)
next
  case (answered y idb r)
  then show ?thesis using assms(3) [OF answered(2)] approaches_got_predecessor [OF assms(2)] by simp
qed (simp add: approaches_notify)

lemma sys_step_approaches:
  assumes "sys_step e st st'" and ok: "sys_ok e (ref_of ` A) me st" and "chord (srv st) = Some n"
  shows "\<exists>n'. chord (srv st') = Some n' \<and> approaches n n'"
proof -
  have "node_in (ref_of ` A) n" using sys_okD(1) [OF ok] assms(3) by (auto simp: confined_def)
  then have "node_ok n" by (rule node_in_ok)
  moreover have "msg_refs m \<subseteq> Collect proper" if "(y, m) \<in> mail st" for y m
  proof -
    have "msg_refs m \<subseteq> ref_of ` A" using that ok by (fastforce simp: mail_def sys_ok_def)
    then show ?thesis by auto
  qed
  ultimately show ?thesis
    using sys_step_node [OF assms(1,3)] sys_okD(4) [OF ok] effect_approaches by blast
qed

section \<open>Runs of the system\<close>

lemma ring_step_approaches:
  assumes "ring_step host e W W'" and "world_ok e W" and "nodes W a = Some st" and "chord (srv st) = Some n"
  shows "\<exists>st' n'. nodes W' a = Some st' \<and> chord (srv st') = Some n' \<and> approaches n n'"
  using assms(1)
proof cases
  case (acts b st1 dl c st2)
  show ?thesis
  proof (cases "b = a")
    case True
    then have "sys_ok (e\<lparr>dialing := dl, clock := c\<rparr>) (ref_of ` dom (nodes W)) (ref_of a) st1" "st1 = st"
      using assms(2,3) acts(2) by (simp_all add: world_ok_def)
    then show ?thesis
      using sys_step_approaches [OF acts(4), of "dom (nodes W)" "ref_of a" n] acts(1) assms(4) True by simp
  qed (use assms(3,4) acts in auto)
next
  case (arrives b x w y st1)
  then show ?thesis using assms(3,4) by (cases "host x = a") (auto simp: receive_def)
qed (use assms(3,4) in auto)

lemma world_step_approaches:
  assumes "world_step host e W W'" and "world_ok e W" and "nodes W a = Some st" and "chord (srv st) = Some n"
  shows "\<exists>st' n'. nodes W' a = Some st' \<and> chord (srv st') = Some n' \<and> approaches n n'"
  using assms(1) by cases (use assms ring_step_approaches in auto)

lemma world_run_approaches:
  assumes "world_run host e W W'" and "codec_ok e" and "world_ok e W" and "nodes W a = Some st" and "chord (srv st) = Some n"
  shows "\<exists>st' n'. nodes W' a = Some st' \<and> chord (srv st') = Some n' \<and> approaches n n'"
  using assms(1)
proof (induction rule: rtranclp_induct)
  case base
  then show ?case using assms(4,5) by auto
next
  case (step V V')
  then obtain sv m where m: "nodes V a = Some sv" "chord (srv sv) = Some m" "approaches n m" by blast
  have "world_ok e V" by (rule world_run_ok [OF step.hyps(1) assms(2,3)])
  from world_step_approaches [OF step.hyps(2) this m(1,2)] approaches_trans [OF m(3)] show ?case by blast
qed

text \<open>An encoding of messages that has the law, to show that there is one: the length of the bytes numbers
  the message.\<close>

instance network_ext :: (countable) countable
proof
  let ?f = "\<lambda>n :: 'a network_scheme. to_nat (EncType n, EncKey n, Nonce n, Nodes n, Split n, network.more n)"
  have "inj ?f" by (rule injI) (simp add: network.equality)
  then show "\<exists>f :: 'a network_scheme \<Rightarrow> nat. inj f" by blast
qed

instance payload :: countable
  by countable_datatype

definition unary :: env where
  "unary = demo_env\<lparr>gob_msg := (\<lambda>m. replicate (to_nat m + 2) 0),
     ungob_msg := (\<lambda>bs. if length bs < 2 then None else Some (from_nat (length bs - 2)))\<rparr>"

lemma unary_ok [simp]: "codec_ok unary"
  by (simp add: codec_ok_def unary_def)

text \<open>A ring of one node, and a node that has joined it; every node has one address only.\<close>

definition demo_dial :: "string \<Rightarrow> dial_result" where
  "demo_dial a = (if a = addr3000 then Connected (demo_peer addr3000 \<lparr>segs = [], fin = Open\<rparr> 0) True
     else Refused (NetError ''connection refused''))"

definition demo_new :: "string \<Rightarrow> server" where
  "demo_new a = NewFileServer a (a @ ''_chord_network'') (Some CASPathTransformFunc) demo_disk"

definition demo_first :: world where
  "demo_first = set_node addr3000 (boot (InitChord (demo_new addr3000))) no_world"

definition demo_joined :: system where
  "demo_joined = boot (snd (JoinChord (unary\<lparr>dialing := demo_dial, clock := (\<lambda>i. ''0'')\<rparr>) addr3000 (demo_new addr4000)))"

definition demo_world :: world where
  "demo_world = set_node addr4000 demo_joined demo_first"

lemma demo_joins:
  "fst (JoinChord (unary\<lparr>dialing := demo_dial, clock := c\<rparr>) addr3000 (demo_new addr4000)) = Ret ()"
  "chord (snd (JoinChord (unary\<lparr>dialing := demo_dial, clock := c\<rparr>) addr3000 (demo_new addr4000))) =
    Some (join_state addr3000 (NewChordNode addr4000))"
  by (simp_all add: JoinChord_def Join_def with_node_def demo_new_def NewFileServer_def Dial_def OnPeer_def
      demo_dial_def sendNotify_def sendMessage_def on_peer_def send_frame_ok NewChordNode_def join_state_def)

lemma demo_first_run: "world_run (\<lambda>a. a) unary no_world demo_first"
  unfolding demo_first_def demo_new_def
  by (rule r_into_rtranclp [of "world_step (\<lambda>a. a) unary"], rule world_step.creates) simp_all

lemma demo_ring_run: "ring_run (\<lambda>a. a) unary demo_first demo_world"
proof -
  let ?j = "JoinChord (unary\<lparr>dialing := demo_dial, clock := (\<lambda>i. ''0'')\<rparr>) addr3000 (demo_new addr4000)"
  have "ring_step (\<lambda>a. a) unary demo_first (set_node addr4000 (boot (snd ?j)) demo_first)"
  proof (rule ring_step.joins)
    show "nodes demo_first addr4000 = None" by (simp add: demo_first_def)
    show "dials_to (dom (nodes demo_first)) demo_dial" by (simp add: dials_to_def demo_dial_def demo_first_def)
    show "JoinChord (unary\<lparr>dialing := demo_dial, clock := (\<lambda>i. ''0'')\<rparr>) addr3000
        (NewFileServer addr4000 (addr4000 @ ''_chord_network'') (Some CASPathTransformFunc) demo_disk) = (Ret (), snd ?j)"
      using demo_joins(1) by (simp add: demo_new_def prod_eq_iff)
  qed simp_all
  then show ?thesis unfolding demo_world_def demo_joined_def by (rule r_into_rtranclp [of "ring_step (\<lambda>a. a) unary"])
qed

lemma demo_world_run: "world_run (\<lambda>a. a) unary no_world demo_world"
  using demo_first_run ring_world_run [OF demo_ring_run] by simp

lemma demo_world_nodes [simp]:
  "nodes demo_world addr4000 = Some demo_joined"
  "chord (srv demo_joined) = Some (join_state addr3000 (NewChordNode addr4000))"
  by (simp_all add: demo_world_def demo_joined_def boot_def demo_joins)

section \<open>Properties\<close>

text \<open>C14: in every run of the system, whatever arrives in whatever order, every node is well-formed, keeps
  the identity of its address, and refers only to nodes of the system.\<close>

theorem no_ghost_nodes:
  assumes "codec_ok e" and "world_run host e no_world W" and "nodes W a = Some st"
  shows "\<exists>n. chord (srv st) = Some n \<and> node_ok n \<and> self n = ref_of a \<and> naddr ` node_refs n \<subseteq> dom (nodes W)"
proof -
  have "sys_ok e (ref_of ` dom (nodes W)) (ref_of a) st"
    using world_run_ok [OF assms(2,1)] assms(3) by (simp add: world_ok_def)
  then obtain n where "chord (srv st) = Some n" "self n = ref_of a" "node_in (ref_of ` dom (nodes W)) n"
    by (auto simp: sys_ok_def confined_def)
  then show ?thesis using node_in_ok by blast
qed

theorem no_ghost_nodes_witness:
  "\<exists>st. nodes demo_world addr4000 = Some st \<and> chord (srv st) = Some (join_state addr3000 (NewChordNode addr4000)) \<and>
    naddr ` node_refs (join_state addr3000 (NewChordNode addr4000)) \<subseteq> dom (nodes demo_world)"
  using no_ghost_nodes [OF unary_ok demo_world_run demo_world_nodes(1)] by auto

text \<open>C20: once a node of the system has another node as its successor, it always has another node, and the
  distance to it never grows, whatever the other nodes do and whatever arrives.\<close>

theorem successors_approach:
  assumes "codec_ok e" and "world_run host e no_world W" and "world_run host e W W'"
    and "nodes W a = Some st" and "chord (srv st) = Some n" and "successor n = Some s" and "naddr s \<noteq> a"
  shows "\<exists>st' n' s'. nodes W' a = Some st' \<and> chord (srv st') = Some n' \<and> successor n' = Some s' \<and> naddr s' \<noteq> a \<and>
    cdist (hashToNodeID a) (nid s') \<le> cdist (hashToNodeID a) (nid s)"
proof -
  have ok: "world_ok e W" using world_run_ok [OF assms(2,1)] by simp
  then have "sys_ok e (ref_of ` dom (nodes W)) (ref_of a) st" using assms(4) by (simp add: world_ok_def)
  then have "self n = ref_of a" using assms(5) by (simp add: sys_ok_def confined_def)
  moreover obtain st' n' where "nodes W' a = Some st'" "chord (srv st') = Some n'" "approaches n n'"
    using world_run_approaches [OF assms(3,1) ok assms(4,5)] by blast
  ultimately show ?thesis
    using assms(6,7) by (auto simp: approaches_def alone_def succ_dist_def split: option.splits)
qed

theorem successors_approach_witness:
  "\<exists>W' st n s. world_run (\<lambda>a. a) unary demo_world W' \<and> nodes W' addr5000 \<noteq> None \<and> nodes W' addr4000 = Some st \<and>
    chord (srv st) = Some n \<and> successor n = Some s \<and> naddr s \<noteq> addr4000 \<and>
    cdist (hashToNodeID addr4000) (nid s) \<le> cdist (hashToNodeID addr4000) (hashToNodeID addr3000)"
proof -
  let ?W = "set_node addr5000 (boot (InitChord (demo_new addr5000))) demo_world"
  have "world_step (\<lambda>a. a) unary demo_world ?W"
    unfolding demo_new_def [of addr5000] by (rule world_step.creates) (simp_all add: demo_world_def demo_first_def)
  then have run: "world_run (\<lambda>a. a) unary demo_world ?W" by (rule r_into_rtranclp [of "world_step (\<lambda>a. a) unary"])
  have s: "successor (join_state addr3000 (NewChordNode addr4000)) = Some (ref_of addr3000)" by (simp add: join_state_def)
  from successors_approach [OF unary_ok demo_world_run run demo_world_nodes s] run show ?thesis by auto
qed

end
