(* ===== verification/World_Ring_Props.thy ===== *)
theory World_Ring_Props
  imports World_Lookup World_Props Chord_Props
begin

text \<open>
  Properties of a ring that one node has created and others have joined: it is never broken,
  stabilization makes it perfect, and a ring that is quiet is the one that lookups need.
\<close>

section \<open>The successors form one ring\<close>

lemma ring_run_ok:
  assumes "codec_ok e" and "host a0 = a0" and "ring_run host e (founded a0 root T d) W" and "inj_on hashToNodeID (dom (nodes W))"
  shows "ring_ok host e a0 W"
  by (rule ring_run_ring [OF assms(3,1) _ assms(4)]) (simp add: founded_ok assms(2))

lemma ring_round:
  assumes ok: "ring_ok host e a0 W" and inj: "inj_on hashToNodeID (dom (nodes W))" and "succs W a0 \<noteq> None"
  shows "\<exists>as. successively (\<lambda>x y. succs W x = Some y) (a0 # as @ [a0]) \<and>
    sorted_wrt (\<lambda>x y. apart a0 x < apart a0 y) (a0 # as)"
proof -
  note circle = circle_on [OF inj]
  obtain m where m: "succs W a0 = Some m" using assms(3) by blast
  from circle.leads_ring [OF circle m ring_okD(6) [OF ok m] pointers_succs [OF ring_okD(1) [OF ok] inj]]
  show ?thesis by (simp add: circle.ring_from_def [OF circle] circle.ordered_from_def [OF circle])
qed

section \<open>A quiet ring is consistent\<close>

lemma quiet_succ:
  assumes ok: "ring_ok host e a0 W" and inj: "inj_on hashToNodeID (dom (nodes W))" and quiet: "quiet W"
    and addrs: "set addrs = dom (nodes W)" and n: "node_at W a = Some n"
  shows "\<exists>b. self n = ref_of a \<and> successor n = Some (ref_of b) \<and> b \<noteq> a \<and> b \<in> set addrs \<and> next_addr addrs a b"
proof -
  have a: "a \<in> dom (nodes W)" by (rule node_at_dom [OF n(1)])
  obtain n' b where "node_at W a = Some n'" "self n' = ref_of a" "successor n' = Some (ref_of b)" "b \<noteq> a"
    by (rule quiet_pred [OF ok inj quiet a])
  then have b: "self n = ref_of a" "successor n = Some (ref_of b)" "b \<noteq> a" using n by simp_all
  obtain n' where "node_at W a = Some n'" "node_in (ref_of ` dom (nodes W)) n'"
    by (rule node_atE [OF ring_okD(1) [OF ok] a])
  then have "ref_of b \<in> ref_of ` dom (nodes W)" using node_inD(2) n b(2) by fastforce
  then have "b \<in> dom (nodes W)" by (auto simp: ref_of_def)
  moreover have "succs W a = Some b" using n b by (simp add: succs_def next_of_def)
  ultimately show ?thesis
    using quiet_next [OF ok inj quiet a] addrs b by (auto simp: next_addr_def apart_def)
qed

lemma quiet_node:
  assumes ok: "ring_ok host e a0 W" and inj: "inj_on hashToNodeID (dom (nodes W))" and quiet: "quiet W"
    and addrs: "set addrs = dom (nodes W)" and n: "node_at W a = Some n" and "fingers n ! 0 = successor n"
  shows "consistent_node addrs a n"
proof -
  obtain n' where "node_at W a = Some n'" "node_in (ref_of ` dom (nodes W)) n'"
    by (rule node_atE [OF ring_okD(1) [OF ok] node_at_dom [OF n]])
  then have node: "node_in (ref_of ` dom (nodes W)) n" using n by simp
  have "f = None \<or> f \<in> (\<lambda>b. Some (ref_of b)) ` set addrs" if "f \<in> set (fingers n)" for f
  proof (cases f)
    case (Some r)
    then have "r \<in> node_refs n" using that unfolding node_refs_def by fastforce
    then have "r \<in> ref_of ` dom (nodes W)" using node by (auto simp: node_in_def)
    then show ?thesis using Some addrs by auto
  qed simp
  moreover have "length (fingers n) = M" using node by (simp add: node_in_def)
  ultimately show ?thesis
    using quiet_succ [OF ok inj quiet addrs n] assms(6) unfolding consistent_node_def by auto
qed

text \<open>In a quiet ring every node can store its successor as its first finger.\<close>

lemma quiet_aims:
  assumes ok: "ring_ok host e a0 W" and inj: "inj_on hashToNodeID (dom (nodes W))" and quiet: "quiet W" and set: "settled W"
    and fin: "finite (dom (nodes W))"
  shows "\<exists>W'. ring_run host e W W' \<and> settled W' \<and> dom (nodes W') = dom (nodes W) \<and>
    node_at W' = (\<lambda>a. map_option aimed (node_at W a)) \<and> (\<forall>a n. node_at W' a = Some n \<longrightarrow> fingers n ! 0 = successor n)"
proof -
  obtain addrs where addrs: "set addrs = dom (nodes W)" using finite_list [OF fin] by blast
  have next_: "next_of n \<noteq> None" if "node_at W a = Some n" for a n
    using quiet_succ [OF ok inj quiet addrs that] by (auto simp: next_of_def)
  obtain W' where W': "ring_run host e W W'" "settled W'" "dom (nodes W') = dom (nodes W)"
    "node_at W' = (\<lambda>a. if a \<in> dom (nodes W) then map_option aimed (node_at W a) else node_at W a)"
    using aim_all [OF set ring_okD(1) [OF ok] inj _ fin subset_refl, where host = host] next_ by blast
  then have at: "node_at W' = (\<lambda>a. map_option aimed (node_at W a))"
    by (auto simp: node_at_def fun_eq_iff split: bind_splits)
  have "fingers n' ! 0 = successor n'" if some: "node_at W' a = Some n'" for a n'
  proof -
    obtain n where n: "node_at W a = Some n" "n' = aimed n" using some unfolding at by auto
    obtain m where "node_at W a = Some m" "node_in (ref_of ` dom (nodes W)) m"
      by (rule node_atE [OF ring_okD(1) [OF ok] node_at_dom [OF n(1)]])
    then show ?thesis using n aimed_finger by (auto simp: node_in_def)
  qed
  then show ?thesis using W' at by blast
qed

lemma quiet_consistent:
  assumes "ring_ok host e a0 W" and "inj_on hashToNodeID (dom (nodes W))" and "quiet W"
    and "set addrs = dom (nodes W)" and "\<And>a n. node_at W a = Some n \<Longrightarrow> fingers n ! 0 = successor n"
  shows "consistent_ring addrs (node_at W)"
proof -
  have "\<exists>n. node_at W a = Some n \<and> consistent_node addrs a n" if "a \<in> set addrs" for a
    using node_atE [OF ring_okD(1) [OF assms(1)], of a] that assms(4)
      quiet_node [OF assms(1-4) _ assms(5)] by metis
  then show ?thesis using assms(2,4) by (fastforce simp: consistent_ring_def)
qed

lemma converge_consistent:
  assumes ok: "ring_ok host e a0 W" and inj: "inj_on hashToNodeID (dom (nodes W))" and codec: "codec_ok e" and set: "settled W"
    and fin: "finite (dom (nodes W))" and "b \<in> dom (nodes W)" and "b \<noteq> a0" and addrs: "set addrs = dom (nodes W)"
  shows "\<exists>W'. ring_run host e W W' \<and> settled W' \<and> dom (nodes W') = dom (nodes W) \<and> quiet W' \<and>
    consistent_ring addrs (node_at W')"
proof -
  obtain V where V: "ring_run host e W V" "settled V" "dom (nodes V) = dom (nodes W)" "quiet V"
    using converge [OF ok inj codec set fin assms(6,7)] by blast
  have inj1: "inj_on hashToNodeID (dom (nodes V))" using inj V(3) by simp
  have okV: "ring_ok host e a0 V" by (rule ring_run_ring [OF V(1) codec ok inj1])
  obtain W' where W': "ring_run host e V W'" "settled W'" "dom (nodes W') = dom (nodes V)"
    "node_at W' = (\<lambda>a. map_option aimed (node_at V a))" and fit: "\<And>a n. node_at W' a = Some n \<Longrightarrow> fingers n ! 0 = successor n"
    using quiet_aims [OF okV inj1 V(4,2)] fin V(3) by metis
  have quiet: "quiet W'" by (rule quiet_aimed [OF V(4) W'(4)])
  have inj': "inj_on hashToNodeID (dom (nodes W'))" using inj1 W'(3) by simp
  have "ring_ok host e a0 W'" by (rule ring_run_ring [OF W'(1) codec okV inj'])
  then have "consistent_ring addrs (node_at W')"
    by (rule quiet_consistent [OF _ inj' quiet _ fit]) (simp_all add: addrs V(3) W'(3))
  then show ?thesis using V(1,3) W'(1,2,3) quiet by (metis rtranclp_trans)
qed

section \<open>An ideal ring stays as it is\<close>

text \<open>Every node of \<open>A\<close> that has a successor in \<open>t\<close> has it, and no node of the system lies in between.\<close>

definition nearest :: "string set \<Rightarrow> (string \<Rightarrow> string option) \<Rightarrow> bool" where
  "nearest A t \<longleftrightarrow> (\<forall>a \<in> A. \<exists>b. t a = Some b \<and> (\<forall>c \<in> A. c \<noteq> a \<longrightarrow> apart a b \<le> apart a c))"

lemma effect_nearest:
  assumes eff: "node_effect ms n n'" and n: "self n = ref_of a" "a \<in> A" "successor n = Some (ref_of b)" "b \<noteq> a"
    and near: "\<And>c. c \<in> A \<Longrightarrow> c \<noteq> a \<Longrightarrow> apart a b \<le> apart a c"
    and refs: "\<And>y m. (y, m) \<in> ms \<Longrightarrow> msg_refs m \<subseteq> ref_of ` A"
  shows "successor n' = successor n"
  using eff
proof cases
  case kept
  then show ?thesis by simp
next
  case (notified y idb r)
  then show ?thesis using n by (auto simp: notify_def Let_def ref_of_def split: option.split)
next
  case (answered y idb r)
  have "node_of idb r \<in> ref_of ` A" using refs [OF answered(2)] by simp
  then have r: "r \<in> A" "node_of idb r = ref_of r" using node_of_ref by blast+
  have "\<not> isBetween (hashToNodeID r) (hashToNodeID a) (hashToNodeID b) False"
  proof
    assume between: "isBetween (hashToNodeID r) (hashToNodeID a) (hashToNodeID b) False"
    then have "0 < apart a r" "apart a r < apart a b"
      using isBetween_open [OF hashToNodeID_bound hashToNodeID_bound hashToNodeID_bound, of r a b] by (simp_all add: apart_def)
    moreover have "r \<noteq> a" using \<open>0 < apart a r\<close> by (auto simp: apart_def)
    ultimately show False using near [OF r(1)] by simp
  qed
  then show ?thesis using answered(1) r(2) n by (simp add: got_predecessor_def)
qed

lemma ring_step_stays:
  assumes step: "ring_step host e V W" and ok: "world_ok e V" and dom: "dom (nodes W) = dom (nodes V)"
    and near: "nearest (dom (nodes V)) (succs V)" and n: "node_at V a = Some n"
  shows "\<exists>n'. node_at W a = Some n' \<and> successor n' = successor n"
  using step
proof cases
  case (joins b dl c d root T ds s)
  then have "b \<in> dom (nodes W)" "b \<notin> dom (nodes V)" by auto
  then show ?thesis using dom by simp
next
  case (acts b st dl c st')
  show ?thesis
  proof (cases "b = a")
    case True
    have st: "nodes V a = Some st" using acts(2) True by simp
    obtain m where m: "chord (srv st) = Some m" "self m = ref_of a" "node_in (ref_of ` dom (nodes V)) m"
      by (rule world_okD [OF ok st])
    then have nm: "m = n" using n st by (simp add: node_at_def)
    obtain n' where n': "chord (srv st') = Some n'" "node_effect (mail st) n n'"
      using sys_step_node [OF acts(4)] m(1) nm ok st by (fastforce simp: world_ok_def sys_ok_def)
    have a: "a \<in> dom (nodes V)" using st by auto
    obtain b' where b: "succs V a = Some b'" "\<And>c. c \<in> dom (nodes V) \<Longrightarrow> c \<noteq> a \<Longrightarrow> apart a b' \<le> apart a c"
      using near a unfolding nearest_def by blast
    obtain t where "node_at V a = Some n" "successor n = Some t" "naddr t = b'" "b' \<noteq> a"
      by (rule node_of_succ [OF ok b(1)]) (use n in auto)
    then have t: "successor n = Some (ref_of b')" "b' \<noteq> a" using node_inD(2) [OF m(3)] nm by auto
    have "successor n' = successor n"
      by (rule effect_nearest [OF n'(2) _ a t b(2)]) (use m(2) nm mail_refs [OF ok st] in auto)
    then show ?thesis using acts(1) True n'(1) by (simp add: node_at_def)
  next
    case False
    then show ?thesis using acts(1) n by (simp add: node_at_def)
  qed
next
  case (arrives b x w y st)
  then show ?thesis using n by (cases "host x = a") (auto simp: node_at_def receive_def)
qed

lemma ring_step_succs:
  assumes "ring_step host e V W" and ok: "world_ok e V" and ok': "world_ok e W" and dom: "dom (nodes W) = dom (nodes V)"
    and near: "nearest (dom (nodes V)) (succs V)"
  shows "succs W = succs V"
proof
  fix a
  show "succs W a = succs V a"
  proof (cases "a \<in> dom (nodes V)")
    case True
    obtain n where n: "node_at V a = Some n" "self n = ref_of a" by (rule node_atE [OF ok True])
    obtain n' where n': "node_at W a = Some n'" "successor n' = successor n"
      using ring_step_stays [OF assms(1) ok dom near n(1)] by blast
    moreover have "self n' = self n" using node_atE [OF ok', of a] True dom n'(1) n(2) by auto
    ultimately have "next_of n' = next_of n" by (simp only: next_of_def)
    then show ?thesis using n(1) n'(1) by (simp add: succs_def)
  next
    case False
    then have "nodes V a = None" "nodes W a = None" using dom by auto
    then show ?thesis by (simp add: succs_def node_at_def)
  qed
qed

lemma ring_run_succs:
  assumes "ring_run host e V W" and "codec_ok e" and "world_ok e V" and "dom (nodes W) = dom (nodes V)"
    and "nearest (dom (nodes V)) (succs V)"
  shows "succs W = succs V"
  using assms(1,4)
proof (induction rule: rtranclp_induct)
  case (step W W')
  have "dom (nodes W) = dom (nodes V)"
    using ring_run_dom [OF step.hyps(1)] ring_step_dom [OF step.hyps(2)] step.prems by blast
  moreover have "world_ok e W" using world_run_ok [OF ring_world_run [OF step.hyps(1)] assms(2,3)] .
  moreover then have "world_ok e W'" using ring_step_ok [OF step.hyps(2) assms(2)] by blast
  ultimately show ?case
    using step ring_step_succs [OF step.hyps(2)] assms(5) by simp
qed simp

section \<open>An example\<close>

text \<open>The node that was joined is notified, and dials its predecessor.\<close>

lemma demo_founded: "demo_first = founded addr3000 (addr3000 @ ''_chord_network'') (Some CASPathTransformFunc) demo_disk"
  by (simp add: demo_first_def founded_def demo_new_def)

lemma demo_inj: "inj_on hashToNodeID {addr3000, addr4000}"
  by (simp add: inj_on_def demo_positions)

lemma demo_dom: "dom (nodes demo_world) = {addr3000, addr4000}"
  by (auto simp: demo_world_def demo_first_def)

lemma demo_sent:
  "(addr4000, addr3000, gob_msg unary (MessageNotify (int_bytes (hashToNodeID addr4000)) addr4000)) \<in> wires demo_world"
  "works addr3000 (srv demo_joined)" "idle demo_joined"
  by (simp_all add: demo_world_def demo_joined_def boot_def idle_def works_def JoinChord_def Join_def with_node_def demo_new_def
      NewFileServer_def Dial_def OnPeer_def demo_dial_def sendNotify_def sendMessage_def on_peer_def send_frame_ok
      NewChordNode_def join_state_def written_def)

lemma demo_creator:
  "nodes demo_world addr3000 = Some (boot (InitChord (demo_new addr3000)))" "idle (boot s)"
  "chord (InitChord (demo_new addr3000)) = Some (Create (NewChordNode addr3000))" "peers (InitChord (demo_new addr3000)) = []"
  by (simp_all add: demo_world_def demo_first_def boot_def idle_def InitChord_def demo_new_def NewFileServer_def)

lemma demo_notified:
  "successor (fst (notify (ref_of addr4000) (Create (NewChordNode addr3000)))) = Some (ref_of addr4000)"
  "predecessor (fst (notify (ref_of addr4000) (Create (NewChordNode addr3000)))) = Some (ref_of addr4000)"
  by (simp_all add: notify_def Create_def NewChordNode_def)

lemma demo_settled:
  "\<exists>W. ring_run (\<lambda>a. a) unary demo_first W \<and> settled W \<and> dom (nodes W) = {addr3000, addr4000} \<and>
    succs W addr3000 = Some addr4000"
proof -
  let ?st = "boot (InitChord (demo_new addr3000))" and ?n = "fst (notify (ref_of addr4000) (Create (NewChordNode addr3000)))"
  have "srv ?st = InitChord (demo_new addr3000)" by (simp add: boot_def)
  then obtain V s where V: "ring_run (\<lambda>a. a) unary demo_world V"
    "nodes V = (nodes demo_world)(addr3000 \<mapsto> ?st\<lparr>srv := s\<rparr>)" "chord s = Some ?n" "peers s = []"
    using notify_run [OF demo_creator(1,2) _ _ _ _ unary_ok, of "Create (NewChordNode addr3000)" addr4000 addr3000
        "ref_of addr4000" "\<lambda>a. a"] demo_creator(3,4) demo_sent(1) by auto
  let ?p = "demo_peer addr4000 \<lparr>segs = [], fin = Open\<rparr> 0"
  let ?dl = "\<lambda>a. if a = addr4000 then Connected ?p True else Refused EOF"
  let ?s = "s\<lparr>peers := AList.update addr4000 ?p (peers s)\<rparr>"
  have c: "checkPredecessor (unary\<lparr>dialing := ?dl\<rparr>) s = (Ret (), ?s)"
    using V(3,4) demo_notified(2) by (simp add: checkPredecessor_def with_node_def Dial_def OnPeer_def)
  let ?st1 = "?st\<lparr>srv := s\<rparr>" and ?W = "set_node addr3000 (?st\<lparr>srv := ?s\<rparr>) V"
  have "sys_step (unary\<lparr>dialing := ?dl\<rparr>) ?st1 (?st1\<lparr>srv := ?s\<rparr>)"
    using c by (intro sys_step.checks) simp_all
  then have "sys_step (unary\<lparr>dialing := ?dl, clock := clock unary\<rparr>) ?st1 (?st\<lparr>srv := ?s\<rparr>)" by simp
  moreover have "dials_to (dom (nodes V)) ?dl" using V(2) by (auto simp: dials_to_def demo_dom)
  ultimately have "ring_step (\<lambda>a. a) unary V ?W"
    using ring_step.acts [where dl = ?dl and c = "clock unary" and e = unary and W = V and a = addr3000 and st = ?st1] V(2) by simp
  then have run: "ring_run (\<lambda>a. a) unary demo_first ?W" using demo_ring_run V(1) by (meson rtranclp.rtrancl_into_rtrancl rtranclp_trans)
  have at: "nodes ?W a = (if a = addr3000 then Some (?st\<lparr>srv := ?s\<rparr>) else if a = addr4000 then Some demo_joined else None)" for a
    using V(2) by (simp add: demo_world_def demo_first_def)
  have "works addr4000 ?s" by (simp add: works_def update_conv')
  then have "settled ?W" unfolding settled_def at using demo_sent(2,3) demo_creator(2) by simp
  moreover have "dom (nodes ?W) = {addr3000, addr4000}" unfolding dom_def at by auto
  moreover have "succs ?W addr3000 = Some addr4000"
    using V(3) demo_notified(1) by (simp add: succs_def node_at_def next_of_def) (simp add: Create_def NewChordNode_def)
  ultimately show ?thesis using run by blast
qed

lemma demo_quiet:
  "\<exists>W. ring_run (\<lambda>a. a) unary demo_first W \<and> quiet W \<and> dom (nodes W) = {addr3000, addr4000}"
proof -
  obtain W where W: "ring_run (\<lambda>a. a) unary demo_first W" "settled W" "dom (nodes W) = {addr3000, addr4000}"
    using demo_settled by blast
  have inj: "inj_on hashToNodeID (dom (nodes W))" "finite (dom (nodes W))" using W(3) demo_inj by simp_all
  have "ring_ok (\<lambda>a. a) unary addr3000 W" by (rule ring_run_ok [OF unary_ok refl W(1) [unfolded demo_founded] inj(1)])
  from converge [OF this inj(1) unary_ok W(2) inj(2), of addr4000] W show ?thesis by (auto intro: rtranclp_trans)
qed

lemma demo_consistent:
  "\<exists>W. ring_run (\<lambda>a. a) unary demo_first W \<and> settled W \<and> dom (nodes W) = {addr3000, addr4000} \<and>
    consistent_ring [addr3000, addr4000] (node_at W)"
proof -
  obtain W where W: "ring_run (\<lambda>a. a) unary demo_first W" "settled W" "dom (nodes W) = {addr3000, addr4000}"
    using demo_settled by blast
  have inj: "inj_on hashToNodeID (dom (nodes W))" "finite (dom (nodes W))" using W(3) demo_inj by simp_all
  have "ring_ok (\<lambda>a. a) unary addr3000 W" by (rule ring_run_ok [OF unary_ok refl W(1) [unfolded demo_founded] inj(1)])
  from converge_consistent [OF this inj(1) unary_ok W(2) inj(2), of addr4000 "[addr3000, addr4000]"] W(3)
  obtain W' where "ring_run (\<lambda>a. a) unary W W'" "settled W'" "dom (nodes W') = dom (nodes W)"
    "consistent_ring [addr3000, addr4000] (node_at W')" by auto
  then show ?thesis using W(1,3) by (intro exI [of _ W']) (auto intro: rtranclp_trans)
qed

text \<open>In a consistent ring of two nodes the node that is asked knows the answer.\<close>

lemma two_nodes_answer:
  assumes ring: "consistent_ring [a, b] ring" and n: "ring x = Some n" "x \<in> {a, b}" and k: "k < ringN" "k \<noteq> hashToNodeID x"
    and c: "find_step n k = Ask c"
  shows "\<exists>m r. ring (naddr c) = Some m \<and> find_step m k = Answer r"
proof -
  have inj: "inj_on hashToNodeID (set [a, b])" using ring by (simp add: consistent_ring_def)
  have node: "\<exists>m. ring y = Some m \<and> consistent_node [a, b] y m" if "y \<in> {a, b}" for y
    using ring that by (fastforce simp: consistent_ring_def split: option.splits)
  with find_step_consistent [of "[a, b]" x n k] k(2) node [OF n(2)] n inj k(1) c obtain y where
    y: "y \<in> {a, b}" "c = ref_of y" "isBetween (hashToNodeID y) (hashToNodeID x) k False" by auto
  obtain m where m: "ring y = Some m" "consistent_node [a, b] y m" using node [OF y(1)] by blast
  have xy: "cdist (hashToNodeID y) k < cdist (hashToNodeID x) k"
    using ring.forward_progress(1) [OF hashToNodeID_bound hashToNodeID_bound k(1) y(3)] .
  have "\<nexists>z. find_step m k = Ask (ref_of z) \<and> z \<in> {a, b} \<and> isBetween (hashToNodeID z) (hashToNodeID y) k False"
  proof
    assume "\<exists>z. find_step m k = Ask (ref_of z) \<and> z \<in> {a, b} \<and> isBetween (hashToNodeID z) (hashToNodeID y) k False"
    then obtain z where z: "z \<in> {a, b}" "cdist (hashToNodeID z) k < cdist (hashToNodeID y) k"
      using ring.forward_progress(1) [OF hashToNodeID_bound hashToNodeID_bound k(1)] by blast
    then show False using xy y(1) n(2) by auto
  qed
  moreover have "k \<noteq> hashToNodeID y" using y(3) isBetween_not_upper by blast
  ultimately have "\<exists>r. find_step m k = Answer r"
    using find_step_consistent [OF m(2) _ inj k(1)] y(1) by auto
  then show ?thesis using m(1) y(2) by auto
qed

section \<open>Properties\<close>

text \<open>C2: the ring never breaks. Whatever joins happen at the same time, whatever messages of the past arrive
  again, late or not at all: from every node the successors lead to the node that created the ring, and as
  soon as it is not alone the successors from there form one cycle that goes round the identifiers once.\<close>

theorem ring_never_breaks:
  assumes "codec_ok e" and "host a0 = a0" and "ring_run host e (founded a0 root T d) W"
    and "inj_on hashToNodeID (dom (nodes W))"
  shows "(\<forall>a \<in> dom (nodes W) - {a0}. reaches (succs W) a a0) \<and>
    (succs W a0 = None \<or> (\<exists>as. successively (\<lambda>x y. succs W x = Some y) (a0 # as @ [a0]) \<and>
      sorted_wrt (\<lambda>x y. apart a0 x < apart a0 y) (a0 # as)))"
proof -
  have ok: "ring_ok host e a0 W" by (rule ring_run_ok [OF assms])
  then show ?thesis using ring_okD(4) [OF ok] ring_round [OF ok assms(4)] by blast
qed

theorem ring_never_breaks_witness:
  "\<exists>W as. ring_run (\<lambda>a. a) unary demo_first W \<and> addr4000 \<in> dom (nodes W) \<and> reaches (succs W) addr4000 addr3000 \<and>
    successively (\<lambda>x y. succs W x = Some y) (addr3000 # as @ [addr3000])"
proof -
  obtain W where W: "ring_run (\<lambda>a. a) unary demo_first W" "dom (nodes W) = {addr3000, addr4000}"
    "succs W addr3000 = Some addr4000" using demo_settled by blast
  have "inj_on hashToNodeID (dom (nodes W))" using W(2) demo_inj by simp
  note ring = ring_never_breaks [OF unary_ok refl W(1) [unfolded demo_founded] this]
  have "addr4000 \<in> dom (nodes W)" using W(2) by simp
  moreover have "reaches (succs W) addr4000 addr3000" using ring W(2) by simp
  moreover obtain as where "successively (\<lambda>x y. succs W x = Some y) (addr3000 # as @ [addr3000])"
    using ring W(3) by (metis option.distinct(1))
  ultimately show ?thesis using W(1) by blast
qed





text \<open>C5: an ideal ring stays so: once it is quiet, no run changes the successor of any node before another
  node joins, whatever messages of the past arrive, and even if nodes lose their predecessors.\<close>

theorem ideal_ring_stays:
  assumes "codec_ok e" and "host a0 = a0" and "ring_run host e (founded a0 root T d) W"
    and "inj_on hashToNodeID (dom (nodes W))" and "quiet W" and "ring_run host e W W'" and "dom (nodes W') = dom (nodes W)"
  shows "succs W' = succs W"
proof -
  have ok: "ring_ok host e a0 W" by (rule ring_run_ok [OF assms(1-4)])
  have "\<exists>b. succs W a = Some b" if a: "a \<in> dom (nodes W)" for a
  proof -
    obtain n b where "node_at W a = Some n" "self n = ref_of a" "successor n = Some (ref_of b)" "b \<noteq> a"
      by (rule quiet_pred [OF ok assms(4,5) a])
    then show ?thesis by (simp add: succs_def next_of_def)
  qed
  then have "nearest (dom (nodes W)) (succs W)"
    using quiet_next [OF ok assms(4,5)] unfolding nearest_def by blast
  then show ?thesis using ring_run_succs [OF assms(6,1) ring_okD(1) [OF ok] assms(7)] by simp
qed

theorem ideal_ring_stays_witness:
  "\<exists>W W'. ring_run (\<lambda>a. a) unary demo_first W \<and> quiet W \<and> ring_run (\<lambda>a. a) unary W W' \<and> W' \<noteq> W \<and> succs W' = succs W"
proof -
  obtain W where W: "ring_run (\<lambda>a. a) unary demo_first W" "quiet W" "dom (nodes W) = {addr3000, addr4000}"
    using demo_quiet by blast
  obtain st where st: "nodes W addr4000 = Some st" using W(3) by auto
  let ?p = "\<lambda>b. (demo_peer addr5000 \<lparr>segs = [], fin = Open\<rparr> 0)\<lparr>outbound := b\<rparr>"
  let ?W = "\<lambda>b. set_node addr4000 (st\<lparr>srv := snd (OnPeer (?p b) (srv st))\<rparr>) W"
  have run: "ring_run (\<lambda>a. a) unary W (?W b)" for b
    by (rule r_into_rtranclp [of "ring_step (\<lambda>a. a) unary"], rule act_run [OF st], rule sys_step.connects) simp_all
  have look: "map_of (peers (srv (the (nodes (?W b) addr4000)))) addr5000 = Some (?p b)" for b
    by (simp add: OnPeer_def update_conv')
  have "?W True \<noteq> ?W False"
  proof
    assume "?W True = ?W False"
    then have "Some (?p True) = Some (?p False)" using look [of True] look [of False] by (simp only:)
    then have "outbound (?p True) = outbound (?p False)" by (simp only: option.inject)
    then show False by simp
  qed
  then obtain b where b: "?W b \<noteq> W" by metis
  have inj: "inj_on hashToNodeID (dom (nodes W))" "dom (nodes (?W b)) = dom (nodes W)" using W(3) demo_inj st by auto
  have "succs (?W b) = succs W"
    by (rule ideal_ring_stays [OF unary_ok refl W(1) [unfolded demo_founded] inj(1) W(2) run inj(2)])
  then show ?thesis using W run b by blast
qed

text \<open>C4: over its messages a consistent ring repairs fingers. When a node of idle, connected nodes, whose address
  has no hyphen, looks up the start of a finger, and the node it asks, if any, knows the answer, then there is a run in which the request and
  the response are sent and handled, the owner of the identifier is stored as the finger, nothing else of the nodes
  changes, and the ring is still consistent.\<close>

theorem ring_repairs_finger:
  assumes "codec_ok e" and "host a0 = a0" and "ring_run host e (founded a0 root T d) W"
    and "inj_on hashToNodeID (dom (nodes W))" and "settled W" and "set addrs = dom (nodes W)"
    and "consistent_ring addrs (node_at W)" and "node_at W a = Some n" and "CHR ''-'' \<notin> set a"
    and "k = fingerID (nid (self n)) i" and "i < M"
    and "\<And>c. find_step n k = Ask c \<Longrightarrow> \<exists>m r. node_at W (naddr c) = Some m \<and> find_step m k = Answer r"
  shows "\<exists>W' s. ring_run host e W W' \<and> settled W' \<and> is_owner addrs k s \<and>
    node_at W' = (node_at W)(a \<mapsto> set_finger i (ref_of s) n) \<and> consistent_ring addrs (node_at W')"
proof -
  have ok: "ring_ok host e a0 W" by (rule ring_run_ok [OF assms(1-4)])
  have a: "a \<in> set addrs" using node_at_dom [OF assms(8)] assms(6) by simp
  have k: "k < ringN" unfolding assms(10) by (rule fingerID_bound)
  have self: "self n = ref_of a" using assms(7,8) a by (auto simp: consistent_ring_def consistent_node_def)
  then have own: "k \<noteq> hashToNodeID a" using fingerID_not_own [OF hashToNodeID_bound assms(11), of a] assms(10) by simp
  have "card (closer addrs k a) < Suc (Suc (length addrs))" using closer_bound [OF a, of k] by simp
  then obtain s where s: "lookup (Suc (Suc (length addrs))) (node_at W) n k = Some (ref_of s)" "is_owner addrs k s"
    using lookup_owner [OF assms(7) k own a assms(8)] by blast
  have "\<exists>W'. ring_run host e W W' \<and> settled W' \<and> node_at W' = (node_at W)(a \<mapsto> set_finger i (ref_of s) n)"
  proof (cases "find_step n k")
    case (Answer r)
    then show ?thesis using local_run [OF assms(5,8), of i r host e] assms(10) s(1) by auto
  next
    case (Ask c)
    then obtain m r where m: "node_at W (naddr c) = Some m" "find_step m k = Answer r" using assms(12) by blast
    have "naddr c \<noteq> a" using self Ask by (auto simp: find_step_def Let_def split: option.splits if_splits)
    moreover have "addressed W"
      by (rule ring_run_addressed [OF assms(3,1) _ founded_addressed]) (use ring_okD(1) [OF founded_ok] assms(2) in blast)
    ultimately show ?thesis
      using lookup_run [OF assms(5,1) ring_okD(3) [OF ok] _ assms(8) Ask [unfolded assms(10)] refl _ assms(9) m(1)
          m(2) [unfolded assms(10)]] s(1) Ask m by auto
  qed
  then show ?thesis using repaired_ring [OF assms(7) a assms(8)] assms(10) s(2) by metis
qed

theorem ring_repairs_finger_witness:
  "\<exists>W W' s n. ring_run (\<lambda>a. a) unary demo_first W \<and> node_at W addr4000 = Some n \<and> ring_run (\<lambda>a. a) unary W W' \<and>
    is_owner [addr3000, addr4000] (fingerID (hashToNodeID addr4000) 159) s \<and>
    node_at W' = (node_at W)(addr4000 \<mapsto> set_finger 159 (ref_of s) n)"
proof -
  obtain W where W: "ring_run (\<lambda>a. a) unary demo_first W" "settled W" "dom (nodes W) = {addr3000, addr4000}"
    "consistent_ring [addr3000, addr4000] (node_at W)" using demo_consistent by blast
  obtain n where n: "node_at W addr4000 = Some n" "self n = ref_of addr4000"
    using W(4) by (auto simp: consistent_ring_def consistent_node_def split: option.splits)
  let ?k = "fingerID (nid (self n)) 159"
  have i: "159 < M" by (simp add: M_def)
  then have k: "?k \<noteq> hashToNodeID addr4000" using fingerID_not_own [OF hashToNodeID_bound, of 159 addr4000] n(2) by simp
  have h: "CHR ''-'' \<notin> set addr4000" by (simp add: addr4000_def)
  have inj: "inj_on hashToNodeID (dom (nodes W))" "set [addr3000, addr4000] = dom (nodes W)" using W(3) demo_inj by simp_all
  from ring_repairs_finger [OF unary_ok refl W(1) [unfolded demo_founded] inj(1) W(2) inj(2) W(4) n(1) h refl i]
    two_nodes_answer [OF W(4) n(1) _ fingerID_bound] k W(1) n
  show ?thesis by auto
qed

end
