(* ===== verification/Routines.thy ===== *)
theory Routines
  imports World_Props
begin

text \<open>
  The background routines of a Chord node (\<open>chord_util.go\<close>, \<open>chord.go\<close>): each waits for a tick
  or for the stop signal and runs one maintenance step per tick. The ticks carry what the step
  finds in the world at that moment.
\<close>

section \<open>Routines\<close>

datatype 'a signal = Tick 'a | Stopped

fun routine :: "('a \<Rightarrow> server \<Rightarrow> unit res \<times> server) \<Rightarrow> 'a signal list \<Rightarrow> server \<Rightarrow> unit res \<times> server" where
  "routine f [] s = (Hang, s)"
| "routine f (Stopped # xs) s = (Ret (), s)"
| "routine f (Tick x # xs) s = andthen (f x s) (\<lambda>_ s. routine f xs s)"

definition stabilizeRoutine :: "env signal list \<Rightarrow> server \<Rightarrow> unit res \<times> server" where
  "stabilizeRoutine xs s = routine stabilize xs s"

text \<open>\<open>rand.Intn\<close> is the argument \<open>Intn\<close>; it panics when there is nothing to choose from.\<close>

definition randInt :: "(int \<Rightarrow> int) \<Rightarrow> int \<Rightarrow> int \<Rightarrow> int res" where
  "randInt Intn lo hi =
     (if hi - lo \<le> 0 then Panic ''invalid argument to Intn'' else Ret (lo + Intn (hi - lo)))"

definition fixFingersRoutine ::
  "(env \<times> node_ref option list \<times> (int \<Rightarrow> int)) signal list \<Rightarrow> server \<Rightarrow> unit res \<times> server" where
  "fixFingersRoutine xs s =
     routine (\<lambda>(e, replies, Intn) s.
       andthen (randInt Intn 0 (int M), s) (\<lambda>i s. fixFinger e replies (nat i) s)) xs s"

definition checkPredecessorRoutine :: "env signal list \<Rightarrow> server \<Rightarrow> unit res \<times> server" where
  "checkPredecessorRoutine xs s = routine checkPredecessor xs s"

text \<open>\<open>ChordNode.Stop\<close> closes the stop channel, of which the argument says whether it is closed.\<close>

definition StopNode :: "bool \<Rightarrow> unit res \<times> bool" where
  "StopNode closed = (if closed then (Panic ''close of closed channel'', closed) else (Ret (), True))"

section \<open>Draws\<close>

lemma fixFingersRoutine_Tick:
  assumes "0 \<le> Intn (int M)" and "Intn (int M) < int M"
  shows "nat (Intn (int M)) < M \<and> fixFingersRoutine (Tick (e, replies, Intn) # xs) s =
    andthen (fixFinger e replies (nat (Intn (int M))) s) (\<lambda>_ s. fixFingersRoutine xs s)"
  using assms by (auto simp: fixFingersRoutine_def randInt_def M_def andthen_def)

section \<open>Routines as runs of the system\<close>

text \<open>The server after one maintenance step for each tick, in order.\<close>

abbreviation after :: "('a \<Rightarrow> server \<Rightarrow> unit res \<times> server) \<Rightarrow> 'a list \<Rightarrow> server \<Rightarrow> server" where
  "after f xs s \<equiv> fold (\<lambda>x s. snd (f x s)) xs s"

text \<open>A routine whose steps are steps of its node, from every state that has a property they keep.\<close>

lemma routine_run:
  assumes "\<And>x st. x \<in> set xs \<Longrightarrow> P st \<Longrightarrow> \<exists>s. f x (srv st) = (Ret (), s) \<and> P (st\<lparr>srv := s\<rparr>) \<and>
      (\<forall>V. nodes V a = Some st \<and> dom (nodes V) = A \<longrightarrow> ring_step host e V (set_node a (st\<lparr>srv := s\<rparr>) V))"
    and "P st" and "nodes W a = Some st" and "dom (nodes W) = A"
  shows "routine f (map Tick xs @ Stopped # ys) (srv st) = (Ret (), after f xs (srv st)) \<and>
    (\<exists>W'. (ring_step host e ^^ length xs) W W' \<and> nodes W' = (nodes W)(a \<mapsto> st\<lparr>srv := after f xs (srv st)\<rparr>))"
  using assms
proof (induction xs arbitrary: st W)
  case Nil
  then show ?case by auto
next
  case (Cons x xs)
  obtain s1 where s1: "f x (srv st) = (Ret (), s1)" "P (st\<lparr>srv := s1\<rparr>)"
    "ring_step host e W (set_node a (st\<lparr>srv := s1\<rparr>) W)"
    using Cons.prems(1) [of x st] Cons.prems(2-4) by auto
  let ?W = "set_node a (st\<lparr>srv := s1\<rparr>) W" and ?st = "st\<lparr>srv := s1\<rparr>"
  have dom: "dom (nodes ?W) = A" using Cons.prems(3,4) by auto
  have "routine f (map Tick xs @ Stopped # ys) (srv ?st) = (Ret (), after f xs (srv ?st)) \<and>
      (\<exists>W'. (ring_step host e ^^ length xs) ?W W' \<and> nodes W' = (nodes ?W)(a \<mapsto> ?st\<lparr>srv := after f xs (srv ?st)\<rparr>))"
    by (rule Cons.IH [OF Cons.prems(1) s1(2) _ dom]) simp_all
  then obtain W' where s: "routine f (map Tick xs @ Stopped # ys) s1 = (Ret (), after f xs s1)"
    "(ring_step host e ^^ length xs) ?W W'" "nodes W' = (nodes ?W)(a \<mapsto> ?st\<lparr>srv := after f xs s1\<rparr>)" by auto
  have "(ring_step host e ^^ Suc (length xs)) W W'" by (rule relpowp_Suc_I2 [OF s1(3) s(2)])
  then show ?case using s1(1) s(1,3) by (intro conjI exI [of _ W']) simp_all
qed

text \<open>What the routines need of a node: a successor, and no lookup that holds the lock.\<close>

definition ready :: "system \<Rightarrow> bool" where
  "ready st \<longleftrightarrow> lookups st = [] \<and> (\<exists>n. chord (srv st) = Some n \<and> successor n \<noteq> None)"

lemma stabilize_returns: "chord s = Some n \<Longrightarrow> successor n \<noteq> None \<Longrightarrow> \<exists>t. stabilize e s = (Ret (), t) \<and> chord t = chord s"
proof -
  assume n: "chord s = Some n" "successor n \<noteq> None"
  have "ignoring (andthen (sendMessage e a m s) (\<lambda>_ s. sendMessage e a m' s)) = (Ret (), snd (andthen (sendMessage e a m s) (\<lambda>_ s. sendMessage e a m' s)))"
    if "map_of (peers s) a = Some p" for a m m' p
    using that
    by (cases "broken p") (simp_all add: sendMessage_def on_peer_def send_frame_ok send_frame_broken update_conv' andthen_def)
  then have "fst (stabilize e s) = Ret ()" using n by (auto simp: stabilize_def with_node_def split: option.split)
  moreover have "chord (snd (stabilize e s)) = chord s" by (rule frame_stabilize)
  ultimately show ?thesis by (metis prod.collapse)
qed

lemma checkPredecessor_returns:
  assumes "chord s = Some n"
  shows "\<exists>t n'. checkPredecessor e s = (Ret (), t) \<and> chord t = Some n' \<and> successor n' = successor n"
proof -
  have "fst (checkPredecessor e s) = Ret ()"
    using assms by (auto simp: checkPredecessor_def with_node_def Dial_def split: option.split dial_result.split)
  moreover have "\<exists>n'. chord (snd (checkPredecessor e s)) = Some n' \<and> successor n' = successor n"
    by (cases rule: checkPredecessor_result [of e s]) (use assms in \<open>simp_all add: frame\<close>)
  ultimately show ?thesis by (metis prod.collapse)
qed

text \<open>C25: the routines are runs of the system. Whatever the ticks find, \<open>stabilizeRoutine\<close> and
  \<open>checkPredecessorRoutine\<close> return at the stop signal, whatever comes after it, with the server that results from
  one maintenance step for each tick before it, in order; and as many steps of the system as there are ticks,
  in which nothing else happens, lead to just that server.\<close>

theorem routines_are_runs:
  assumes "nodes W a = Some st" and "ready st" and "\<forall>x \<in> set xs. dials_to (dom (nodes W)) (dialing x) \<and>
      x = e\<lparr>dialing := dialing x, clock := clock x\<rparr>"
  shows "(stabilizeRoutine (map Tick xs @ Stopped # ys) (srv st) = (Ret (), fold (\<lambda>x s. snd (stabilize x s)) xs (srv st)) \<and>
      (\<exists>W'. (ring_step host e ^^ length xs) W W' \<and>
        nodes W' = (nodes W)(a \<mapsto> st\<lparr>srv := fold (\<lambda>x s. snd (stabilize x s)) xs (srv st)\<rparr>))) \<and>
    (checkPredecessorRoutine (map Tick xs @ Stopped # ys) (srv st) =
        (Ret (), fold (\<lambda>x s. snd (checkPredecessor x s)) xs (srv st)) \<and>
      (\<exists>W'. (ring_step host e ^^ length xs) W W' \<and>
        nodes W' = (nodes W)(a \<mapsto> st\<lparr>srv := fold (\<lambda>x s. snd (checkPredecessor x s)) xs (srv st)\<rparr>)))"
proof -
  have act: "ring_step host e V (set_node a st' V)"
    if "x \<in> set xs" "sys_step x t st'" "nodes V a = Some t" "dom (nodes V) = dom (nodes W)" for x t st' V
    using ring_step.acts [where dl = "dialing x" and c = "clock x" and e = e, OF that(3)] assms(3) that by metis
  have "\<exists>s. stabilize x (srv t) = (Ret (), s) \<and> ready (t\<lparr>srv := s\<rparr>) \<and>
      (\<forall>V. nodes V a = Some t \<and> dom (nodes V) = dom (nodes W) \<longrightarrow> ring_step host e V (set_node a (t\<lparr>srv := s\<rparr>) V))"
    if x: "x \<in> set xs" "ready t" for x t
  proof -
    obtain s where "stabilize x (srv t) = (Ret (), s)" "chord s = chord (srv t)"
      using stabilize_returns x(2) unfolding ready_def by blast
    then show ?thesis using act [OF x(1) sys_step.stabilizes] x(2) by (auto simp: ready_def)
  qed
  moreover have "\<exists>s. checkPredecessor x (srv t) = (Ret (), s) \<and> ready (t\<lparr>srv := s\<rparr>) \<and>
      (\<forall>V. nodes V a = Some t \<and> dom (nodes V) = dom (nodes W) \<longrightarrow> ring_step host e V (set_node a (t\<lparr>srv := s\<rparr>) V))"
    if x: "x \<in> set xs" "ready t" for x t
  proof -
    obtain n where n: "chord (srv t) = Some n" "successor n \<noteq> None" "lookups t = []" using x(2) unfolding ready_def by blast
    obtain s n' where "checkPredecessor x (srv t) = (Ret (), s)" "chord s = Some n'" "successor n' = successor n"
      using checkPredecessor_returns [OF n(1)] by blast
    then show ?thesis using act [OF x(1) sys_step.checks] n by (auto simp: ready_def)
  qed
  ultimately show ?thesis
    unfolding stabilizeRoutine_def checkPredecessorRoutine_def
    by (intro conjI routine_run [where P = ready and A = "dom (nodes W)", OF _ assms(2,1) refl])
qed

theorem routines_are_runs_witness:
  "\<exists>s W'. stabilizeRoutine [Tick unary, Tick unary, Stopped] (srv demo_joined) = (Ret (), s) \<and>
    s = snd (stabilize unary (snd (stabilize unary (srv demo_joined)))) \<and>
    (ring_step (\<lambda>a. a) unary ^^ 2) demo_world W' \<and> nodes W' = (nodes demo_world)(addr4000 \<mapsto> demo_joined\<lparr>srv := s\<rparr>)"
proof -
  have r: "ready demo_joined" by (simp add: ready_def join_state_def) (simp add: demo_joined_def boot_def)
  have "dials_to A (dialing unary)" for A by (simp add: unary_def demo_env_def dials_to_def)
  then have x: "\<forall>x \<in> set [unary, unary]. dials_to (dom (nodes demo_world)) (dialing x) \<and>
      x = unary\<lparr>dialing := dialing x, clock := clock x\<rparr>" by simp
  from routines_are_runs [OF demo_world_nodes(1) r x, of "[]" "\<lambda>a. a", THEN conjunct1] show ?thesis
    by (simp add: numeral_2_eq_2 del: relpowp.simps)
qed

end
