(* ===== verification/Transport.thy ===== *)
theory Transport
  imports Wire "HOL-Library.Sublist"
begin

text \<open>
  \<open>TCPTransport\<close> (\<open>p2p/tcp_transport.go\<close>): its options, the listener, the accept loop, a read loop
  for each connection, and the one channel that all read loops share and the server consumes.
  A step of the transport is a step of one of these goroutines, so that a run is any
  interleaving of them.

  \<open>consumed\<close> and \<open>registered\<close> record what the server has got: the RPCs it has taken off the
  channel and the peers \<open>OnPeer\<close> was called with.
\<close>

section \<open>State\<close>

record TCPTransportOptions =
  ListenAddress :: string
  HandShakeFunc :: "peer \<Rightarrow> unit res"
  OnPeerFunc :: "(peer \<Rightarrow> unit res) option"

text \<open>The listener is nil until a call of \<open>net.Listen\<close> has succeeded.\<close>

datatype listener = Unbound | Listening | Shut

text \<open>The goroutine of a connection: before its loop, in the loop, returned.\<close>

datatype link = Starting peer | Running conn | Dropped

record transport = TCPTransportOptions +
  listener :: listener
  acceptors :: nat
  links :: "link list"
  channel :: "RPC list"
  registered :: "peer list"
  consumed :: "RPC list"
  crashed :: bool

definition NOTHandShakeFunc :: "peer \<Rightarrow> unit res" where
  "NOTHandShakeFunc p = Ret ()"

section \<open>Operations\<close>

definition NewTCPTransport :: "TCPTransportOptions \<Rightarrow> transport" where
  "NewTCPTransport opts = TCPTransportOptions.extend opts
     \<lparr>listener = Unbound, acceptors = 0, links = [], channel = [], registered = [], consumed = [], crashed = False\<rparr>"

definition Addr :: "transport \<Rightarrow> string" where
  "Addr t = ListenAddress t"

text \<open>The receiving end of the channel.\<close>

definition Consume :: "transport \<Rightarrow> RPC list" where
  "Consume t = channel t"

definition Close :: "transport \<Rightarrow> unit res \<times> transport" where
  "Close t =
     (case listener t of
        Unbound \<Rightarrow> (Panic ''nil pointer dereference'', t)
      | Listening \<Rightarrow> (Ret (), t\<lparr>listener := Shut\<rparr>)
      | Shut \<Rightarrow> (Fail (NetError ''use of closed network connection''), t))"

text \<open>A connection as \<open>net.Dial\<close> and \<open>Accept\<close> return it: its addresses and what can be read from it.
  \<open>handleConn\<close> is started as a goroutine.\<close>

type_synonym net_conn = "string \<times> string \<times> stream"

fun handleConn :: "net_conn \<Rightarrow> bool \<Rightarrow> transport \<Rightarrow> transport" where
  "handleConn (l, r, i) out t = t\<lparr>links := links t @ [Starting (NewTCPPeer l r i out)]\<rparr>"

definition dial_conn :: "error + net_conn \<Rightarrow> transport \<Rightarrow> string res \<times> transport" where
  "dial_conn d t =
     (case d of
        Inl e \<Rightarrow> (Fail e, t)
      | Inr c \<Rightarrow> (Ret (fst (snd c)), handleConn c True t))"

text \<open>\<open>ListenAndAccept\<close> assigns what \<open>net.Listen\<close> returns, in case of an error nil, and starts the accept loop.\<close>

definition ListenAndAccept :: "error option \<Rightarrow> transport \<Rightarrow> unit res \<times> transport" where
  "ListenAndAccept bind t =
     (case bind of
        Some e \<Rightarrow> (Fail e, t\<lparr>listener := Unbound\<rparr>)
      | None \<Rightarrow> (Ret (), t\<lparr>listener := Listening, acceptors := Suc (acceptors t)\<rparr>))"

text \<open>What \<open>handleConn\<close> does before its loop: the handshake and the registration; with whether it went well.\<close>

definition start_conn :: "peer \<Rightarrow> transport \<Rightarrow> unit res \<times> transport" where
  "start_conn p t =
     andthen (HandShakeFunc t p, t) (\<lambda>_ t.
       case OnPeerFunc t of
         None \<Rightarrow> (Ret (), t)
       | Some f \<Rightarrow> (f p, t\<lparr>registered := registered t @ [p]\<rparr>))"

section \<open>Steps\<close>

text \<open>The connection seen with the channel, and back.\<close>

definition on_channel :: "RPC list \<Rightarrow> conn \<Rightarrow> conn_state" where
  "on_channel ch c = conn.extend c \<lparr>rpcch = ch\<rparr>"

definition new_conn :: "peer \<Rightarrow> conn" where
  "new_conn p = conn.truncate (open_conn p)"

definition set_link :: "nat \<Rightarrow> link \<Rightarrow> transport \<Rightarrow> transport" where
  "set_link i l t = t\<lparr>links := (links t)[i := l]\<rparr>"

text \<open>What happens to a connection beside its loop and the channel.\<close>

inductive beside :: "conn \<Rightarrow> conn \<Rightarrow> bool" where
  read: "conn_read k (cpeer c) = (Ret bs, p) \<Longrightarrow> beside c (c\<lparr>cpeer := p, taken := taken c @ bs\<rparr>)"
| closes: "CloseStream (cpeer c) = (Ret (), p) \<Longrightarrow> beside c (c\<lparr>cpeer := p\<rparr>)"
| arrives: "fin (inp (cpeer c)) = Open \<Longrightarrow>
    beside c (c\<lparr>cpeer := (cpeer c)\<lparr>inp := deliver [bs] (inp (cpeer c))\<rparr>, arrived := arrived c @ [bs]\<rparr>)"
| ends: "fin (inp (cpeer c)) = Open \<Longrightarrow>
    beside c (c\<lparr>cpeer := (cpeer c)\<lparr>inp := (inp (cpeer c))\<lparr>fin := en\<rparr>\<rparr>\<rparr>)"

text \<open>
  The program dials, listens, or closes the listener; the accept loop takes a connection, ends
  with the listener, or gets another error, whose nil connection crashes the process; a
  connection starts, is refused by the handshake or by \<open>OnPeer\<close>, makes a step of its loop, or
  something happens beside it; a stream that is not open is closed, which crashes the process;
  the server consumes an RPC.
\<close>

inductive transport_step :: "transport \<Rightarrow> transport \<Rightarrow> bool" where
  dials: "\<not> crashed t \<Longrightarrow> transport_step t (snd (dial_conn d t))"
| listens: "\<not> crashed t \<Longrightarrow> transport_step t (snd (ListenAndAccept b t))"
| shuts: "\<not> crashed t \<Longrightarrow> transport_step t ((snd (Close t))\<lparr>crashed := listener t = Unbound\<rparr>)"
| accepts: "\<lbrakk>\<not> crashed t; 0 < acceptors t; listener t = Listening\<rbrakk> \<Longrightarrow> transport_step t (handleConn c False t)"
| accept_ends: "\<lbrakk>\<not> crashed t; 0 < acceptors t; listener t = Shut\<rbrakk> \<Longrightarrow>
    transport_step t (t\<lparr>acceptors := acceptors t - 1\<rparr>)"
| accept_fails: "\<lbrakk>\<not> crashed t; 0 < acceptors t; listener t \<noteq> Shut\<rbrakk> \<Longrightarrow> transport_step t (t\<lparr>crashed := True\<rparr>)"
| starts: "\<lbrakk>\<not> crashed t; i < length (links t); links t ! i = Starting p; start_conn p t = (Ret (), t')\<rbrakk> \<Longrightarrow>
    transport_step t (set_link i (Running (new_conn p)) t')"
| refused: "\<lbrakk>\<not> crashed t; i < length (links t); links t ! i = Starting p; start_conn p t = (Fail e, t')\<rbrakk> \<Longrightarrow>
    transport_step t (set_link i Dropped t')"
| loops: "\<lbrakk>\<not> crashed t; i < length (links t); links t ! i = Running c; loop_step (on_channel (channel t) c) c'\<rbrakk> \<Longrightarrow>
    transport_step t ((set_link i (Running (conn.truncate c')) t)\<lparr>channel := rpcch c'\<rparr>)"
| besides: "\<lbrakk>\<not> crashed t; i < length (links t); links t ! i = Running c; beside c c'\<rbrakk> \<Longrightarrow>
    transport_step t (set_link i (Running c') t)"
| close_crashes: "\<lbrakk>\<not> crashed t; i < length (links t); links t ! i = Running c; CloseStream (cpeer c) = (Panic m, p)\<rbrakk> \<Longrightarrow>
    transport_step t (t\<lparr>crashed := True\<rparr>)"
| consumes: "\<lbrakk>\<not> crashed t; Consume t = rpc # rest\<rbrakk> \<Longrightarrow>
    transport_step t (t\<lparr>channel := rest, consumed := consumed t @ [rpc]\<rparr>)"

abbreviation transport_run :: "transport \<Rightarrow> transport \<Rightarrow> bool" where
  "transport_run \<equiv> transport_step\<^sup>*\<^sup>*"

section \<open>Each connection runs as if alone\<close>

lemma on_channel_simps [simp]:
  "rpcch (on_channel ch c) = ch" "cpeer (on_channel ch c) = cpeer c" "phase (on_channel ch c) = phase c"
  "taken (on_channel ch c) = taken c" "put (on_channel ch c) = put c" "arrived (on_channel ch c) = arrived c"
  by (simp_all add: on_channel_def conn.defs)

lemma truncate_simps [simp]:
  "cpeer (conn.truncate c) = cpeer c" "phase (conn.truncate c) = phase c" "taken (conn.truncate c) = taken c"
  "put (conn.truncate c) = put c" "arrived (conn.truncate c) = arrived c"
  by (simp_all add: conn.defs)

lemma truncate_on_channel [simp]: "conn.truncate (on_channel ch c) = c"
  by (simp add: on_channel_def conn.defs)

lemma on_channel_truncate [simp]: "on_channel (rpcch c) (conn.truncate c) = c"
  by (simp add: on_channel_def conn.defs)

lemma loop_step_channel:
  "loop_step c c' \<Longrightarrow> rpcch c' = rpcch c \<and> put c' = put c \<or>
    (\<exists>rpc. phase c = Holding rpc \<and> rpcch c' = rpcch c @ [rpc] \<and> put c' = put c @ [rpc] \<and> length (rpcch c) < rpcch_cap)"
  by (induction rule: loop_step.induct) auto

lemma beside_step: "beside c c' \<Longrightarrow> conn_step (on_channel ch c) (on_channel ch c')"
proof (induction rule: beside.induct)
  case (read k c bs p)
  then show ?case
    using conn_step.handler_read [of k "on_channel ch c" bs p] by (simp add: on_channel_def conn.defs)
next
  case (closes c p)
  then show ?case using conn_step.handler_close [of "on_channel ch c" p] by (simp add: on_channel_def conn.defs)
next
  case (arrives c bs)
  then show ?case using conn_step.arrive [of "on_channel ch c" bs] by (simp add: on_channel_def conn.defs)
next
  case (ends c en)
  then show ?case using conn_step.ends [of "on_channel ch c" en] by (simp add: on_channel_def conn.defs)
qed

lemma others_step:
  "length ch < rpcch_cap \<Longrightarrow> conn_step (on_channel ch c) (on_channel (ch @ [rpc]) c)"
  using conn_step.others [of "on_channel ch c" rpc] by (simp add: on_channel_def conn.defs)

text \<open>A connection is opened on a channel that others have used.\<close>

lemma others_fill:
  "length ch \<le> rpcch_cap \<Longrightarrow> conn_steps (open_conn p) (on_channel ch (new_conn p))"
proof (induction ch rule: rev_induct)
  case Nil
  then show ?case by (simp add: on_channel_def new_conn_def open_conn_def conn.defs)
next
  case (snoc rpc ch)
  then have "conn_steps (open_conn p) (on_channel ch (new_conn p))" by simp
  moreover have "conn_step (on_channel ch (new_conn p)) (on_channel (ch @ [rpc]) (new_conn p))"
    using snoc.prems by (intro others_step) simp
  ultimately show ?case by (rule rtranclp.rtrancl_into_rtrancl)
qed

lemma start_conn_simps:
  "start_conn p t = (r, t') \<Longrightarrow> links t' = links t \<and> channel t' = channel t \<and> consumed t' = consumed t \<and>
    (registered t' = registered t \<or> registered t' = registered t @ [p])"
  by (auto simp: start_conn_def andthen_def split: res.splits option.splits)

lemma set_link_simps [simp]:
  "links (set_link i l t) = (links t)[i := l]" "channel (set_link i l t) = channel t" "consumed (set_link i l t) = consumed t"
  by (simp_all add: set_link_def)

lemma op_simps [simp]:
  "links (snd (dial_conn d t)) = links t \<or> (\<exists>p. wg p = 0 \<and> links (snd (dial_conn d t)) = links t @ [Starting p])"
  "channel (snd (dial_conn d t)) = channel t" "consumed (snd (dial_conn d t)) = consumed t"
  "links (snd (ListenAndAccept b t)) = links t" "channel (snd (ListenAndAccept b t)) = channel t"
  "consumed (snd (ListenAndAccept b t)) = consumed t"
  "links (snd (Close t)) = links t" "channel (snd (Close t)) = channel t" "consumed (snd (Close t)) = consumed t"
  "channel (handleConn c out t) = channel t" "consumed (handleConn c out t) = consumed t"
  by (cases c; cases d; auto simp: dial_conn_def NewTCPPeer_def ListenAndAccept_def Close_def split: option.split listener.split)+

text \<open>The traffic of a transport: its links, the channel, and what was consumed.\<close>

type_synonym traffic = "link list \<times> RPC list \<times> RPC list"

inductive moves :: "traffic \<Rightarrow> traffic \<Rightarrow> bool" where
  stays: "moves v v"
| new: "wg p = 0 \<Longrightarrow> moves (ls, ch, co) (ls @ [Starting p], ch, co)"
| start: "\<lbrakk>i < length ls; ls ! i = Starting p\<rbrakk> \<Longrightarrow> moves (ls, ch, co) (ls[i := Running (new_conn p)], ch, co)"
| drop: "\<lbrakk>i < length ls; ls ! i = Starting p\<rbrakk> \<Longrightarrow> moves (ls, ch, co) (ls[i := Dropped], ch, co)"
| loop: "\<lbrakk>i < length ls; ls ! i = Running c; loop_step (on_channel ch c) c'\<rbrakk> \<Longrightarrow>
    moves (ls, ch, co) (ls[i := Running (conn.truncate c')], rpcch c', co)"
| besides: "\<lbrakk>i < length ls; ls ! i = Running c; beside c c'\<rbrakk> \<Longrightarrow> moves (ls, ch, co) (ls[i := Running c'], ch, co)"
| taken_off: "moves (ls, rpc # ch, co) (ls, ch, co @ [rpc])"

abbreviation traffic_of :: "transport \<Rightarrow> traffic" where
  "traffic_of t \<equiv> (links t, channel t, consumed t)"

lemma transport_moves: "transport_step t t' \<Longrightarrow> moves (traffic_of t) (traffic_of t')"
proof (induction rule: transport_step.induct)
  case (dials t d)
  then show ?case using op_simps(1) [of d t] moves.stays moves.new by fastforce
next
  case (accepts t c)
  then show ?case by (cases c) (simp add: moves.new NewTCPPeer_def)
next
  case (starts t i p t')
  then show ?case using start_conn_simps [of p t] by (simp add: moves.start)
next
  case (refused t i p e t')
  then show ?case using start_conn_simps [of p t] by (simp add: moves.drop)
next
  case (loops t i c c')
  then show ?case by (simp add: moves.loop)
next
  case (besides t i c c')
  then show ?case by (simp add: moves.besides)
next
  case (consumes t rpc rest)
  then show ?case by (simp add: Consume_def moves.taken_off)
qed (simp_all add: moves.stays)

lemma transport_run_moves: "transport_run t t' \<Longrightarrow> moves\<^sup>*\<^sup>* (traffic_of t) (traffic_of t')"
  by (induction rule: rtranclp_induct) (auto intro: rtranclp.rtrancl_into_rtrancl transport_moves)

section \<open>Each connection runs as if alone\<close>

definition running :: "link list \<Rightarrow> nat \<Rightarrow> conn \<Rightarrow> bool" where
  "running ls i c \<longleftrightarrow> i < length ls \<and> ls ! i = Running c"

lemma running_simps:
  "running (ls @ [Starting p]) j c \<longleftrightarrow> running ls j c"
  "i < length ls \<Longrightarrow> running (ls[i := Dropped]) j c \<longleftrightarrow> j \<noteq> i \<and> running ls j c"
  "i < length ls \<Longrightarrow> running (ls[i := Running d]) j c \<longleftrightarrow> (if j = i then c = d else running ls j c)"
  by (auto simp: running_def nth_append nth_list_update)

definition alone_ok :: "traffic \<Rightarrow> bool" where
  "alone_ok v \<longleftrightarrow> (case v of (ls, ch, co) \<Rightarrow> length ch \<le> rpcch_cap \<and>
     (\<forall>p. Starting p \<in> set ls \<longrightarrow> wg p = 0) \<and>
     (\<forall>i c. running ls i c \<longrightarrow> (\<exists>p. wg p = 0 \<and> conn_steps (open_conn p) (on_channel ch c))))"

lemma loop_step_fits: "loop_step c c' \<Longrightarrow> length (rpcch c) \<le> rpcch_cap \<Longrightarrow> length (rpcch c') \<le> rpcch_cap"
  using loop_step_channel [of c c'] by auto

lemma loop_step_others:
  assumes "loop_step (on_channel ch c) c'"
  shows "conn_steps (on_channel ch d) (on_channel (rpcch c') d)"
  using loop_step_channel [OF assms] others_step [of ch d] by auto

lemma starting_update: "Starting p \<in> set (ls[i := l]) \<Longrightarrow> Starting p \<in> set ls \<or> l = Starting p"
  by (auto dest!: set_update_subset_insert [THEN subsetD])

lemma moves_alone: "moves v v' \<Longrightarrow> alone_ok v \<Longrightarrow> alone_ok v'"
proof (induction rule: moves.induct)
  case (start i ls p ch co)
  then have "Starting p \<in> set ls" by (metis nth_mem)
  then have "wg p = 0" using start.prems by (simp add: alone_ok_def)
  then show ?case
    using start others_fill [of ch p] by (auto simp: alone_ok_def running_simps dest: starting_update)
next
  case (loop i ls c ch c' co)
  have "\<exists>p. wg p = 0 \<and> conn_steps (open_conn p) (on_channel ch c)"
    using loop.hyps(1,2) loop.prems by (simp add: alone_ok_def running_def)
  then have one: "\<exists>p. wg p = 0 \<and> conn_steps (open_conn p) (on_channel (rpcch c') (conn.truncate c'))"
    using conn_step.loops [OF loop.hyps(3)] by (auto intro: rtranclp.rtrancl_into_rtrancl)
  have other: "\<exists>p. wg p = 0 \<and> conn_steps (open_conn p) (on_channel (rpcch c') d)" if "running ls j d" for j d
    using that loop.prems loop_step_others [OF loop.hyps(3), of d] by (force simp: alone_ok_def intro: rtranclp_trans)
  show ?case
    using loop.hyps loop.prems one other loop_step_fits [OF loop.hyps(3)]
    by (auto simp: alone_ok_def running_simps dest: starting_update)
next
  case (besides i ls c c' ch co)
  have "\<exists>p. wg p = 0 \<and> conn_steps (open_conn p) (on_channel ch c)"
    using besides.hyps(1,2) besides.prems by (simp add: alone_ok_def running_def)
  then have "\<exists>p. wg p = 0 \<and> conn_steps (open_conn p) (on_channel ch c')"
    using beside_step [OF besides.hyps(3)] by (auto intro: rtranclp.rtrancl_into_rtrancl)
  then show ?case using besides.hyps besides.prems by (auto simp: alone_ok_def running_simps dest: starting_update)
next
  case (taken_off ls rpc ch co)
  have "conn_step (on_channel (rpc # ch) c) (on_channel ch c)" for c
    using conn_step.consume [of "on_channel (rpc # ch) c" rpc ch] by (simp add: on_channel_def conn.defs)
  then show ?case using taken_off by (fastforce simp: alone_ok_def intro: rtranclp.rtrancl_into_rtrancl)
qed (auto simp: alone_ok_def running_simps dest: starting_update)

section \<open>The order of the RPCs of a connection\<close>

text \<open>What has been put on the channel, with the connection that has put it: one sequence in which
  the RPCs of every connection stand in their order.\<close>

definition of_link :: "nat \<Rightarrow> (nat \<times> RPC) list \<Rightarrow> RPC list" where
  "of_link i sent = map snd (filter (\<lambda>x. fst x = i) sent)"

lemma of_link_simps [simp]:
  "of_link i [] = []" "of_link i (xs @ [(j, r)]) = of_link i xs @ (if j = i then [r] else [])"
  by (simp_all add: of_link_def)

definition order_ok :: "traffic \<Rightarrow> bool" where
  "order_ok v \<longleftrightarrow> (case v of (ls, ch, co) \<Rightarrow> \<exists>sent. map snd sent = co @ ch \<and>
     (\<forall>i. (\<forall>c. \<not> running ls i c) \<longrightarrow> of_link i sent = []) \<and> (\<forall>i c. running ls i c \<longrightarrow> of_link i sent = put c))"

lemma beside_put: "beside c c' \<Longrightarrow> put c' = put c"
  by (induction rule: beside.induct) simp_all

lemma new_conn_put [simp]: "put (new_conn p) = []"
  by (simp add: new_conn_def)

lemma order_same:
  assumes "order_ok (ls, ch, co)"
    and "\<And>i c. running ls' i c \<Longrightarrow> (\<exists>d. running ls i d \<and> put d = put c) \<or> (\<forall>d. \<not> running ls i d) \<and> put c = []"
    and "\<And>i. \<forall>c. \<not> running ls' i c \<Longrightarrow> \<forall>c. \<not> running ls i c"
  shows "order_ok (ls', ch, co)"
proof -
  obtain sent where "map snd sent = co @ ch" "\<And>i. \<forall>c. \<not> running ls i c \<Longrightarrow> of_link i sent = []"
    "\<And>i c. running ls i c \<Longrightarrow> of_link i sent = put c" using assms(1) by (auto simp: order_ok_def)
  then show ?thesis
    using assms(2,3) unfolding order_ok_def prod.case by (intro exI [of _ sent]) metis
qed

lemma moves_order: "moves v v' \<Longrightarrow> order_ok v \<Longrightarrow> order_ok v'"
proof (induction rule: moves.induct)
  case (new p ls ch co)
  then show ?case by (rule_tac order_same) (auto simp: running_simps)
next
  case (start i ls p ch co)
  have "\<not> running ls i c" for c using start by (simp add: running_def)
  then show ?case
    using start by (rule_tac order_same [of ls]) (auto simp: running_simps split: if_splits)
next
  case (drop i ls p ch co)
  have "\<not> running ls i c" for c using drop by (simp add: running_def)
  then show ?case
    using drop by (rule_tac order_same [of ls]) (auto simp: running_simps)
next
  case (besides i ls c c' ch co)
  have "running ls i c" using besides by (simp add: running_def)
  then show ?case
    using besides beside_put [OF besides.hyps(3)]
    by (rule_tac order_same [of ls]) (auto simp: running_simps split: if_splits)
next
  case (loop i ls c ch c' co)
  have run: "running ls i c" using loop.hyps by (simp add: running_def)
  note same = running_simps(3) [OF loop.hyps(1), of "conn.truncate c'"]
  from loop_step_channel [OF loop.hyps(3)] show ?case
  proof (elim disjE exE conjE)
    assume eq: "rpcch c' = rpcch (on_channel ch c)" "put c' = put (on_channel ch c)"
    have "order_ok (ls[i := Running (conn.truncate c')], ch, co)"
      by (rule order_same [OF loop.prems]) (use run eq in \<open>auto simp: same split: if_splits\<close>)
    then show ?thesis using eq by simp
  next
    fix rpc assume eq: "rpcch c' = rpcch (on_channel ch c) @ [rpc]" "put c' = put (on_channel ch c) @ [rpc]"
    obtain sent where "map snd sent = co @ ch" "\<And>i. \<forall>c. \<not> running ls i c \<Longrightarrow> of_link i sent = []"
      "\<And>i c. running ls i c \<Longrightarrow> of_link i sent = put c" using loop.prems by (auto simp: order_ok_def)
    then show ?thesis
      using eq run by (auto simp: order_ok_def same intro!: exI [of _ "sent @ [(i, rpc)]"])
  qed
next
  case (taken_off ls rpc ch co)
  then show ?case by (simp add: order_ok_def)
qed simp

end
