(* ===== verification/Transport_Props.thy ===== *)
theory Transport_Props
  imports Transport
begin

text \<open>
  Properties of the transport: a connection behaves as if it were alone, and its messages come
  out in their order, whatever the other connections do.
\<close>

section \<open>Segments that are not empty\<close>

abbreviation nonempty :: "bytes list \<Rightarrow> bytes list" where
  "nonempty \<equiv> filter (\<lambda>s. s \<noteq> [])"

definition pieces :: "stream \<Rightarrow> bytes list" where
  "pieces i = nonempty (segs i)"

lemma read_segs_piece:
  "nonempty ss = s # rest \<Longrightarrow> \<exists>ss'. read_segs k ss = Some (take k s, ss') \<and>
    nonempty ss' = (if drop k s = [] then rest else drop k s # rest)"
  by (induction k ss rule: read_segs.induct) auto

lemma read_piece:
  "pieces i = s # rest \<Longrightarrow> \<exists>j. read k i = (Ret (take k s), j) \<and> fin j = fin i \<and>
    pieces j = (if drop k s = [] then rest else drop k s # rest)"
  using read_segs_piece [of "segs i" s rest k] by (auto simp: pieces_def read_def)

lemma read_no_piece: "pieces i = [] \<Longrightarrow> read k i = ending (i\<lparr>segs := []\<rparr>)"
proof -
  assume "pieces i = []"
  then have "content i = []" unfolding pieces_def by (induction "segs i" arbitrary: i) (auto simp: filter_empty_conv)
  then show ?thesis by (rule read_empty)
qed

lemma read_fin: "read k i = (r, j) \<Longrightarrow> fin j = fin i"
  by (auto simp: read_def ending_def split: option.splits prod.splits stream_end.splits)

text \<open>A read that got nothing has left the pieces.\<close>

lemma read_nothing:
  assumes "read k i = (Ret [], j)"
  shows "pieces j = pieces i \<and> fin j = fin i"
proof (cases "pieces i")
  case Nil
  then show ?thesis using assms read_no_piece [of i k] by (simp add: ending_def split: stream_end.splits)
next
  case (Cons s rest)
  then have "s \<in> set (pieces i)" by simp
  then have "s \<noteq> []" by (simp add: pieces_def)
  then show ?thesis using assms read_piece [OF Cons, of k] Cons by (cases k) auto
qed

lemma pieces_deliver [simp]: "pieces (deliver ss i) = pieces i @ nonempty ss"
  by (simp add: pieces_def deliver_def)

lemma pieces_fin [simp]: "pieces (i\<lparr>fin := en\<rparr>) = pieces i"
  by (simp add: pieces_def)

section \<open>Frames\<close>

definition held :: "'a conn_scheme \<Rightarrow> RPC list" where
  "held c = (case phase c of Holding r \<Rightarrow> [r] | _ \<Rightarrow> [])"

definition rpc_of :: "string \<Rightarrow> bool \<times> bytes \<Rightarrow> RPC" where
  "rpc_of a f = \<lparr>From = a, Payload = snd f, Stream = False\<rparr>"

definition frames_ok :: "(bool \<times> bytes) list \<Rightarrow> bool" where
  "frames_ok fs \<longleftrightarrow> (\<forall>f \<in> set fs. snd f \<noteq> [] \<and> length (snd f) \<le> 2048)"

definition segments :: "(bool \<times> bytes) list \<Rightarrow> bytes list" where
  "segments fs = concat (map frame fs)"

text \<open>What is still to be read, with the first byte that a loop at its second read has read.\<close>

definition unread :: "bool \<Rightarrow> conn_state \<Rightarrow> bytes list" where
  "unread separate c =
     (let ss = pieces (inp (cpeer c)) in
      case phase c of
        Peeked \<Rightarrow> if separate then [IncomingMessage] # ss else (IncomingMessage # hd ss) # tl ss
      | _ \<Rightarrow> ss)"

text \<open>The first \<open>n\<close> frames were put on the channel or are held, the rest of what has arrived is unread.\<close>

definition framed :: "(bool \<times> bytes) list \<Rightarrow> string \<Rightarrow> conn_state \<Rightarrow> nat \<Rightarrow> bool" where
  "framed fs a c n \<longleftrightarrow> n \<le> length fs \<and> put c @ held c = map (rpc_of a) (take n fs) \<and> RemoteAddr (cpeer c) = a \<and>
     phase c \<noteq> InStream \<and> (phase c = Peeked \<longrightarrow> n < length fs \<and> (fst (fs ! n) \<or> pieces (inp (cpeer c)) \<noteq> [])) \<and>
     nonempty (arrived c) = segments (take n fs) @ unread (fst (fs ! n)) c"

lemma segments_split: "n < length fs \<Longrightarrow> segments fs = segments (take n fs) @ frame (fs ! n) @ segments (drop (Suc n) fs)"
  unfolding segments_def by (subst id_take_nth_drop [of n fs]) simp_all

lemma segments_take: "n < length fs \<Longrightarrow> segments (take (Suc n) fs) = segments (take n fs) @ frame (fs ! n)"
  by (simp add: segments_def take_Suc_conv_app_nth)

text \<open>What is unread starts with the next frame.\<close>

lemma unread_prefix:
  assumes "framed fs a c n" and "prefix (nonempty (arrived c)) (segments fs)" and "unread (fst (fs ! n)) c \<noteq> []"
  shows "n < length fs \<and> prefix (unread (fst (fs ! n)) c) (frame (fs ! n) @ segments (drop (Suc n) fs))"
proof -
  have "n < length fs"
  proof (rule ccontr)
    assume "\<not> n < length fs"
    then have "take n fs = fs" by simp
    then show False using assms by (simp add: framed_def prefix_def)
  qed
  then show ?thesis using assms(1,2) segments_split [of n fs] by (simp add: framed_def)
qed

lemma framed_loop:
  assumes "loop_step c c'" and f: "framed fs a c n" and "frames_ok fs" and pre: "prefix (nonempty (arrived c)) (segments fs)"
    and op: "fin (inp (cpeer c)) = Open"
  shows "\<exists>n'. framed fs a c' n'"
proof -
  have "\<exists>s rest. pieces (inp (cpeer c)) = s # rest" if "read k (inp (cpeer c)) = (r, i)" "r \<noteq> Hang" for k r i
    using that op read_no_piece [of "inp (cpeer c)" k] by (cases "pieces (inp (cpeer c))") (auto simp: ending_def)
  note piece = this
  have ok: "snd (fs ! n) \<noteq> []" "length (snd (fs ! n)) \<le> 2048" if "n < length fs"
    using assms(3) that by (simp_all add: frames_ok_def)
  from assms(1) show ?thesis
  proof cases
    case (peek_stream i)
    obtain s rest where s: "pieces (inp (cpeer c)) = s # rest" using piece [OF peek_stream(3)] by blast
    then have "hd s = IncomingStream"
      using read_piece [OF s, of 1] peek_stream(3) by (cases s) auto
    then show ?thesis
      using unread_prefix [OF f pre] s peek_stream(2) by (auto simp: unread_def frame_def split: if_splits)
  next
    case (peek t i)
    obtain s rest where s: "pieces (inp (cpeer c)) = s # rest" using piece [OF peek(3)] by blast
    have i: "pieces i = (if drop 1 s = [] then rest else drop 1 s # rest)" using read_piece [OF s, of 1] peek(3) by auto
    have n: "n < length fs" "prefix (s # rest) (frame (fs ! n) @ segments (drop (Suc n) fs))"
      using unread_prefix [OF f pre] s peek(2) by (simp_all add: unread_def)
    then have s': "s = (if fst (fs ! n) then [IncomingMessage] else IncomingMessage # snd (fs ! n))"
      by (auto simp: frame_def split: if_splits)
    have "framed fs a c' n"
      using f n(1) peek(1,2) s s' i ok(1) [OF n(1)] by (auto simp: framed_def unread_def held_def)
    then show ?thesis by blast
  next
    case (peek_fails e i)
    then show ?thesis using piece [OF peek_fails(3)] read_piece [of "inp (cpeer c)" _ _ 1] by fastforce
  next
    case (payload buf i)
    obtain s rest where s: "pieces (inp (cpeer c)) = s # rest" using piece [OF payload(3)] by blast
    have n: "n < length fs" using f payload(2) by (simp add: framed_def)
    have "prefix (unread (fst (fs ! n)) c) (frame (fs ! n) @ segments (drop (Suc n) fs))"
      using unread_prefix [OF f pre] s payload(2) by (simp add: unread_def Let_def)
    then have s': "s = snd (fs ! n)" using s payload(2) by (auto simp: unread_def frame_def split: if_splits)
    then have i: "buf = s" "pieces i = rest" using read_piece [OF s, of 2048] payload(3) ok(2) [OF n] by auto
    have "nonempty (arrived c) = segments (take (Suc n) fs) @ rest"
      using f s s' payload(2) segments_take [OF n] by (simp add: framed_def unread_def frame_def)
    moreover have "put c @ [rpc_of a (fs ! n)] = map (rpc_of a) (take (Suc n) fs)"
      using f n payload(2) by (simp add: framed_def held_def take_Suc_conv_app_nth)
    ultimately have "framed fs a c' (Suc n)"
      using f n payload(1) i s' by (simp add: framed_def unread_def held_def rpc_of_def zero_RPC_def)
    then show ?thesis by blast
  next
    case (payload_fails e i)
    then show ?thesis using piece [OF payload_fails(3)] read_piece [of "inp (cpeer c)" _ _ 2048] by fastforce
  next
    case (puts rpc)
    then show ?thesis using f by (intro exI [of _ n]) (simp add: framed_def held_def unread_def)
  next
    case resume
    then show ?thesis using f by (simp add: framed_def)
  qed
qed

lemma framed_step:
  assumes "conn_step c c'" and f: "framed fs a c n" and "frames_ok fs" and pre: "prefix (nonempty (arrived c')) (segments fs)"
    and op: "fin (inp (cpeer c')) = Open" and taken: "taken c' = []"
  shows "\<exists>n'. framed fs a c' n'"
  using assms(1)
proof cases
  case loops
  have "arrived c' = arrived c \<and> fin (inp (cpeer c')) = fin (inp (cpeer c))"
    using loops read_fin by (induction rule: loop_step.induct) auto
  then show ?thesis using framed_loop [OF loops f assms(3)] pre op by simp
next
  case (handler_read k bs p)
  then obtain i where "read k (inp (cpeer c)) = (Ret [], i)" "p = (cpeer c)\<lparr>inp := i\<rparr>"
    using taken by (auto simp: conn_read_def split: prod.splits)
  then show ?thesis
    using f handler_read(1) read_nothing by (intro exI [of _ n]) (auto simp: framed_def held_def unread_def)
next
  case (handler_close p)
  then have "p = (cpeer c)\<lparr>wg := wg (cpeer c) - 1\<rparr>" by (auto simp: CloseStream_def split: if_splits)
  then show ?thesis
    using f handler_close(1) by (intro exI [of _ n]) (auto simp: framed_def held_def unread_def)
next
  case (arrive bs)
  then show ?thesis
    using f by (intro exI [of _ n]) (cases "phase c"; auto simp: framed_def held_def unread_def Let_def)
qed (use f in \<open>auto simp: framed_def held_def unread_def intro!: exI [of _ n]\<close>)

lemma prefix_arrived: "conn_step c c' \<Longrightarrow> prefix (nonempty (arrived c)) (nonempty (arrived c'))"
proof (induction rule: conn_step.induct)
  case (loops c c')
  then show ?case by (induction rule: loop_step.induct) simp_all
qed simp_all

lemma taken_kept: "conn_step c c' \<Longrightarrow> taken c' = [] \<Longrightarrow> taken c = []"
proof (induction rule: conn_step.induct)
  case (loops c c')
  then show ?case by (induction rule: loop_step.induct) simp_all
qed simp_all

lemma open_kept: "conn_step c c' \<Longrightarrow> fin (inp (cpeer c')) = Open \<Longrightarrow> fin (inp (cpeer c)) = Open"
proof (induction rule: conn_step.induct)
  case (loops c c')
  then show ?case using read_fin by (induction rule: loop_step.induct) auto
qed (use read_fin in \<open>auto simp: conn_read_def CloseStream_def split: prod.splits if_splits\<close>)

lemma frames_safe:
  assumes "conn_steps (open_conn p) c" and "frames_ok fs" and "prefix (nonempty (arrived c)) (segments fs)"
    and "fin (inp (cpeer c)) = Open" and "taken c = []"
  shows "\<exists>n. framed fs (RemoteAddr p) c n"
  using assms(1,3-5)
proof (induction rule: rtranclp_induct)
  case base
  have "framed fs (RemoteAddr p) (open_conn p) 0"
    by (simp add: framed_def held_def unread_def pieces_def segments_def)
  then show ?case by blast
next
  case (step c c')
  have "prefix (nonempty (arrived c)) (segments fs)"
    using prefix_arrived [OF step.hyps(2)] step.prems(1) by (rule prefix_order.order_trans)
  then obtain n where "framed fs (RemoteAddr p) c n"
    using step.IH open_kept [OF step.hyps(2)] taken_kept [OF step.hyps(2)] step.prems by blast
  then show ?case using framed_step [OF step.hyps(2) _ assms(2)] step.prems by blast
qed

section \<open>Properties\<close>

lemma new_traffic: "alone_ok (traffic_of (NewTCPTransport opts))" "order_ok (traffic_of (NewTCPTransport opts))"
  by (simp_all add: NewTCPTransport_def TCPTransportOptions.defs alone_ok_def order_ok_def running_def of_link_def)

lemma moves_ok: "moves\<^sup>*\<^sup>* v v' \<Longrightarrow> alone_ok v \<and> order_ok v \<Longrightarrow> alone_ok v' \<and> order_ok v'"
  by (induction rule: rtranclp_induct) (auto intro: moves_alone moves_order)

lemma run_ok:
  assumes "transport_run (NewTCPTransport opts) t"
  shows "alone_ok (traffic_of t)" and "order_ok (traffic_of t)"
  using moves_ok [OF transport_run_moves [OF assms]] new_traffic by simp_all

text \<open>The transport refines single connections. In every run, whatever dialling, accepting, closing,
  reading and consuming happens in whatever order, the channel holds at most 1024 RPCs, and every
  connection that runs is in a state that the read loop of a connection can reach by itself, when the others
  are seen as somebody who puts RPCs on the channel.\<close>

theorem connections_refine:
  assumes "transport_run (NewTCPTransport opts) t"
  shows "length (channel t) \<le> rpcch_cap \<and>
    (\<forall>i c. i < length (links t) \<and> links t ! i = Running c \<longrightarrow>
      (\<exists>p. wg p = 0 \<and> conn_steps (open_conn p) (on_channel (channel t) c)))"
  using run_ok(1) [OF assms] by (simp add: alone_ok_def running_def)

text \<open>C23: the messages of a connection come out in order. When what has arrived on a connection are messages of at
  most 2048 bytes, each in its own one or two segments, the last one perhaps in part, and no handler has read from
  it, then what the server has consumed and what is on the channel is an interleaving of the RPCs of the
  connections in which those of this connection, with the one its loop may hold, are its first messages, none lost,
  none twice, in their order.\<close>

theorem connection_order:
  assumes "transport_run (NewTCPTransport opts) t" and "i < length (links t)" and "links t ! i = Running c"
    and "frames_ok fs" and "prefix (nonempty (arrived c)) (segments fs)" and "taken c = []" and "fin (inp (cpeer c)) = Open"
  shows "\<exists>sent n. map snd sent = consumed t @ channel t \<and>
    of_link i sent @ held c = map (rpc_of (RemoteAddr (cpeer c))) (take n fs)"
proof -
  have run: "running (links t) i c" using assms(2,3) by (simp add: running_def)
  obtain p where "conn_steps (open_conn p) (on_channel (channel t) c)"
    using run_ok(1) [OF assms(1)] run unfolding alone_ok_def prod.case by blast
  from frames_safe [OF this assms(4)] assms(5-7) obtain n where "framed fs (RemoteAddr p) (on_channel (channel t) c) n" by auto
  then have "put c @ held c = map (rpc_of (RemoteAddr (cpeer c))) (take n fs)" by (simp add: framed_def held_def)
  moreover obtain sent where "map snd sent = consumed t @ channel t" "of_link i sent = put c"
    using run_ok(2) [OF assms(1)] run by (auto simp: order_ok_def)
  ultimately show ?thesis by (intro exI [of _ sent] exI [of _ n]) simp
qed

section \<open>An example\<close>

lemma loops_run:
  assumes "loop_step\<^sup>*\<^sup>* (on_channel (channel t) c) c'" and "\<not> crashed t" and "i < length (links t)" and "links t ! i = Running c"
  shows "transport_run t ((set_link i (Running (conn.truncate c')) t)\<lparr>channel := rpcch c'\<rparr>)"
  using assms(1)
proof (induction rule: rtranclp_induct)
  case base
  have "(links t)[i := Running c] = links t" using assms(4) list_update_id [of "links t" i] by simp
  then show ?case by (simp add: set_link_def)
next
  case (step c1 c2)
  let ?t = "(set_link i (Running (conn.truncate c1)) t)\<lparr>channel := rpcch c1\<rparr>"
  have "transport_step ?t ((set_link i (Running (conn.truncate c2)) ?t)\<lparr>channel := rpcch c2\<rparr>)"
    by (rule transport_step.loops [where c = "conn.truncate c1"]) (use assms(2,3) step.hyps(2) in \<open>simp_all add: set_link_def\<close>)
  also have "(set_link i (Running (conn.truncate c2)) ?t)\<lparr>channel := rpcch c2\<rparr> =
      (set_link i (Running (conn.truncate c2)) t)\<lparr>channel := rpcch c2\<rparr>"
    by (simp add: set_link_def)
  finally show ?case using step.IH by (rule rtranclp.rtrancl_into_rtrancl [rotated])
qed

definition demo_options :: TCPTransportOptions where
  "demo_options = \<lparr>ListenAddress = ''127.0.0.1:3000'', HandShakeFunc = NOTHandShakeFunc, OnPeerFunc = Some (\<lambda>p. Ret ())\<rparr>"

text \<open>A connection is accepted and a message in two segments is read, put on the channel and consumed.\<close>

definition demo_conn :: conn where
  "demo_conn = new_conn (NewTCPPeer ''l'' ''r'' \<lparr>segs = [[1], [7, 8], [1]], fin = Open\<rparr> False)"

definition demo_transport :: transport where
  "demo_transport = (NewTCPTransport demo_options)\<lparr>listener := Listening, acceptors := 1, links := [Running demo_conn],
     registered := [cpeer demo_conn]\<rparr>"

lemma demo_transport_run: "transport_run (NewTCPTransport demo_options) demo_transport"
proof -
  let ?p = "NewTCPPeer ''l'' ''r'' \<lparr>segs = [[1], [7, 8], [1]], fin = Open\<rparr> False"
  let ?t1 = "snd (ListenAndAccept None (NewTCPTransport demo_options))"
  let ?t2 = "handleConn (''l'', ''r'', \<lparr>segs = [[1], [7, 8], [1]], fin = Open\<rparr>) False ?t1"
  have s1: "transport_step (NewTCPTransport demo_options) ?t1"
    by (rule transport_step.listens) (simp add: NewTCPTransport_def TCPTransportOptions.defs)
  have s2: "transport_step ?t1 ?t2"
    by (rule transport_step.accepts) (simp_all add: NewTCPTransport_def TCPTransportOptions.defs ListenAndAccept_def)
  have "start_conn ?p ?t2 = (Ret (), ?t2\<lparr>registered := [?p]\<rparr>)"
    by (simp add: start_conn_def NewTCPTransport_def TCPTransportOptions.defs ListenAndAccept_def demo_options_def NOTHandShakeFunc_def)
  then have "transport_step ?t2 (set_link 0 (Running (new_conn ?p)) (?t2\<lparr>registered := [?p]\<rparr>))"
    by (intro transport_step.starts) (simp_all add: NewTCPTransport_def TCPTransportOptions.defs ListenAndAccept_def)
  moreover have "set_link 0 (Running (new_conn ?p)) (?t2\<lparr>registered := [?p]\<rparr>) = demo_transport"
    by (simp add: demo_transport_def set_link_def demo_conn_def NewTCPTransport_def TCPTransportOptions.defs ListenAndAccept_def)
      (simp add: new_conn_def conn.defs)
  ultimately have s3: "transport_step ?t2 demo_transport" by (simp only:)
  show ?thesis
    by (rule rtranclp.rtrancl_into_rtrancl [OF rtranclp.rtrancl_into_rtrancl [OF r_into_rtranclp [of transport_step, OF s1] s2] s3])
qed

text \<open>The loop reads the message and puts it on the channel, and the server consumes it.\<close>

lemma demo_delivers:
  "\<exists>t c. transport_run (NewTCPTransport demo_options) t \<and> links t = [Running c] \<and> taken c = [] \<and> arrived c = [[1], [7, 8], [1]] \<and>
    fin (inp (cpeer c)) = Open \<and> consumed t = [rpc_of ''r'' (True, [7, 8])] \<and> channel t = [] \<and> RemoteAddr (cpeer c) = ''r'' \<and> held c = []"
proof -
  let ?c = "on_channel [] demo_conn" and ?r = "rpc_of ''r'' (True, [7, 8])"
  let ?i1 = "\<lparr>segs = [[], [7, 8], [1]], fin = Open\<rparr>" and ?i2 = "\<lparr>segs = [[], [1]], fin = Open\<rparr>"
  let ?c1 = "(set_inp ?i1 ?c)\<lparr>phase := Peeked\<rparr>"
  let ?c2 = "(set_inp ?i2 ?c1)\<lparr>phase := Holding ?r\<rparr>"
  let ?c3 = "?c2\<lparr>phase := Reading, put := [?r], rpcch := [?r]\<rparr>"
  have c: "cpeer demo_conn = NewTCPPeer ''l'' ''r'' \<lparr>segs = [[1], [7, 8], [1]], fin = Open\<rparr> False" "phase demo_conn = Reading"
    "put demo_conn = []" "taken demo_conn = []" "arrived demo_conn = [[1], [7, 8], [1]]"
    by (simp_all add: demo_conn_def) (simp_all add: new_conn_def NewTCPPeer_def)
  have l1: "loop_step ?c ?c1"
    by (rule loop_step.peek [where t = 1]) (simp_all add: c NewTCPPeer_def stream_simps IncomingStream_def)
  have l2: "loop_step ?c1 ?c2"
    using loop_step.payload [of ?c1 "[7, 8]" ?i2] by (simp add: c NewTCPPeer_def stream_simps rpc_of_def zero_RPC_def)
  have l3: "loop_step ?c2 ?c3"
    using loop_step.puts [of ?c2 ?r] by (simp add: c rpcch_cap_def)
  let ?t = "(set_link 0 (Running (conn.truncate ?c3)) demo_transport)\<lparr>channel := [?r]\<rparr>"
  have t: "channel demo_transport = []" "links demo_transport = [Running demo_conn]" "\<not> crashed demo_transport"
    "consumed demo_transport = []"
    by (simp_all add: demo_transport_def NewTCPTransport_def TCPTransportOptions.defs)
  have "loop_step\<^sup>*\<^sup>* ?c ?c3" using l1 l2 l3 by (meson rtranclp.rtrancl_into_rtrancl rtranclp.rtrancl_refl)
  then have "transport_run demo_transport ?t"
    using loops_run [of demo_transport demo_conn ?c3 0] t by simp
  moreover have "transport_step ?t (?t\<lparr>channel := [], consumed := [?r]\<rparr>)"
    using transport_step.consumes [of ?t ?r "[]"] t by (simp add: Consume_def set_link_def)
  ultimately have "transport_run (NewTCPTransport demo_options) (?t\<lparr>channel := [], consumed := [?r]\<rparr>)"
    using demo_transport_run by (meson rtranclp.rtrancl_into_rtrancl rtranclp_trans)
  moreover have "links (?t\<lparr>channel := [], consumed := [?r]\<rparr>) = [Running (conn.truncate ?c3)]" using t by simp
  ultimately show ?thesis
    by (intro exI [of _ "?t\<lparr>channel := [], consumed := [?r]\<rparr>"] exI [of _ "conn.truncate ?c3"])
      (simp add: c held_def NewTCPPeer_def)
qed

theorem connections_refine_witness:
  "\<exists>t c p. transport_run (NewTCPTransport demo_options) t \<and> links t = [Running c] \<and> length (consumed t) = 1 \<and>
    conn_steps (open_conn p) (on_channel (channel t) c)"
proof -
  obtain t c where t: "transport_run (NewTCPTransport demo_options) t" "links t = [Running c]"
    "consumed t = [rpc_of ''r'' (True, [7, 8])]" using demo_delivers by blast
  have "0 < length (links t) \<and> links t ! 0 = Running c" using t(2) by simp
  with connections_refine [OF t(1)] obtain p where "conn_steps (open_conn p) (on_channel (channel t) c)" by blast
  then show ?thesis using t by (intro exI [of _ t] exI [of _ c] exI [of _ p]) simp
qed

theorem connection_order_witness:
  "\<exists>t c sent n. transport_run (NewTCPTransport demo_options) t \<and> links t = [Running c] \<and>
    map snd sent = [rpc_of ''r'' (True, [7, 8])] \<and> of_link 0 sent = map (rpc_of ''r'') (take n [(True, [7, 8]), (True, [9])])"
proof -
  obtain t c where t: "transport_run (NewTCPTransport demo_options) t" "links t = [Running c]" "taken c = []"
    "arrived c = [[1], [7, 8], [1]]" "fin (inp (cpeer c)) = Open" "consumed t = [rpc_of ''r'' (True, [7, 8])]" "channel t = []"
    "RemoteAddr (cpeer c) = ''r''" "held c = []" using demo_delivers by blast
  have l: "0 < length (links t)" "links t ! 0 = Running c" using t(2) by simp_all
  have f: "frames_ok [(True, [7, 8]), (True, [9])]" by (simp add: frames_ok_def)
  have "prefix (nonempty (arrived c)) (segments [(True, [7, 8]), (True, [9])])"
    by (simp add: t(4) segments_def frame_def IncomingMessage_def)
  from connection_order [OF t(1) l f this t(3,5)] obtain sent n where
    "map snd sent = consumed t @ channel t" "of_link 0 sent @ held c = map (rpc_of (RemoteAddr (cpeer c))) (take n [(True, [7, 8]), (True, [9])])"
    by blast
  then show ?thesis using t by (intro exI [of _ t] exI [of _ c] exI [of _ sent] exI [of _ n]) simp
qed

end
