(* ===== verification/Node_Files.thy ===== *)
theory Node_Files
  imports Confined
begin

text \<open>
  The goroutines of one Chord node that have to do with files, beside those of the ring
  (\<open>Goroutines\<close>): the handlers of file messages in the message loop, the operations a user starts
  over HTTP, and the transfers a notification starts, any number of each. The set of files a
  node is responsible for changes under the write lock of the node, which all of them wait for
  after they have written to the disk or to a connection.

  An operation of a user looks up its node in one step, with whatever replies it gets, and only the
  message loop, when it waits for the lock, keeps readers back.
\<close>

section \<open>State\<close>

text \<open>
  A transfer (\<open>transferResponsibilities\<close>): the address of the predecessor it started with, the
  files it still has to send, and the file it has sent and waits to give up.
\<close>

record transfer =
  target :: string
  cids :: "string list"
  giving :: "string option"

text \<open>What an operation of a user waits to do under the lock.\<close>

datatype job = Keeping string | Deleting string

record fsystem =
  sys :: system
  moving :: "transfer list"
  jobs :: "job list"

definition files_boot :: "server \<Rightarrow> fsystem" where
  "files_boot s = \<lparr>sys = boot s, moving = [], jobs = []\<rparr>"

text \<open>The server of the node, and a state with another one.\<close>

abbreviation server_of :: "fsystem \<Rightarrow> server" where
  "server_of st \<equiv> srv (sys st)"

definition with_server :: "server \<Rightarrow> fsystem \<Rightarrow> fsystem" where
  "with_server s st = st\<lparr>sys := (sys st)\<lparr>srv := s\<rparr>\<rparr>"

text \<open>The loop takes the next message.\<close>

definition loop_on :: "loop_state \<Rightarrow> server \<Rightarrow> fsystem \<Rightarrow> fsystem" where
  "loop_on l s st = st\<lparr>sys := (sys st)\<lparr>srv := s, loop_at := l, inbox := tl (inbox (sys st))\<rparr>\<rparr>"

lemma with_server_simps [simp]:
  "sys (with_server s st) = (sys st)\<lparr>srv := s\<rparr>" "moving (with_server s st) = moving st" "jobs (with_server s st) = jobs st"
  by (simp_all add: with_server_def)

lemma loop_on_simps [simp]:
  "sys (loop_on l s st) = (sys st)\<lparr>srv := s, loop_at := l, inbox := tl (inbox (sys st))\<rparr>"
  "moving (loop_on l s st) = moving st" "jobs (loop_on l s st) = jobs st"
  by (simp_all add: loop_on_def)

section \<open>Steps\<close>

text \<open>What happens in a step, as far as it matters for the files.\<close>

datatype file_event =
    Internal
  | Arrived "string \<times> payload option"
  | Placed string bool
  | Kept string
  | Dropped string
  | Sent string string "bytes list"
  | Given string string

text \<open>The messages whose handlers take the lock to change the files of the node.\<close>

fun changes_files :: "payload \<Rightarrow> bool" where
  "changes_files (MessageStoreChordFile cid key a t) = True"
| "changes_files (MessageDeleteChordFile cid a) = True"
| "changes_files m = False"

definition returns :: "'a res \<Rightarrow> bool" where
  "returns r \<longleftrightarrow> (\<exists>x. r = Ret x) \<or> (\<exists>er. r = Fail er)"

text \<open>
  The steps. A step of the ring; a message comes in; the input of a connection changes.
  The handlers: a file is stored and then registered, deleted under the lock, or another
  file message is handled. A user stores, deletes or fetches a file; lookups get any replies.
  A transfer starts, sends a file or fails to, gives a sent file up, and ends.
\<close>

inductive file_step :: "env \<Rightarrow> fsystem \<Rightarrow> file_event \<Rightarrow> fsystem \<Rightarrow> bool" for e where
  ring: "sys_step e (sys st) t \<Longrightarrow> file_step e st Internal (st\<lparr>sys := t\<rparr>)"
| arrives: "file_step e st (Arrived x) (st\<lparr>sys := receive x (sys st)\<rparr>)"
| input: "\<lbrakk>map_of (peers (server_of st)) a = Some p; outp q = outp p\<rbrakk> \<Longrightarrow>
    file_step e st Internal (with_server ((server_of st)\<lparr>peers := AList.update a q (peers (server_of st))\<rparr>) st)"
| handled: "\<lbrakk>loop_at (sys st) = Receiving; inbox (sys st) = (a, Some m) # rest; \<not> maintenance m;
      changes_files m \<longrightarrow> chord (server_of st) = None;
      handleMessage e a (Some m) (server_of st) = (r, s); returns r\<rbrakk> \<Longrightarrow>
    file_step e st Internal (loop_on Receiving s st)"
| takes: "\<lbrakk>loop_at (sys st) = Receiving; inbox (sys st) = (a, Some (MessageStoreChordFile cid key b t)) # rest;
      chord (server_of st) = Some n; take_chord_file e a cid key (server_of st) = (Ret (), s)\<rbrakk> \<Longrightarrow>
    file_step e st (Placed cid True) (loop_on (Filing a (MessageStoreChordFile cid key b t)) s st)"
| take_fails: "\<lbrakk>loop_at (sys st) = Receiving; inbox (sys st) = (a, Some (MessageStoreChordFile cid key b t)) # rest;
      chord (server_of st) = Some n; take_chord_file e a cid key (server_of st) = (Fail er, s)\<rbrakk> \<Longrightarrow>
    file_step e st Internal (loop_on Receiving s st)"
| keeps: "\<lbrakk>loop_at (sys st) = Filing a (MessageStoreChordFile cid key b t); lookups (sys st) = []\<rbrakk> \<Longrightarrow>
    file_step e st (Kept cid)
      (st\<lparr>sys := (sys st)\<lparr>srv := take_responsible cid (server_of st), loop_at := Receiving\<rparr>\<rparr>)"
| delete_waits: "\<lbrakk>loop_at (sys st) = Receiving; inbox (sys st) = (a, Some (MessageDeleteChordFile cid b)) # rest;
      chord (server_of st) = Some n\<rbrakk> \<Longrightarrow>
    file_step e st Internal (loop_on (Filing a (MessageDeleteChordFile cid b)) (server_of st) st)"
| deletes: "\<lbrakk>loop_at (sys st) = Filing a (MessageDeleteChordFile cid b); lookups (sys st) = [];
      Remove e cid (drop_responsible cid (server_of st)) = (r, s); returns r\<rbrakk> \<Longrightarrow>
    file_step e st (Dropped cid) (st\<lparr>sys := (sys st)\<lparr>srv := s, loop_at := Receiving\<rparr>\<rparr>)"
| user_places: "\<lbrakk>loop_at (sys st) = Receiving; place_file e replies key r (server_of st) = (Ret (cid, own), s)\<rbrakk> \<Longrightarrow>
    file_step e st (Placed cid own) ((with_server s st)\<lparr>jobs := (if own then [Keeping cid] else []) @ jobs st\<rparr>)"
| user_place_fails: "\<lbrakk>loop_at (sys st) = Receiving; place_file e replies key r (server_of st) = (Fail er, s)\<rbrakk> \<Longrightarrow>
    file_step e st Internal (with_server s st)"
| user_keeps: "\<lbrakk>Keeping cid \<in> set (jobs st); lookups (sys st) = []\<rbrakk> \<Longrightarrow>
    file_step e st (Kept cid)
      ((with_server (take_responsible cid (server_of st)) st)\<lparr>jobs := remove1 (Keeping cid) (jobs st)\<rparr>)"
| user_routes: "\<lbrakk>loop_at (sys st) = Receiving; route_delete e replies cid (server_of st) = (Ret own, s)\<rbrakk> \<Longrightarrow>
    file_step e st Internal ((with_server s st)\<lparr>jobs := (if own then [Deleting cid] else []) @ jobs st\<rparr>)"
| user_route_fails: "\<lbrakk>loop_at (sys st) = Receiving; route_delete e replies cid (server_of st) = (Fail er, s)\<rbrakk> \<Longrightarrow>
    file_step e st Internal (with_server s st)"
| user_deletes: "\<lbrakk>Deleting cid \<in> set (jobs st); lookups (sys st) = [];
      Remove e cid (drop_responsible cid (server_of st)) = (r, s); returns r\<rbrakk> \<Longrightarrow>
    file_step e st (Dropped cid) ((with_server s st)\<lparr>jobs := remove1 (Deleting cid) (jobs st)\<rparr>)"
| user_fetches: "\<lbrakk>GetChord e replies cid (server_of st) = (r, s); returns r\<rbrakk> \<Longrightarrow>
    file_step e st Internal (with_server s st)"
| transfer_starts: "\<lbrakk>loop_at (sys st) = Receiving; chord (server_of st) = Some n; transfers (server_of st) = Suc k\<rbrakk> \<Longrightarrow>
    file_step e st Internal ((with_server ((server_of st)\<lparr>transfers := k\<rparr>) st)\<lparr>moving :=
      (case predecessor n of None \<Rightarrow> []
       | Some p \<Rightarrow> [\<lparr>target = naddr p, cids = files_to_transfer n, giving = None\<rparr>]) @ moving st\<rparr>)"
| transfer_sends: "\<lbrakk>t \<in> set (moving st); giving t = None; cids t = cid # rest; chord (server_of st) = Some n;
      transfer_send e (naddr (self n)) (target t) cid (server_of st) = (Ret (), s);
      map_of (peers s) (target t) = Some p\<rbrakk> \<Longrightarrow>
    file_step e st (Sent (target t) cid (outp p))
      ((with_server s st)\<lparr>moving := t\<lparr>cids := rest, giving := Some cid\<rparr> # remove1 t (moving st)\<rparr>)"
| transfer_skips: "\<lbrakk>t \<in> set (moving st); giving t = None; cids t = cid # rest; chord (server_of st) = Some n;
      transfer_send e (naddr (self n)) (target t) cid (server_of st) = (Fail er, s)\<rbrakk> \<Longrightarrow>
    file_step e st Internal ((with_server s st)\<lparr>moving := t\<lparr>cids := rest\<rparr> # remove1 t (moving st)\<rparr>)"
| transfer_gives: "\<lbrakk>t \<in> set (moving st); giving t = Some cid; lookups (sys st) = []\<rbrakk> \<Longrightarrow>
    file_step e st (Given (target t) cid) ((with_server (drop_responsible cid (server_of st)) st)\<lparr>moving :=
      t\<lparr>giving := None\<rparr> # remove1 t (moving st)\<rparr>)"
| transfer_ends: "\<lbrakk>t \<in> set (moving st); giving t = None; cids t = []\<rbrakk> \<Longrightarrow>
    file_step e st Internal (st\<lparr>moving := remove1 t (moving st)\<rparr>)"

inductive file_run :: "env \<Rightarrow> fsystem \<Rightarrow> file_event list \<Rightarrow> fsystem \<Rightarrow> bool" for e st where
  idle: "file_run e st [] st"
| steps: "file_run e st evs st' \<Longrightarrow> file_step e st' ev st'' \<Longrightarrow> file_run e st (evs @ [ev]) st''"

end
