(* ===== verification/Node_Files_Laws.thy ===== *)
theory Node_Files_Laws
  imports Node_Files
begin

text \<open>
  Laws of the goroutines of a node with its files: what each step does to the node, to the
  references it holds and to the set of files it is responsible for.
\<close>

section \<open>What the operations do to the node\<close>

interpretation known: outer "trusted (\<lambda>_. True) R me" for R me
  by unfold_locales (simp_all add: trusted_def)

lemma trusted_responsible [simp]:
  "trusted (\<lambda>_. True) R me (take_responsible cid s) = trusted (\<lambda>_. True) R me s"
  "trusted (\<lambda>_. True) R me (drop_responsible cid s) = trusted (\<lambda>_. True) R me s"
  by (auto simp: trusted_def node_in_def node_refs_def take_responsible_def drop_responsible_def)

text \<open>A lookup that returns leaves no request behind, whatever its replies were.\<close>

lemma pending_request [simp]: "pending (snd (request_successor e q a k s)) = pending s"
  by (rule pending_kept.request_successor) simp_all

lemma pending_requestD: "request_successor e q a k s = (d, t) \<Longrightarrow> pending t = pending s"
  using pending_request [of e q a k s] by (simp del: pending_request)

lemma set_delete: "set (AList.delete q ps) = {x \<in> set ps. fst x \<noteq> q}"
  by (auto simp: AList.delete_eq)

lemma deferring_pending:
  assumes "returns (fst (deferring (forget_request q) m))"
    and "returns (fst m) \<Longrightarrow> set (pending (snd m)) \<subseteq> insert (q, x) ps"
  shows "set (pending (snd (deferring (forget_request q) m))) \<subseteq> ps"
  using assms by (cases m) (auto simp: deferring_def forget_request_def set_delete returns_def split: res.splits)

lemma remote_pending:
  "returns (fst (findSuccessorRemote e rs a k s)) \<Longrightarrow> set (pending (snd (findSuccessorRemote e rs a k s))) \<subseteq> set (pending s)"
proof (induction rs arbitrary: s)
  case Nil
  obtain d t where t: "request_successor e (request_id e a s) a k
      (register_request (request_id e a s) (s\<lparr>drawn := drawn s + 1\<rparr>)) = (d, t)" by fastforce
  have "pending t = AList.update (request_id e a s) None (pending s)"
    using pending_requestD [OF t] by (simp add: register_request_def)
  then have "set (pending t) \<subseteq> insert (request_id e a s, None) (set (pending s))" using set_update_subset by metis
  with Nil t show ?case
    unfolding findSuccessorRemote.simps
    by (elim deferring_pending) (auto simp: andthen_def split: res.split)
next
  case (Cons reply rs)
  let ?q = "request_id e a s"
  obtain d t where t: "request_successor e ?q a k (register_request ?q (s\<lparr>drawn := drawn s + 1\<rparr>)) = (d, t)" by fastforce
  have pt: "pending t = AList.update ?q None (pending s)"
    using pending_requestD [OF t] by (simp add: register_request_def)
  define u where "u = (case reply of Some r \<Rightarrow> signal_request ?q r t | None \<Rightarrow> t)"
  have "\<exists>x. pending u = AList.update ?q x (pending s)"
    using pt by (cases reply) (auto simp: u_def signal_request_def update_conv')
  then obtain x where x: "set (pending u) \<subseteq> insert (?q, x) (set (pending s))" using set_update_subset by metis
  show ?case
  proof (cases d)
    case (Ret b)
    define body where "body = (case map_of (pending u) ?q of Some (Some r) \<Rightarrow> (Ret r, u)
      | _ \<Rightarrow> if b then findSuccessorRemote e rs a k u
             else (Fail (Errorf ''timeout waiting for FindSuccessor response'' []), u))"
    have "findSuccessorRemote e (reply # rs) a k s = deferring (forget_request ?q) body"
      unfolding findSuccessorRemote.simps t Ret andthen_Ret Let_def body_def u_def by (rule refl)
    moreover have "set (pending (snd body)) \<subseteq> insert (?q, x) (set (pending s))" if "returns (fst body)"
      using that x Cons.IH [of u] by (auto simp: body_def split: option.splits if_splits)
    ultimately show ?thesis using Cons.prems deferring_pending by metis
  next
    case (Fail er)
    have "set (pending t) \<subseteq> insert (?q, None) (set (pending s))" using pt set_update_subset by metis
    with Cons.prems t Fail show ?thesis
      unfolding findSuccessorRemote.simps by (elim deferring_pending) simp
  qed (use Cons.prems t in \<open>simp_all add: deferring_def returns_def\<close>)
qed

lemma find_trusted:
  assumes "trusted (\<lambda>_. True) R me s" and "returns (fst (FindSuccessor e rs k s))"
  shows "trusted (\<lambda>_. True) R me (snd (FindSuccessor e rs k s))"
proof -
  have "set (pending (snd (FindSuccessor e rs k s))) \<subseteq> set (pending s)"
    using assms(2) remote_pending [of e rs _ k s]
    by (auto simp: FindSuccessor_def with_node_def simp del: findSuccessorRemote.simps split: option.splits decision.splits)
  then show ?thesis using assms(1) by (auto simp: trusted_def frame)
qed

text \<open>Calls that return, in sequence.\<close>

lemma returns_andthen:
  assumes "returns (fst (andthen m k))" and "returns (fst m) \<Longrightarrow> P (snd m)"
    and "\<And>x t. P t \<Longrightarrow> returns (fst (k x t)) \<Longrightarrow> P (snd (k x t))"
  shows "P (snd (andthen m k))"
  using assms by (cases m) (auto simp: andthen_def returns_def split: res.splits)

lemma returns_simps [simp]: "returns (Ret x)" "returns (Fail er)" "\<not> returns Hang" "\<not> returns (Panic msg)"
  by (simp_all add: returns_def)

lemma returns_wrapping [simp]: "returns (fst (wrapping msg m)) = returns (fst m)"
  by (cases m) (auto simp: wrapping_def split: res.split)

lemmas trusted_seq = returns_andthen [where P = "trusted (\<lambda>_. True) R me" for R me]

lemmas trusted_ops = known.reach known.sendMessage known.on_peer known.srv_write find_trusted

lemma place_trusted:
  assumes "trusted (\<lambda>_. True) R me s" and "returns (fst (place_file e rs key r s))"
  shows "trusted (\<lambda>_. True) R me (snd (place_file e rs key r s))"
  using assms(2) unfolding place_file_def
proof (elim trusted_seq, goal_cases)
  case (3 d t cid u)
  then show ?case
    by (auto simp: with_node_def trusted_ops intro!: trusted_seq split: option.splits if_splits)
qed (use assms(1) in simp_all)

lemma route_trusted:
  assumes "trusted (\<lambda>_. True) R me s" and "returns (fst (route_delete e rs cid s))"
  shows "trusted (\<lambda>_. True) R me (snd (route_delete e rs cid s))"
  using assms
  by (auto simp: route_delete_def with_node_def trusted_ops intro!: trusted_seq split: option.splits if_splits)

lemma get_trusted:
  assumes "trusted (\<lambda>_. True) R me s" and "returns (fst (GetChord e rs cid s))"
  shows "trusted (\<lambda>_. True) R me (snd (GetChord e rs cid s))"
  using assms
  by (auto simp: GetChord_def GetFile_def with_node_def trusted_ops intro!: trusted_seq split: option.splits if_splits)

lemma node_kept:
  "chord (snd (place_file e rs key r s)) = chord s" "chord (snd (route_delete e rs cid s)) = chord s"
  "chord (snd (GetChord e rs cid s)) = chord s"
  by (auto simp: place_file_def route_delete_def GetChord_def GetFile_def with_node_def frame chord_fixed.reach
      intro!: frame_andthen split: option.split)

section \<open>Every step keeps the node well-formed\<close>

definition files_ok :: "node_ref \<Rightarrow> fsystem \<Rightarrow> bool" where
  "files_ok me st \<longleftrightarrow> sys_trusted (\<lambda>_. True) {r. proper r} me (sys st)"

text \<open>A message that names nodes by the digest of their address.\<close>

definition honest :: "string \<times> payload option \<Rightarrow> bool" where
  "honest x \<longleftrightarrow> (\<forall>m. snd x = Some m \<longrightarrow> (\<forall>r \<in> msg_refs m. proper r))"

lemma files_okD: "files_ok me st \<Longrightarrow> trusted (\<lambda>_. True) {r. proper r} me (server_of st)"
  by (simp add: files_ok_def sys_trusted_def)

lemma node_in_proper: "node_in {r. proper r} n \<Longrightarrow> node_ok n"
  by (fastforce simp: node_in_def node_refs_def node_ok_def option.pred_set)

lemma files_ok_node:
  assumes "files_ok me st"
  obtains n where "chord (server_of st) = Some n" and "node_ok n" and "self n = me"
  using files_okD [OF assms] node_in_proper by (auto simp: trusted_def)

lemma file_handler_trusted:
  assumes "trusted (\<lambda>_. True) R me s" and "\<not> maintenance m"
  shows "trusted (\<lambda>_. True) R me (snd (handleMessage e a (Some m) s))"
  using assms
  by (cases m) (auto simp: known.StoreFile_handler known.GetFile_handler known.DeleteFile_handler known.AddFile_handler
      known.GetChordFile_handler handleMessageStoreChordFile_def handleMessageDeleteChordFile_def
      intro!: known.seq known.take_chord_file known.Remove)

lemma files_ok_server:
  "files_ok me st \<Longrightarrow> trusted (\<lambda>_. True) {r. proper r} me s \<Longrightarrow> files_ok me (with_server s st)"
  by (simp add: files_ok_def sys_trusted_def)

lemma in_set_tl: "x \<in> set (tl xs) \<Longrightarrow> x \<in> set xs"
  by (cases xs) simp_all

lemma files_ok_loop:
  "files_ok me st \<Longrightarrow> trusted (\<lambda>_. True) {r. proper r} me s \<Longrightarrow> (\<And>a m. l \<noteq> Locking a m) \<Longrightarrow> files_ok me (loop_on l s st)"
  by (fastforce simp: files_ok_def sys_trusted_def dest: in_set_tl)

lemma files_ok_more [simp]:
  "files_ok me (st\<lparr>moving := ts\<rparr>) = files_ok me st" "files_ok me (st\<lparr>jobs := js\<rparr>) = files_ok me st"
  by (simp_all add: files_ok_def)

lemma file_step_ok:
  assumes "file_step e st ev st'" and ok: "files_ok me st" and "\<And>x. ev = Arrived x \<Longrightarrow> honest x"
  shows "files_ok me st'"
  using assms(1)
proof cases
  note T = files_okD [OF ok] and server = files_ok_server [OF ok] and loop = files_ok_loop [OF ok]
  {
    case (ring t)
    then show ?thesis using anything.step ok by (simp add: files_ok_def)
  next
    case (arrives x)
    then show ?thesis using ok assms(3) by (auto simp: files_ok_def sys_trusted_def receive_def honest_def)
  next
    case (input a p q)
    then show ?thesis using server T by (simp add: known.on_peers)
  next
    case (handled a m rest r s)
    then show ?thesis using loop file_handler_trusted [OF T, of m e a] by simp
  next
    case (takes a cid key b t rest n s)
    then show ?thesis using loop known.take_chord_file [OF T, of e a cid key] by simp
  next
    case (take_fails a cid key b t rest n er s)
    then show ?thesis using loop known.take_chord_file [OF T, of e a cid key] by simp
  next
    case (keeps a cid key b t)
    then show ?thesis using ok T by (simp add: files_ok_def sys_trusted_def)
  next
    case (delete_waits a cid b rest n)
    then show ?thesis using loop T by simp
  next
    case (deletes a cid b r s)
    then show ?thesis
      using ok T known.Remove [of "{r. proper r}" me "drop_responsible cid (server_of st)" e cid]
      by (simp add: files_ok_def sys_trusted_def)
  next
    case (user_places replies key r cid own s)
    then show ?thesis using server place_trusted [OF T, of e replies key r] by simp
  next
    case (user_place_fails replies key r er s)
    then show ?thesis using server place_trusted [OF T, of e replies key r] by simp
  next
    case (user_keeps cid)
    then show ?thesis using server T by simp
  next
    case (user_routes replies cid own s)
    then show ?thesis using server route_trusted [OF T, of e replies cid] by simp
  next
    case (user_route_fails replies cid er s)
    then show ?thesis using server route_trusted [OF T, of e replies cid] by simp
  next
    case (user_deletes cid r s)
    then show ?thesis
      using server T known.Remove [of "{r. proper r}" me "drop_responsible cid (server_of st)" e cid] by simp
  next
    case (user_fetches replies cid r s)
    then show ?thesis using server get_trusted [OF T, of e replies cid] by simp
  next
    case (transfer_starts n k)
    then show ?thesis using server T by (simp add: trusted_def)
  next
    case (transfer_sends t cid rest n s p)
    then show ?thesis using server known.transfer_send [OF T, of e "naddr (self n)" "target t" cid] by simp
  next
    case (transfer_skips t cid rest n er s)
    then show ?thesis using server known.transfer_send [OF T, of e "naddr (self n)" "target t" cid] by simp
  next
    case (transfer_gives t cid)
    then show ?thesis using server T by simp
  next
    case (transfer_ends t)
    then show ?thesis using ok by simp
  }
qed

section \<open>What a step does to the files of the node\<close>

fun on_files :: "file_event \<Rightarrow> string list \<Rightarrow> string list" where
  "on_files (Kept cid) cs = List.insert cid cs"
| "on_files (Dropped cid) cs = removeAll cid cs"
| "on_files (Given a cid) cs = removeAll cid cs"
| "on_files ev cs = cs"

lemma responsible_chord [simp]:
  "chord s = Some n \<Longrightarrow> chord (take_responsible cid s) = Some (n\<lparr>responsibles := List.insert cid (responsibles n)\<rparr>)"
  "chord s = Some n \<Longrightarrow> chord (drop_responsible cid s) = Some (n\<lparr>responsibles := removeAll cid (responsibles n)\<rparr>)"
  by (simp_all add: take_responsible_def drop_responsible_def)

text \<open>A file message that does not wait for the lock leaves the node as it is.\<close>

lemma file_handler_node:
  assumes "\<not> maintenance m" and "\<not> changes_files m"
  shows "chord (snd (handleMessage e a (Some m) s)) = chord s"
  using assms by (cases m) (simp_all add: frame)

lemma file_step_node:
  assumes "file_step e st ev st'" and "files_ok me st" and n: "chord (server_of st) = Some n"
  shows "if ev = Internal then (\<exists>t. sys_step e (sys st) t \<and> st' = st\<lparr>sys := t\<rparr>) \<or> chord (server_of st') = Some n
    else chord (server_of st') = Some (n\<lparr>responsibles := on_files ev (responsibles n)\<rparr>)"
  using assms(1)
proof cases
  case (handled a m rest r s)
  then show ?thesis using n file_handler_node [of m e a "server_of st"] by auto
next
  case (takes a cid key b t rest n s)
  then show ?thesis using n chord_fixed.take_chord_file [OF refl, of e a cid key "server_of st"] by simp
next
  case (take_fails a cid key b t rest n er s)
  then show ?thesis using n chord_fixed.take_chord_file [OF refl, of e a cid key "server_of st"] by simp
next
  case (deletes a cid b r s)
  then show ?thesis using n chord_fixed.Remove [OF refl, of e cid "drop_responsible cid (server_of st)"] by simp
next
  case (user_places replies key r cid own s)
  then show ?thesis using n node_kept(1) [of e replies key r "server_of st"] by simp
next
  case (user_place_fails replies key r er s)
  then show ?thesis using n node_kept(1) [of e replies key r "server_of st"] by simp
next
  case (user_routes replies cid own s)
  then show ?thesis using n node_kept(2) [of e replies cid "server_of st"] by simp
next
  case (user_route_fails replies cid er s)
  then show ?thesis using n node_kept(2) [of e replies cid "server_of st"] by simp
next
  case (user_deletes cid r s)
  then show ?thesis using n chord_fixed.Remove [OF refl, of e cid "drop_responsible cid (server_of st)"] by simp
next
  case (user_fetches replies cid r s)
  then show ?thesis using n node_kept(3) [of e replies cid "server_of st"] by simp
next
  case (transfer_sends t cid rest n' s p)
  then show ?thesis
    using n chord_fixed.transfer_send [OF refl, of e "naddr (self n')" "target t" cid "server_of st"] by simp
next
  case (transfer_skips t cid rest n' er s)
  then show ?thesis
    using n chord_fixed.transfer_send [OF refl, of e "naddr (self n')" "target t" cid "server_of st"] by simp
qed (use n in \<open>auto simp: receive_def\<close>)

lemma file_step_files:
  assumes "file_step e st ev st'" and ok: "files_ok me st" and n: "chord (server_of st) = Some n"
  shows "\<exists>n'. chord (server_of st') = Some n' \<and> responsibles n' = on_files ev (responsibles n)"
proof (cases "\<exists>t. ev = Internal \<and> sys_step e (sys st) t \<and> st' = st\<lparr>sys := t\<rparr>")
  case True
  then obtain t where t: "ev = Internal" "sys_step e (sys st) t" "st' = st\<lparr>sys := t\<rparr>" by blast
  have "maintenance m" if "loop_at (sys st) = Locking a m" for a m
    using ok that by (auto simp: files_ok_def sys_trusted_def)
  then show ?thesis using sys_step_node [OF t(2) n] node_effect_files t(1,3) by auto
next
  case False
  then show ?thesis using file_step_node [OF assms] by (cases ev) auto
qed

text \<open>While a lookup waits, nobody else gets the write lock.\<close>

lemma handle_unlocked:
  assumes "maintenance m" and "\<not> needs_lock a m n" and "chord s = Some n"
  shows "chord (snd (handleMessage e a (Some m) s)) = Some n"
  using assms
  by (cases m) (auto simp: frame handleMessageGetPredecessorResponse_def got_predecessor_def node_of_def split: option.splits)

lemma sys_step_reading:
  assumes "sys_step e st st'" and "lookups st \<noteq> []" and n: "chord (srv st) = Some n"
  shows "chord (srv st') = Some n"
  using assms(1)
proof cases
  case (handled a m rest r s)
  show ?thesis
  proof (cases m)
    case (Some x)
    then show ?thesis using handle_unlocked [of x a n "srv st" e] handled n by simp
  qed (use handled n in auto)
next
  case (stabilizes s)
  then show ?thesis using n frame_stabilize [of e "srv st"] by simp
qed (use assms(2) n in \<open>auto dest: begin_lookup_nodeD simp: OnPeer_def\<close>)

lemma file_step_reading:
  assumes "file_step e st ev st'" and "files_ok me st" and "lookups (sys st) \<noteq> []" and n: "chord (server_of st) = Some n"
  shows "chord (server_of st') = Some n"
proof -
  have "on_files ev cs = cs" for cs using assms(1,3) by cases auto
  then show ?thesis using file_step_node [OF assms(1,2) n] sys_step_reading [OF _ assms(3) n] by (auto split: if_splits)
qed

end
