(* ===== verification/Node_Files_Props.thy ===== *)
theory Node_Files_Props
  imports Node_Files_Laws Server_Props Goroutine_Props
begin

text \<open>
  Properties of the goroutines of a node with its files: the set of files a node is responsible
  for is what the history of stores, deletions and transfers makes of it, no file is given up
  that was not sent, a waiting lookup keeps everybody from changing the node, and what a
  transfer does.
\<close>

section \<open>What a transfer writes\<close>

definition announced :: "env \<Rightarrow> string \<Rightarrow> string \<Rightarrow> string \<Rightarrow> bytes \<Rightarrow> bytes list" where
  "announced e own cid name data =
     [[IncomingMessage], gob_msg e (MessageStoreChordFile cid name own True), [IncomingStream]] @ chunk data"

text \<open>On a connection that works everything is written, on another one nothing.\<close>

lemma send_announced:
  assumes "getAll e cid s = (Ret (data, name), u)" and "map_of (peers u) a = Some p" and "broken p = None"
  shows "transfer_send e own a cid s =
    (Ret (), u\<lparr>peers := AList.update a (p\<lparr>outp := outp p @ announced e own cid name data\<rparr>) (peers u)\<rparr>)"
  using assms
  by (simp add: transfer_send_def sendMessage_ok Send_def conn_write_def copy_to_peer_ok announced_def)

lemma transfer_send_Ret:
  assumes "transfer_send e own a cid s = (Ret (), t)"
  obtains data name u q where "getAll e cid s = (Ret (data, name), u)" and "map_of (peers u) a = Some q"
    and "t = u\<lparr>peers := AList.update a (q\<lparr>outp := outp q @ announced e own cid name data\<rparr>) (peers u)\<rparr>"
proof -
  obtain x u where g: "getAll e cid s = (Ret x, u)"
    and k: "(case x of (data, fileName) \<Rightarrow> \<lambda>s.
       case map_of (peers s) a of
         None \<Rightarrow> (Fail (Errorf ''Predecessor not in peer list'' [a]), s)
       | Some p \<Rightarrow>
           andthen (sendMessage e a (MessageStoreChordFile cid fileName own True) s) (\<lambda>_ s.
           andthen (ignoring (on_peer a (Send [IncomingStream]) s)) (\<lambda>_ s.
           andthen (on_peer a (copy_to_peer data) s) (\<lambda>n s. (Ret (), s))))) u = (Ret (), t)"
    using assms unfolding transfer_send_def by (rule andthen_RetE)
  obtain data name where x: "x = (data, name)" by (cases x)
  obtain q where q: "map_of (peers u) a = Some q" using k x by (auto split: option.splits)
  have "broken q = None"
    using k x q by (cases "broken q") (simp_all add: sendMessage_def on_peer_def send_frame_broken)
  from send_announced [OF _ q this, of e cid s data name own] g x q assms show ?thesis by (auto intro: that)
qed

lemma transfer_send_writes:
  assumes "transfer_send e own a cid s = (Ret (), t)"
  shows "\<exists>p name data. map_of (peers t) a = Some p \<and> suffix (announced e own cid name data) (outp p)"
proof -
  obtain data name u q where "map_of (peers u) a = Some q"
    "t = u\<lparr>peers := AList.update a (q\<lparr>outp := outp q @ announced e own cid name data\<rparr>) (peers u)\<rparr>"
    by (rule transfer_send_Ret [OF assms])
  then show ?thesis
    by (intro exI [of _ "q\<lparr>outp := outp q @ announced e own cid name data\<rparr>"] exI [of _ name] exI [of _ data])
      (simp add: suffix_def update_conv')
qed

section \<open>The history of a node's files\<close>

text \<open>
  A file was sent to an address: the message, the byte that announces a stream and the whole file
  were the last that was written to the connection. It lies after that address and up to
  the node.
\<close>

definition handed :: "env \<Rightarrow> node_ref \<Rightarrow> file_event set \<Rightarrow> string \<Rightarrow> string \<Rightarrow> bool" where
  "handed e me E a cid \<longleftrightarrow>
     (\<exists>out name data. Sent a cid out \<in> E \<and> suffix (announced e (naddr me) cid name data) out) \<and>
     isBetween (hashToNodeID cid) (hashToNodeID a) (nid me) True"

text \<open>What is registered was placed before, what is given up was sent before.\<close>

definition in_order :: "env \<Rightarrow> node_ref \<Rightarrow> file_event list \<Rightarrow> bool" where
  "in_order e me evs \<longleftrightarrow>
     (\<forall>es cid. prefix (es @ [Kept cid]) evs \<longrightarrow> Placed cid True \<in> set es) \<and>
     (\<forall>es a cid. prefix (es @ [Given a cid]) evs \<longrightarrow> handed e me (set es) a cid)"

definition history_ok :: "env \<Rightarrow> node_ref \<Rightarrow> file_event list \<Rightarrow> fsystem \<Rightarrow> bool" where
  "history_ok e me evs st \<longleftrightarrow> files_ok me st \<and> in_order e me evs \<and>
     (\<forall>t \<in> set (moving st).
        (\<forall>cid \<in> set (cids t). isBetween (hashToNodeID cid) (hashToNodeID (target t)) (nid me) True) \<and>
        (\<forall>cid. giving t = Some cid \<longrightarrow> handed e me (set evs) (target t) cid)) \<and>
     (\<forall>cid. Keeping cid \<in> set (jobs st) \<or> (\<exists>a k b x. loop_at (sys st) = Filing a (MessageStoreChordFile cid k b x)) \<longrightarrow>
        Placed cid True \<in> set evs)"

lemma handed_mono: "handed e me E a cid \<Longrightarrow> E \<subseteq> E' \<Longrightarrow> handed e me E' a cid"
  by (fastforce simp: handed_def)

lemma in_order_snoc:
  assumes "in_order e me evs" and "\<And>cid. ev = Kept cid \<Longrightarrow> Placed cid True \<in> set evs"
    and "\<And>a cid. ev = Given a cid \<Longrightarrow> handed e me (set evs) a cid"
  shows "in_order e me (evs @ [ev])"
  using assms by (auto simp: in_order_def)

text \<open>The loop comes to wait with a file in no other way than by taking its message.\<close>

lemma sys_step_filing: "sys_step e st st' \<Longrightarrow> loop_at st' = Filing a m \<Longrightarrow> loop_at st = Filing a m"
  by (induction rule: sys_step.induct) auto

lemma files_selected:
  assumes "node_ok n" and "predecessor n = Some p" and "cid \<in> set (files_to_transfer n)"
  shows "isBetween (hashToNodeID cid) (hashToNodeID (naddr p)) (nid (self n)) True"
  using assms by (auto simp: files_to_transfer_def node_ok_def proper_def)

lemma history_step:
  assumes "file_step e st ev st'" and h: "history_ok e me evs st" and "\<And>x. ev = Arrived x \<Longrightarrow> honest x"
  shows "history_ok e me (evs @ [ev]) st'"
proof -
  have ok: "files_ok me st" and io: "in_order e me evs" using h by (simp_all add: history_ok_def)
  have ok': "files_ok me st'" by (rule file_step_ok [OF assms(1) ok assms(3)])
  obtain m where m: "chord (server_of st) = Some m" "node_ok m" "self m = me" by (rule files_ok_node [OF ok])
  have later: "handed e me (insert ev (set evs)) a cid" if "handed e me (set evs) a cid" for a cid
    using handed_mono [OF that] by blast
  have io': "in_order e me (evs @ [ev])"
    using assms(1) by cases (use io h in \<open>auto simp: history_ok_def intro!: in_order_snoc\<close>)
  show ?thesis
    using assms(1)
  proof cases
    case (ring t)
    then show ?thesis using h ok' io' later sys_step_filing [OF ring(3)] by (fastforce simp: history_ok_def)
  next
    case (transfer_starts n k)
    then show ?thesis
      using h ok' io' later m files_selected [OF m(2)] by (auto simp: history_ok_def split: option.splits)
  next
    case (transfer_sends t cid rest n s p)
    have t: "\<forall>cid \<in> set (cids t). isBetween (hashToNodeID cid) (hashToNodeID (target t)) (nid me) True"
      using h transfer_sends(3) by (simp add: history_ok_def)
    have "\<exists>name data. suffix (announced e (naddr me) cid name data) (outp p)"
      using transfer_send_writes [OF transfer_sends(7)] transfer_sends(6,8) m by auto
    then have "handed e me (insert ev (set evs)) (target t) cid"
      using t transfer_sends(1,5) by (auto simp: handed_def)
    then show ?thesis
      using h ok' io' later t transfer_sends
      by (auto simp: history_ok_def dest!: set_remove1_subset [THEN subsetD])
  qed (use h ok' io' later in
      \<open>auto simp: history_ok_def receive_def dest!: set_remove1_subset [THEN subsetD]\<close>)
qed

lemma history_boot:
  assumes "chord s = Some n" and "node_ok n" and "pending s = []"
  shows "history_ok e (self n) [] (files_boot s)"
proof -
  have "node_in {r. proper r} n"
    using assms(2) by (auto simp: node_in_def node_refs_def node_ok_def option.pred_set)
  then show ?thesis
    using assms by (simp add: history_ok_def in_order_def files_boot_def boot_def files_ok_def sys_trusted_def trusted_def)
qed

lemma history_run:
  assumes "file_run e st evs st'" and "history_ok e me [] st" and "chord (server_of st) = Some n"
    and "\<forall>x. Arrived x \<in> set evs \<longrightarrow> honest x"
  shows "history_ok e me evs st' \<and>
    (\<exists>n'. chord (server_of st') = Some n' \<and> responsibles n' = fold on_files evs (responsibles n))"
  using assms(1,4)
proof (induction rule: file_run.induct)
  case idle
  then show ?case using assms(2,3) by simp
next
  case (steps evs st' ev st'')
  then obtain n' where h: "history_ok e me evs st'"
    and n': "chord (server_of st') = Some n'" "responsibles n' = fold on_files evs (responsibles n)" by auto
  have "files_ok me st'" using h by (simp add: history_ok_def)
  then show ?case
    using history_step [OF steps.hyps(2) h] file_step_files [OF steps.hyps(2) _ n'(1)] n'(2) steps.prems by auto
qed


lemma place_alone:
  assumes "chord s = Some n" and "successor n = Some (self n)" and "fin r = AtEOF"
    and "srv_write e (hex (sha1 (content r))) key (buffer (content r)) 0 0 s = (Ret k, s1)"
  shows "place_file e replies key r s = (Ret (hex (sha1 (content r)), True), s1)"
  using assms by (simp add: place_file_def with_node_def GenerateCID_def read_all_EOF)


text \<open>C11: while a lookup waits for its answer with the read lock, no step of any goroutine changes
  the node.\<close>

theorem readers_exclude_writers:
  assumes "file_run e (files_boot s) evs st" and "chord s = Some n" and "node_ok n" and "pending s = []"
    and "\<forall>x. Arrived x \<in> set evs \<longrightarrow> honest x"
    and "lookups (sys st) \<noteq> []" and "file_step e st ev st'"
  shows "chord (server_of st') = chord (server_of st)"
proof -
  have c: "chord (server_of (files_boot s)) = Some n" using assms(2) by (simp add: files_boot_def boot_def)
  obtain n' where h: "history_ok e (self n) evs st" and n': "chord (server_of st) = Some n'"
    using history_run [OF assms(1) history_boot [OF assms(2-4)] c assms(5)] by blast
  then have "files_ok (self n) st" by (simp add: history_ok_def)
  from file_step_reading [OF assms(7) this assms(6) n'] n' show ?thesis by simp
qed

theorem readers_exclude_writers_witness:
  "\<exists>st st'. file_run demo_env (files_boot (srv (demo_system []))) [Internal, Arrived (''b'', Some (MessageNotify (int_bytes (hashToNodeID addr3000)) addr3000))] st \<and>
    lookups (sys st) \<noteq> [] \<and> file_step demo_env st Internal st' \<and>
    loop_at (sys st') = Locking ''b'' (MessageNotify (int_bytes (hashToNodeID addr3000)) addr3000) \<and>
    chord (server_of st') = chord (server_of st)"
proof -
  let ?s = "srv (demo_system [])" and ?n = "demo_node addr5000 addr4000"
  let ?m = "MessageNotify (int_bytes (hashToNodeID addr3000)) addr3000"
  let ?k = "fingerID (nid (self ?n)) 159"
  have ok: "node_ok ?n" by (simp add: node_ok_def demo_node_def)
  have c: "chord ?s = Some ?n" "pending ?s = []" by simp_all
  obtain t where t: "begin_lookup demo_env addr4000 ?k ?s = (Ret True, t)" "chord t = Some ?n"
    using begin_ask [of addr4000 ?s demo_env ?k] by auto
  let ?l = "\<lparr>requests = [request_id demo_env addr4000 ?s], asked = addr4000, ident = ?k, finger = 159, direct = True\<rparr>"
  let ?b = "boot ?s"
  let ?sys1 = "?b\<lparr>srv := t, lookups := [?l]\<rparr>"
  have "sys_step demo_env ?b ?sys1"
    using sys_step.lookup_asks [of ?b ?n ?k 159 "ref_of addr4000" demo_env True t] c t demo_asks by (simp add: boot_def)
  then have 1: "file_step demo_env (files_boot ?s) Internal ((files_boot ?s)\<lparr>sys := ?sys1\<rparr>)"
    using file_step.ring [of demo_env "files_boot ?s" ?sys1] by (simp add: files_boot_def)
  let ?st1 = "(files_boot ?s)\<lparr>sys := ?sys1\<rparr>" and ?st2 = "(files_boot ?s)\<lparr>sys := receive (''b'', Some ?m) ?sys1\<rparr>"
  have 2: "file_step demo_env ?st1 (Arrived (''b'', Some ?m)) ?st2"
    using file_step.arrives [of demo_env ?st1] by simp
  have run: "file_run demo_env (files_boot ?s) [Internal, Arrived (''b'', Some ?m)] ?st2"
    using file_run.steps [OF file_run.steps [OF file_run.idle 1] 2] by simp
  let ?sys3 = "(receive (''b'', Some ?m) ?sys1)\<lparr>loop_at := Locking ''b'' ?m, inbox := []\<rparr>"
  have "sys_step demo_env (receive (''b'', Some ?m) ?sys1) ?sys3"
    by (rule sys_step.lock_waits [where n = ?n]) (simp_all add: receive_def boot_def t(2))
  then have 3: "file_step demo_env ?st2 Internal ((files_boot ?s)\<lparr>sys := ?sys3\<rparr>)"
    using file_step.ring [of demo_env ?st2 ?sys3] by simp
  have h: "\<forall>x. Arrived x \<in> set [Internal, Arrived (''b'', Some ?m)] \<longrightarrow> honest x" by (simp add: honest_def)
  have l: "lookups (sys ?st2) \<noteq> []" by (simp add: receive_def)
  have w: "loop_at (sys ((files_boot ?s)\<lparr>sys := ?sys3\<rparr>)) = Locking ''b'' ?m" by simp
  from readers_exclude_writers [OF run c(1) ok c(2) h l 3] run l 3 w show ?thesis by blast
qed

section \<open>A transfer from its start to its end\<close>

lemma file_run_trans:
  assumes "file_run e st es st'" and "file_run e st' es' st''"
  shows "file_run e st (es @ es') st''"
  using assms(2,1) by (induction rule: file_run.induct) (auto simp flip: append_assoc intro: file_run.steps)

lemma file_run_step: "file_step e st ev st' \<Longrightarrow> file_run e st' es st'' \<Longrightarrow> file_run e st (ev # es) st''"
  using file_run_trans [of e st "[ev]" st' es st''] file_run.steps [OF file_run.idle, of e st ev st'] by simp

text \<open>The loop of a transfer, as the sequential operation runs it, is a run of its goroutine.\<close>

lemma transfer_loop_run:
  assumes "transfer_loop e own a cs (server_of st) = (Ret (), s')" and "lookups (sys st) = []"
    and "chord (server_of st) = Some n" and "own = naddr (self n)"
    and "moving st = \<lparr>target = a, cids = cs, giving = None\<rparr> # ts"
  shows "\<exists>evs. file_run e st evs ((with_server s' st)\<lparr>moving := ts\<rparr>)"
  using assms
proof (induction cs arbitrary: st n)
  case Nil
  have "file_step e st Internal (st\<lparr>moving := ts\<rparr>)"
    using file_step.transfer_ends [of "\<lparr>target = a, cids = [], giving = None\<rparr>" st e] Nil(5) by simp
  moreover have "with_server s' st = st" using Nil(1) by (simp add: with_server_def)
  ultimately show ?case using file_run.idle file_run_step by metis
next
  case (Cons cid cs)
  let ?t = "\<lparr>target = a, cids = cid # cs, giving = None\<rparr>"
  obtain r s1 where send: "transfer_send e own a cid (server_of st) = (r, s1)" by fastforce
  have c1: "chord s1 = Some n"
    using chord_fixed.transfer_send [OF refl, of e own a cid "server_of st"] send Cons.prems(3) by simp
  show ?case
  proof (cases r)
    case (Ret u)
    obtain p where p: "map_of (peers s1) a = Some p" using transfer_send_writes [of e own a cid "server_of st" s1] send Ret by auto
    let ?st1 = "(with_server s1 st)\<lparr>moving := ?t\<lparr>cids := cs, giving := Some cid\<rparr> # ts\<rparr>"
    let ?st2 = "(with_server (drop_responsible cid s1) st)\<lparr>moving := ?t\<lparr>cids := cs\<rparr> # ts\<rparr>"
    have 1: "file_step e st (Sent a cid (outp p)) ?st1"
      using file_step.transfer_sends [of ?t st cid cs n e s1 p] Cons.prems(3-5) send Ret p by simp
    have 2: "file_step e ?st1 (Given a cid) ?st2"
      using file_step.transfer_gives [of "?t\<lparr>cids := cs, giving := Some cid\<rparr>" ?st1 cid e] Cons.prems(2)
      by (simp add: with_server_def)
    have "\<exists>evs. file_run e ?st2 evs ((with_server s' ?st2)\<lparr>moving := ts\<rparr>)"
      by (rule Cons.IH [of ?st2 "n\<lparr>responsibles := removeAll cid (responsibles n)\<rparr>"])
        (use Cons.prems send Ret c1 in \<open>simp_all add: transfer_file_def\<close>)
    then show ?thesis using file_run_step [OF 1 file_run_step [OF 2]] by (auto simp: with_server_def)
  next
    case (Fail er)
    let ?st1 = "(with_server s1 st)\<lparr>moving := ?t\<lparr>cids := cs\<rparr> # ts\<rparr>"
    have 1: "file_step e st Internal ?st1"
      using file_step.transfer_skips [of ?t st cid cs n e er s1] Cons.prems(3-5) send Fail by simp
    have "\<exists>evs. file_run e ?st1 evs ((with_server s' ?st1)\<lparr>moving := ts\<rparr>)"
      by (rule Cons.IH [of ?st1 n]) (use Cons.prems send Fail c1 in \<open>simp_all add: transfer_file_def\<close>)
    then show ?thesis using file_run_step [OF 1] by (auto simp: with_server_def)
  qed (use Cons.prems(1) send in \<open>simp_all add: transfer_file_def\<close>)
qed

text \<open>With the files on the disk and a connection that works every file is sent.\<close>

lemma read_cong:
  "fstore t = fstore s \<Longrightarrow> fdisk t = fdisk s \<Longrightarrow> net t = net s \<Longrightarrow> srv_read e t cid = srv_read e s cid"
  by (simp add: srv_read_def)

lemma transfer_loop_ok:
  assumes "\<forall>cid \<in> set cs. srv_has s cid \<and> named_file (srv_read e s cid) = Ret (text cid)"
    and "map_of (peers s) a = Some q" and "broken q = None" and "chord s = Some n"
  shows "transfer_loop e own a cs s = (Ret (), s\<lparr>
    peers := AList.update a (q\<lparr>outp := outp q @
      concat (map (\<lambda>cid. announced e own cid (snd (text cid)) (fst (text cid))) cs)\<rparr>) (peers s),
    chord := Some (n\<lparr>responsibles := filter (\<lambda>cid. cid \<notin> set cs) (responsibles n)\<rparr>)\<rparr>)"
  using assms
proof (induction cs arbitrary: s q n)
  case Nil
  then show ?case by (simp add: update_same)
next
  case (Cons cid cs)
  let ?q = "q\<lparr>outp := outp q @ announced e own cid (snd (text cid)) (fst (text cid))\<rparr>"
  let ?n = "n\<lparr>responsibles := removeAll cid (responsibles n)\<rparr>"
  let ?s = "s\<lparr>peers := AList.update a ?q (peers s), chord := Some ?n\<rparr>"
  have "getAll e cid s = (Ret (fst (text cid), snd (text cid)), s)" using Cons.prems(1) by (simp add: getAll_def)
  from send_announced [OF this Cons.prems(2,3)]
  have "transfer_file e own a cid s = (Ret (), ?s)"
    using Cons.prems(4) by (simp add: transfer_file_def drop_responsible_def)
  moreover have "transfer_loop e own a cs ?s = (Ret (), ?s\<lparr>
    peers := AList.update a (?q\<lparr>outp := outp ?q @
      concat (map (\<lambda>cid. announced e own cid (snd (text cid)) (fst (text cid))) cs)\<rparr>) (peers ?s),
    chord := Some (?n\<lparr>responsibles := filter (\<lambda>cid. cid \<notin> set cs) (responsibles ?n)\<rparr>)\<rparr>)"
    by (rule Cons.IH) (use Cons.prems has_cong [of ?s s] read_cong [of ?s s e] in \<open>simp_all add: update_conv'\<close>)
  moreover have "filter (\<lambda>c. c \<notin> set cs) (removeAll cid cids) = filter (\<lambda>c. c \<notin> set (cid # cs)) cids" for cids
    by (induction cids) auto
  ultimately show ?case by simp
qed

text \<open>The files selected are those between the predecessor and the node, with both ends.\<close>

lemma files_to_transfer_set:
  assumes "node_ok n" and "predecessor n = Some p" and "nid p \<noteq> nid (self n)"
  shows "set (files_to_transfer n) =
    {cid \<in> set (responsibles n). cdist (nid p) (hashToNodeID cid) \<le> cdist (nid p) (nid (self n))}"
proof -
  have pos: "nid p < ringN" "nid (self n) < ringN"
    using assms(1,2) by (simp_all add: node_ok_def proper_bound)
  show ?thesis
    using isBetween_closed [OF hashToNodeID_bound pos assms(3)]
    by (auto simp: files_to_transfer_def assms(2))
qed

text \<open>C12: a transfer that a notification has started, when the files are on the disk and the connection
  to the predecessor works, runs to its end as the sequential operation does: one after the
  other each selected file goes with its message and in plain text to the predecessor, the disk
  stays as it is. Of the files it is responsible for the node keeps those that other nodes own;
  those between the predecessor and itself, which it owns itself, it has given away.\<close>

theorem transfer_gives_own_files:
  assumes "chord (server_of st) = Some n" and "node_ok n" and "predecessor n = Some p" and "nid p \<noteq> nid (self n)"
    and "map_of (peers (server_of st)) (naddr p) = Some q" and "broken q = None"
    and "\<forall>cid \<in> set (responsibles n). srv_has (server_of st) cid \<and>
      named_file (srv_read e (server_of st) cid) = Ret (text cid)"
    and "loop_at (sys st) = Receiving" and "lookups (sys st) = []" and "transfers (server_of st) = Suc k"
  shows "\<exists>evs s' n' q'. transferResponsibilities e ((server_of st)\<lparr>transfers := k\<rparr>) = (Ret (), s') \<and>
    file_run e st evs (with_server s' st) \<and> fdisk s' = fdisk (server_of st) \<and>
    chord s' = Some n' \<and>
    set (responsibles n') = {cid \<in> set (responsibles n). cdist (nid p) (nid (self n)) < cdist (nid p) (hashToNodeID cid)} \<and>
    map_of (peers s') (naddr p) = Some q' \<and> outp q' = outp q @
      concat (map (\<lambda>cid. announced e (naddr (self n)) cid (snd (text cid)) (fst (text cid))) (files_to_transfer n))"
proof -
  let ?s = "(server_of st)\<lparr>transfers := k\<rparr>" and ?own = "naddr (self n)" and ?cs = "files_to_transfer n"
  let ?q = "q\<lparr>outp := outp q @ concat (map (\<lambda>cid. announced e ?own cid (snd (text cid)) (fst (text cid))) ?cs)\<rparr>"
  let ?n = "n\<lparr>responsibles := filter (\<lambda>cid. cid \<notin> set ?cs) (responsibles n)\<rparr>"
  let ?s' = "?s\<lparr>peers := AList.update (naddr p) ?q (peers ?s), chord := Some ?n\<rparr>"
  have cs: "set ?cs = {cid \<in> set (responsibles n). cdist (nid p) (hashToNodeID cid) \<le> cdist (nid p) (nid (self n))}"
    by (rule files_to_transfer_set [OF assms(2-4)])
  have "srv_has ?s cid = srv_has (server_of st) cid" "srv_read e ?s cid = srv_read e (server_of st) cid" for cid
    by (rule has_cong, simp_all) (rule read_cong, simp_all)
  then have readable: "\<forall>cid \<in> set ?cs. srv_has ?s cid \<and> named_file (srv_read e ?s cid) = Ret (text cid)"
    using assms(7) cs by simp
  have "map_of (peers ?s) (naddr p) = Some q" "chord ?s = Some n" using assms(1,5) by simp_all
  from transfer_loop_ok [OF readable this(1) assms(6) this(2)]
  have loop: "transfer_loop e ?own (naddr p) ?cs ?s = (Ret (), ?s')" by simp
  let ?st = "(with_server ?s st)\<lparr>moving := \<lparr>target = naddr p, cids = ?cs, giving = None\<rparr> # moving st\<rparr>"
  have start: "file_step e st Internal ?st"
    using file_step.transfer_starts [OF assms(8,1,10), of e] assms(3) by simp
  obtain evs where run: "file_run e ?st evs ((with_server ?s' ?st)\<lparr>moving := moving st\<rparr>)"
    using transfer_loop_run [of e ?own "naddr p" ?cs ?st ?s' n "moving st"] loop assms(1,9) by auto
  have "(with_server ?s' ?st)\<lparr>moving := moving st\<rparr> = with_server ?s' st" by (simp add: with_server_def)
  from file_run_step [OF start run [unfolded this]] have run: "file_run e st (Internal # evs) (with_server ?s' st)" .
  have seq: "transferResponsibilities e ?s = (Ret (), ?s')"
    using loop assms(1,3) by (simp add: transferResponsibilities_def with_node_def)
  have left: "set (responsibles ?n) =
      {cid \<in> set (responsibles n). cdist (nid p) (nid (self n)) < cdist (nid p) (hashToNodeID cid)}"
    unfolding chord_node.simps set_filter cs by auto
  have "fdisk ?s' = fdisk (server_of st)" "chord ?s' = Some ?n" by simp_all
  moreover have "map_of (peers ?s') (naddr p) = Some ?q" by (simp add: update_conv')
  moreover have "outp ?q = outp q @ concat (map (\<lambda>cid. announced e ?own cid (snd (text cid)) (fst (text cid))) ?cs)"
    by simp
  ultimately show ?thesis using run seq left by blast
qed

text \<open>Node 4000 owns the file at position 5000, and gives it to its predecessor 3000.\<close>

theorem transfer_gives_own_files_witness:
  "\<exists>s evs st' n'. file_run demo_env (files_boot s) evs st' \<and>
    map_option responsibles (chord s) = Some [addr5000] \<and> is_owner [addr3000, addr4000] (hashToNodeID addr5000) addr4000 \<and>
    chord (server_of st') = Some n' \<and> responsibles n' = []"
proof -
  let ?m = "fst (notify (ref_of addr3000) (NewChordNode addr4000))"
  let ?n = "?m\<lparr>responsibles := [addr5000]\<rparr>"
  let ?raw = "cipher_text demo_prims aes_network demo_iv [7, 8]"
  let ?p = "demo_peer addr3000 \<lparr>segs = [], fin = Open\<rparr> 0"
  let ?d = "disk_with demo_env (demo_server aes_network) ?raw demo_iv addr5000 ''a.txt'' 0 0"
  let ?s = "(demo_server aes_network)\<lparr>fdisk := ?d, drawn := 2, chord := Some ?n, peers := [(addr3000, ?p)], transfers := Suc 0\<rparr>"
  have "node_ok ?m" by (simp add: notify_ok NewChordNode_ok)
  then have ok: "node_ok ?n" by (simp add: node_ok_def)
  have n: "predecessor ?n = Some (ref_of addr3000)" "self ?n = ref_of addr4000"
    by (simp_all add: notify_def NewChordNode_def)
  have ne: "nid (ref_of addr3000) \<noteq> nid (self ?n)" using n(2) by (simp add: demo_positions)
  have "plain addr5000" by (simp add: plain_def addr5000_def)
  then have e0: "has_entry demo_env ((demo_server aes_network)\<lparr>fdisk := ?d, drawn := 2\<rparr>) addr5000 ?raw
      (metadata_for demo_store addr5000 ''a.txt'' 0 0)"
    using disk_with_entry [OF demo_server_good(1) _ length_demo_iv, where cid = addr5000 and raw = ?raw and key = "''a.txt''"
        and part = 0 and tot = 0 and k = 2] by simp
  have en: "has_entry demo_env ?s addr5000 ?raw (metadata_for demo_store addr5000 ''a.txt'' 0 0)"
    by (rule entry_cong [OF e0]) simp_all
  have g: "good_server demo_env ?s"
    by (rule good_server_cong [OF disk_with_good [OF demo_server_good(1)]]) simp_all
  have rd: "srv_read demo_env ?s addr5000 = Ret (cipher_count (net ?s) [7, 8], [7, 8], metadata_for demo_store addr5000 ''a.txt'' 0 0)"
    by (rule entry_decrypts [OF _ g length_demo_iv]) (use en in \<open>simp add: demo_lib_def\<close>)
  let ?st = "files_boot ?s"
  have st: "chord (server_of ?st) = Some ?n" "map_of (peers (server_of ?st)) (naddr (ref_of addr3000)) = Some ?p"
    "loop_at (sys ?st) = Receiving" "lookups (sys ?st) = []" "transfers (server_of ?st) = Suc 0"
    by (simp_all add: files_boot_def boot_def)
  have files: "\<forall>cid \<in> set (responsibles ?n). srv_has (server_of ?st) cid \<and>
      named_file (srv_read demo_env (server_of ?st) cid) = Ret ((\<lambda>_. ([7, 8], ''a.txt'')) cid)"
    using en rd by (simp add: files_boot_def boot_def has_entry_def named_file_def metadata_for_def)
  obtain evs s' n' where run: "file_run demo_env ?st evs (with_server s' ?st)" and n': "chord s' = Some n'"
    and left: "set (responsibles n') = {cid \<in> set (responsibles ?n).
      cdist (nid (ref_of addr3000)) (nid (self ?n)) < cdist (nid (ref_of addr3000)) (hashToNodeID cid)}"
    using transfer_gives_own_files [OF st(1) ok n(1) ne st(2) demo_peer_simps(3) files st(3-5)] by blast
  have "responsibles n' = []" using left n(2) by (simp add: demo_positions cdist_def cong: conj_cong)
  moreover have "is_owner [addr3000, addr4000] (hashToNodeID addr5000) addr4000"
    by (simp add: is_owner_def demo_positions cdist_def ringN_def M_def)
  ultimately show ?thesis using run n'
    by (intro exI [of _ ?s] exI [of _ evs] exI [of _ "with_server s' ?st"] exI [of _ n']) simp
qed

section \<open>A transferred file at the other end\<close>



end
